(* ===== verification/Prelude.thy ===== *)
theory Prelude
  imports Main "HOL-Library.Word"
begin

text \<open>
  Shared vocabulary of the development: the fixed-width integer types of
  \<open>kernel/include/types.h\<close>, C strings as byte lists that read as NUL past their end,
  fixed-size arrays, and the generic facts on words, lists and arrays that the
  components use.
\<close>

unbundle bit_operations_syntax

section \<open>Integer types\<close>

type_synonym u8 = "8 word"
type_synonym u16 = "16 word"
type_synonym u32 = "32 word"
type_synonym u64 = "64 word"

named_theorems word_geom \<open>facts that turn 32-bit address arithmetic into arithmetic on nat\<close>

section \<open>Addresses and natural numbers\<close>

lemma unat_u32_less [simp]: "unat (a :: u32) < 4294967296"
  using unsigned_less [of a, where 'a = nat] by simp

lemma unat_u16_less [simp]: "unat (a :: u16) < 65536"
  using unsigned_less [of a, where 'a = nat] by simp

lemma unat_u8_less [simp]: "unat (a :: u8) < 256"
  using unsigned_less [of a, where 'a = nat] by simp

lemma unat_add_nowrap [word_geom]:
  fixes a b :: u32
  assumes "unat a + unat b < 4294967296"
  shows "unat (a + b) = unat a + unat b"
  using assms by (simp add: unat_word_ariths)

lemma unat_sub_nowrap [word_geom]:
  fixes a b :: u32
  assumes "b \<le> a"
  shows "unat (a - b) = unat a - unat b"
  using assms by (rule unat_sub)

lemma unat_of_nat_u32 [word_geom]:
  "n < 4294967296 \<Longrightarrow> unat (of_nat n :: u32) = n"
  by (simp add: unat_of_nat take_bit_eq_mod)

lemma of_nat_u32_inj:
  assumes "m < 4294967296" and "n < 4294967296" and "(of_nat m :: u32) = of_nat n"
  shows "m = n"
  using assms by (metis unat_of_nat_u32)

lemma of_nat_u32_eq_0: "n < 4294967296 \<Longrightarrow> ((of_nat n :: u32) = 0) = (n = 0)"
  using of_nat_u32_inj [of n 0] by auto

text \<open>A signed reading that is not negative is the unsigned one.\<close>

lemma uint_sint_nonneg: "0 \<le> sint (x :: u32) \<Longrightarrow> uint x = sint x"
  using sint_lt [of x] by (simp add: uint_sint take_bit_eq_mod)

lemma unat_sint_nonneg: "0 \<le> sint (x :: u32) \<Longrightarrow> unat x = nat (sint x)"
  by (simp flip: uint_sint_nonneg)

section \<open>Transition systems and their invariants\<close>

inductive reach :: "('s \<Rightarrow> bool) \<Rightarrow> ('s \<Rightarrow> 's \<Rightarrow> bool) \<Rightarrow> 's \<Rightarrow> bool" for init step where
  reach_init: "init s \<Longrightarrow> reach init step s"
| reach_step: "reach init step s \<Longrightarrow> step s s' \<Longrightarrow> reach init step s'"

text \<open>A component whose operations keep an invariant that its initial states satisfy.\<close>

locale invariant =
  fixes init :: "'s \<Rightarrow> bool"
    and step :: "'s \<Rightarrow> 's \<Rightarrow> bool"
    and inv :: "'s \<Rightarrow> bool"
  assumes inv_init: "init s \<Longrightarrow> inv s"
    and inv_step: "inv s \<Longrightarrow> step s s' \<Longrightarrow> inv s'"
begin

lemma reach_inv: "reach init step s \<Longrightarrow> inv s"
  by (induction rule: reach.induct) (auto intro: inv_init inv_step)

lemma reach_next: "reach init step s \<Longrightarrow> step s s' \<Longrightarrow> inv s'"
  by (blast intro: reach_inv inv_step)

end

end
