(* ===== verification/Memory.thy ===== *)
theory Memory
  imports Prelude
begin

text \<open>
  Byte-addressed memory of the i386 build: a function from 32-bit addresses to bytes,
  little-endian loads and stores, and the two byte loops of the sources (copy forwards,
  fill). Every address computation wraps at 32 bits, as pointer arithmetic does there.
  A region of \<open>n\<close> bytes at \<open>d\<close> is the set of addresses whose offset from
  \<open>d\<close> is below \<open>n\<close>.
\<close>

type_synonym mem = "u32 \<Rightarrow> u8"

section \<open>Loads and stores\<close>

definition rd16 :: "mem \<Rightarrow> u32 \<Rightarrow> u16" where
  "rd16 m a = ucast (m a) OR push_bit 8 (ucast (m (a + 1)))"

definition rd32 :: "mem \<Rightarrow> u32 \<Rightarrow> u32" where
  "rd32 m a = ucast (m a) OR push_bit 8 (ucast (m (a + 1))) OR
     push_bit 16 (ucast (m (a + 2))) OR push_bit 24 (ucast (m (a + 3)))"

definition wr32 :: "mem \<Rightarrow> u32 \<Rightarrow> u32 \<Rightarrow> mem" where
  "wr32 m a v = m(a := ucast v, a + 1 := ucast (drop_bit 8 v),
     a + 2 := ucast (drop_bit 16 v), a + 3 := ucast (drop_bit 24 v))"

lemma bytes_u32:
  "(ucast (ucast (v :: u32) :: u8) :: u32) OR push_bit 8 (ucast (ucast (drop_bit 8 v) :: u8)) OR
   push_bit 16 (ucast (ucast (drop_bit 16 v) :: u8)) OR
   push_bit 24 (ucast (ucast (drop_bit 24 v) :: u8)) = v" (is "?l = v")
proof (rule bit_word_eqI)
  fix n assume n: "n < LENGTH(32)"
  consider "n < 8" | "8 \<le> n \<and> n < 16" | "16 \<le> n \<and> n < 24" | "24 \<le> n" by linarith
  then show "bit ?l n = bit v n"
    using n by cases (auto simp: bit_simps)
qed

lemma rd32_wr32 [simp]: "rd32 (wr32 m a v) a = v"
  by (simp add: rd32_def wr32_def bytes_u32)

section \<open>Regions\<close>

definition in_region :: "u32 \<Rightarrow> nat \<Rightarrow> u32 \<Rightarrow> bool" where
  "in_region d n x \<longleftrightarrow> unat (x - d) < n"

lemma in_region_flat:
  assumes "unat d + n \<le> 4294967296"
  shows "in_region d n x \<longleftrightarrow> unat d \<le> unat x \<and> unat x < unat d + n"
proof (cases "d \<le> x")
  case True
  then have "unat (x - d) = unat x - unat d" and "unat d \<le> unat x"
    by (simp_all add: unat_sub word_le_nat_alt)
  then show ?thesis by (auto simp: in_region_def)
next
  case False
  then have lt: "unat x < unat d" by (simp add: word_le_nat_alt not_le)
  have "unat (x - d) = 4294967296 + unat x - unat d"
    using lt by (simp add: unat_sub_if_size word_size)
  with assms lt show ?thesis by (auto simp: in_region_def)
qed

lemma in_region_4: "in_region d 4 x \<longleftrightarrow> x = d \<or> x = d + 1 \<or> x = d + 2 \<or> x = d + 3"
proof
  assume "in_region d 4 x"
  then have "unat (x - d) = 0 \<or> unat (x - d) = 1 \<or> unat (x - d) = 2 \<or> unat (x - d) = 3"
    by (auto simp: in_region_def)
  then have "x - d = 0 \<or> x - d = 1 \<or> x - d = 2 \<or> x - d = 3"
    by (simp add: word_unat_eq_iff)
  then show "x = d \<or> x = d + 1 \<or> x = d + 2 \<or> x = d + 3"
    by (metis add.commute diff_add_cancel add.left_neutral)
qed (auto simp: in_region_def)

lemma wr32_outside: "\<not> in_region a 4 x \<Longrightarrow> wr32 m a v x = m x"
  by (simp add: in_region_4 wr32_def)

lemma rd32_cong:
  assumes "\<And>x. in_region a 4 x \<Longrightarrow> m x = m' x"
  shows "rd32 m a = rd32 m' a"
  using assms by (simp add: rd32_def in_region_4)

lemma in_region_2: "in_region d 2 x \<longleftrightarrow> x = d \<or> x = d + 1"
proof
  assume "in_region d 2 x"
  then have "unat (x - d) = 0 \<or> unat (x - d) = 1" by (auto simp: in_region_def)
  then have "x - d = 0 \<or> x - d = 1" by (simp add: word_unat_eq_iff)
  then show "x = d \<or> x = d + 1"
    by (metis add.commute diff_add_cancel add.left_neutral)
qed (auto simp: in_region_def)

lemma rd16_cong:
  assumes "\<And>x. in_region a 2 x \<Longrightarrow> m x = m' x"
  shows "rd16 m a = rd16 m' a"
  using assms by (simp add: rd16_def in_region_2)

section \<open>Byte loops\<close>

text \<open>\<open>for (i = 0; i < n; i++) d[i] = s[i];\<close> one byte per step, lowest index first, and
  \<open>for (i = 0; i < n; i++) d[i] = v;\<close>.\<close>

primrec copy_up :: "nat \<Rightarrow> mem \<Rightarrow> u32 \<Rightarrow> u32 \<Rightarrow> mem" where
  "copy_up 0 m d s = m"
| "copy_up (Suc n) m d s = copy_up n (m(d := m s)) (d + 1) (s + 1)"

primrec fill_up :: "nat \<Rightarrow> mem \<Rightarrow> u32 \<Rightarrow> u8 \<Rightarrow> mem" where
  "fill_up 0 m d v = m"
| "fill_up (Suc n) m d v = fill_up n (m(d := v)) (d + 1) v"

lemma unat_minus_one_u32: "(y :: u32) \<noteq> 0 \<Longrightarrow> unat (y - 1) = unat y - 1"
  by (simp add: unat_minus_one)

lemma in_region_step:
  assumes "x \<noteq> d"
  shows "in_region d (Suc n) x \<longleftrightarrow> in_region (d + 1) n x"
proof -
  have nz: "x - d \<noteq> 0" using assms by simp
  have "x - (d + 1) = (x - d) - 1" by simp
  then have "unat (x - (d + 1)) = unat (x - d) - 1"
    by (simp only: unat_minus_one_u32 [OF nz])
  moreover have "0 < unat (x - d)" using nz by (simp add: unat_gt_0)
  ultimately show ?thesis by (auto simp: in_region_def)
qed

lemma not_in_region_next:
  assumes "n < 4294967296"
  shows "\<not> in_region (d + 1) n d"
proof -
  have "d - (d + 1) = (-1 :: u32)" by simp
  then have "unat (d - (d + 1)) = 4294967295" by (simp add: unsigned_minus_1_eq_mask mask_eq_exp_minus_1)
  with assms show ?thesis by (simp add: in_region_def)
qed

lemma fill_up_apply:
  assumes "n \<le> 4294967296"
  shows "fill_up n m d v x = (if in_region d n x then v else m x)"
  using assms
proof (induction n arbitrary: m d)
  case 0
  then show ?case by (simp add: in_region_def)
next
  case (Suc n)
  then have IH: "fill_up n (m(d := v)) (d + 1) v x =
      (if in_region (d + 1) n x then v else (m(d := v)) x)" by simp
  show ?case
  proof (cases "x = d")
    case True
    then show ?thesis using IH Suc.prems by (simp add: in_region_def)
  next
    case False
    then show ?thesis using IH by (simp add: in_region_step)
  qed
qed

lemma copy_up_apply:
  assumes "n \<le> 4294967296"
    and "\<And>y. in_region d n y \<Longrightarrow> \<not> in_region s n y"
  shows "copy_up n m d s x = (if in_region d n x then m (s + (x - d)) else m x)"
  using assms
proof (induction n arbitrary: m d s)
  case 0
  then show ?case by (simp add: in_region_def)
next
  case (Suc n)
  let ?m = "m(d := m s)"
  have disj: "\<not> in_region (s + 1) n y" if "in_region (d + 1) n y" for y
  proof -
    have yd: "y \<noteq> d" using that not_in_region_next [of n d] Suc.prems(1) by auto
    then have "in_region d (Suc n) y" using that by (simp add: in_region_step)
    then have *: "\<not> in_region s (Suc n) y" by (rule Suc.prems(2))
    then have "y \<noteq> s" by (auto simp: in_region_def)
    with * show ?thesis by (simp add: in_region_step)
  qed
  have IH: "copy_up n ?m (d + 1) (s + 1) x =
      (if in_region (d + 1) n x then ?m (s + 1 + (x - (d + 1))) else ?m x)"
    using Suc.prems(1) disj by (intro Suc.IH) auto
  show ?case
  proof (cases "x = d")
    case True
    then show ?thesis
      using IH not_in_region_next [of n d] Suc.prems(1) by (auto simp: in_region_def)
  next
    case False
    have eq: "s + 1 + (x - (d + 1)) = s + (x - d)" by simp
    have "in_region s (Suc n) (s + (x - d))" if "in_region d (Suc n) x"
      using that by (simp add: in_region_def)
    moreover have "in_region d (Suc n) d" by (simp add: in_region_def)
    ultimately have "s + (x - d) \<noteq> d" if "in_region d (Suc n) x"
      using that Suc.prems(2) by metis
    then show ?thesis using IH False by (simp add: in_region_step eq)
  qed
qed

lemma copy_up_outside:
  "n \<le> 4294967296 \<Longrightarrow> \<not> in_region d n x \<Longrightarrow> copy_up n m d s x = m x"
proof (induction n arbitrary: m d s)
  case (Suc n)
  then have "x \<noteq> d" by (auto simp: in_region_def)
  with Suc show ?case by (simp add: in_region_step)
qed simp

lemma rd32_wr32_apart:
  assumes "unat a + 4 \<le> unat b \<or> unat b + 4 \<le> unat a" "unat a + 4 \<le> 4294967296" "unat b + 4 \<le> 4294967296"
  shows "rd32 (wr32 m a v) b = rd32 m b"
proof (rule rd32_cong)
  fix x assume "in_region b 4 x"
  then have "\<not> in_region a 4 x" using assms by (auto simp: in_region_flat)
  then show "wr32 m a v x = m x" by (rule wr32_outside)
qed

section \<open>Blocks of bytes\<close>

text \<open>A list of bytes placed in memory, and the bytes found there.\<close>

definition store_bytes :: "u32 \<Rightarrow> u8 list \<Rightarrow> mem \<Rightarrow> mem" where
  "store_bytes a bs m = (\<lambda>x. if in_region a (length bs) x then bs ! unat (x - a) else m x)"

definition load_bytes :: "u32 \<Rightarrow> nat \<Rightarrow> mem \<Rightarrow> u8 list" where
  "load_bytes a n m = map (\<lambda>i. m (a + of_nat i)) [0..<n]"

lemma load_store_bytes:
  assumes "length bs \<le> 4294967296"
  shows "load_bytes a (length bs) (store_bytes a bs m) = bs"
  using assms by (auto intro!: nth_equalityI simp: load_bytes_def store_bytes_def in_region_def unat_of_nat_u32)

lemma load_bytes_cong: "(\<And>i. i < n \<Longrightarrow> m (a + of_nat i) = m' (a + of_nat i)) \<Longrightarrow> load_bytes a n m = load_bytes a n m'"
  by (simp add: load_bytes_def)

lemma load_bytes_outside:
  assumes "\<And>x. in_region a n x \<Longrightarrow> m x = m' x" "n \<le> 4294967296"
  shows "load_bytes a n m = load_bytes a n m'"
  using assms by (intro load_bytes_cong) (simp add: in_region_def unat_of_nat_u32)

definition wr16 :: "mem \<Rightarrow> u32 \<Rightarrow> u16 \<Rightarrow> mem" where
  "wr16 m a v = m(a := ucast v, a + 1 := ucast (drop_bit 8 v))"

lemma bytes_u16: "(ucast (ucast (v :: u16) :: u8) :: u16) OR push_bit 8 (ucast (ucast (drop_bit 8 v) :: u8)) = v" (is "?l = v")
proof (rule bit_word_eqI)
  fix n assume n: "n < LENGTH(16)"
  consider "n < 8" | "8 \<le> n" by linarith
  then show "bit ?l n = bit v n" using n by cases (auto simp: bit_simps)
qed

lemma rd16_wr16 [simp]: "rd16 (wr16 m a v) a = v"
  by (simp add: rd16_def wr16_def bytes_u16)

end
