(* ===== verification/Mm_Blocks.thy ===== *)
theory Mm_Blocks
  imports Memory "HOL-Library.Monad_Syntax"
begin

text \<open>
  The block list of the kernel allocators: \<open>mm/mm_private.h\<close> and \<open>mm/blocks.c\<close>.
  Block headers live in the same bytes as the payloads (12 bytes on i386: \<open>size\<close> at
  offset 0, \<open>used\<close> at 4, \<open>next\<close> at 8). A heap is described by the list of its blocks'
  payload sizes and used flags (\<open>seg\<close>), and every operation of the allocators is a
  replacement of a few consecutive blocks of that list (\<open>seg_replace\<close>).
\<close>

section \<open>The header and its fields\<close>

record block_t =
  blk_size :: u32
  blk_used :: u8
  blk_next :: u32

definition sizeof_block_t :: u32 where
  "sizeof_block_t = 12"

definition load_block :: "mem \<Rightarrow> u32 \<Rightarrow> block_t" where
  "load_block m b = \<lparr>blk_size = rd32 m b, blk_used = m (b + 4), blk_next = rd32 m (b + 8)\<rparr>"

definition set_size :: "mem \<Rightarrow> u32 \<Rightarrow> u32 \<Rightarrow> mem" where
  "set_size m b v = wr32 m b v"

definition set_used :: "mem \<Rightarrow> u32 \<Rightarrow> u8 \<Rightarrow> mem" where
  "set_used m b v = m(b + 4 := v)"

definition set_next :: "mem \<Rightarrow> u32 \<Rightarrow> u32 \<Rightarrow> mem" where
  "set_next m b v = wr32 m (b + 8) v"

text \<open>The statically allocated array of an allocator, its list head and the memory.\<close>

record heap =
  g_heap :: u32
  g_first_block :: u32
  mem :: mem

section \<open>Operations of blocks.c\<close>

definition mm_align_size :: "u32 \<Rightarrow> u32" where
  "mm_align_size sz = (if sz = 0 then 8 else (sz + 7) AND NOT 7)"

partial_function (option) find_previous_walk :: "mem \<Rightarrow> u32 \<Rightarrow> u32 \<Rightarrow> u32 option" where
  "find_previous_walk m block current =
     (if current \<noteq> 0 \<and> blk_next (load_block m current) \<noteq> 0 \<and> blk_next (load_block m current) \<noteq> block
      then find_previous_walk m block (blk_next (load_block m current))
      else Some current)"

definition mm_find_previous_block :: "mem \<Rightarrow> u32 \<Rightarrow> u32 \<Rightarrow> u32 option" where
  "mm_find_previous_block m first_block block = do {
     current \<leftarrow> find_previous_walk m block first_block;
     Some (if current \<noteq> 0 \<and> blk_next (load_block m current) = block then current else 0)
   }"

definition mm_block_payload :: "u32 \<Rightarrow> u32" where
  "mm_block_payload block = block + sizeof_block_t"

section \<open>Alignment\<close>

lemma and_not_mask_u32: "(x :: u32) AND NOT (mask n) = push_bit n (drop_bit n x)"
  by (rule bit_word_eqI) (auto simp: bit_simps)

lemma unat_and_minus_8: "unat ((x :: u32) AND - 8) = unat x div 8 * 8"
proof -
  have "(- 8 :: u32) = NOT (mask 3)" by (simp add: mask_eq_exp_minus_1)
  then have "x AND - 8 = push_bit 3 (drop_bit 3 x)" by (simp only: and_not_mask_u32)
  moreover have "unat x div 8 * 8 < 4294967296" using unat_u32_less [of x] by linarith
  ultimately show ?thesis
    by (simp add: push_bit_eq_mult drop_bit_eq_div unat_word_ariths unat_div)
qed

lemma mm_align_size_unat:
  assumes "sz \<noteq> 0" "unat sz \<le> 4294967288"
  shows "unat (mm_align_size sz) = (unat sz + 7) div 8 * 8"
  using assms by (simp add: mm_align_size_def unat_and_minus_8 unat_word_ariths)

lemma mm_align_size_ge:
  assumes "sz \<noteq> 0" "unat sz \<le> 4294967288"
  shows "unat sz \<le> unat (mm_align_size sz)"
  unfolding mm_align_size_unat [OF assms] by linarith

section \<open>Field reads after field writes\<close>

lemma load_block_set_size [simp]:
  "load_block (set_size m b v) b = (load_block m b)\<lparr>blk_size := v\<rparr>"
  by (simp add: load_block_def set_size_def, simp add: wr32_def rd32_def)

lemma load_block_set_used [simp]:
  "load_block (set_used m b v) b = (load_block m b)\<lparr>blk_used := v\<rparr>"
  by (simp add: load_block_def set_used_def rd32_def)

lemma load_block_set_next [simp]:
  "load_block (set_next m b v) b = (load_block m b)\<lparr>blk_next := v\<rparr>"
  by (simp add: load_block_def set_next_def, simp add: wr32_def rd32_def)

lemma load_block_cong:
  assumes "\<And>x. in_region b 12 x \<Longrightarrow> m x = m' x"
  shows "load_block m b = load_block m' b"
proof -
  have "in_region b 12 (b + of_nat i)" if "i < 12" for i
    using that by (simp add: in_region_def unat_of_nat_u32)
  then have eq: "m (b + of_nat i) = m' (b + of_nat i)" if "i < 12" for i
    using that assms by blast
  show ?thesis
    using eq [of 0] eq [of 1] eq [of 2] eq [of 3] eq [of 4] eq [of 8] eq [of 9] eq [of 10] eq [of 11]
    by (simp add: load_block_def rd32_def add.assoc)
qed

lemma set_fields_outside:
  assumes "\<not> in_region b 12 x"
  shows "set_size m b v x = m x" and "set_used m b w x = m x" and "set_next m b v x = m x"
proof -
  have ne: "x \<noteq> b + of_nat i" if "i < 12" for i
    using assms that by (auto simp: in_region_def unat_of_nat_u32)
  show "set_size m b v x = m x" "set_used m b w x = m x" "set_next m b v x = m x"
    using ne [of 0] ne [of 1] ne [of 2] ne [of 3] ne [of 4] ne [of 8] ne [of 9] ne [of 10] ne [of 11]
    by (simp_all add: set_size_def set_used_def set_next_def wr32_def add.assoc)
qed

text \<open>The same facts for headers at natural-number addresses that do not overlap.\<close>

lemma set_fields_flat:
  assumes "c + 12 \<le> 4294967296" and "unat x < c \<or> c + 12 \<le> unat x"
  shows "set_size m (of_nat c) v x = m x" and "set_used m (of_nat c) w x = m x"
    and "set_next m (of_nat c) v x = m x"
proof -
  have "unat (of_nat c :: u32) = c" using assms(1) by (simp add: unat_of_nat_u32)
  then have "\<not> in_region (of_nat c) 12 x" using assms by (auto simp: in_region_flat)
  then show "set_size m (of_nat c) v x = m x" "set_used m (of_nat c) w x = m x"
    "set_next m (of_nat c) v x = m x" by (simp_all add: set_fields_outside)
qed

lemma load_block_flat:
  assumes "d + 12 \<le> 4294967296" and "\<And>x. d \<le> unat x \<Longrightarrow> unat x < d + 12 \<Longrightarrow> m x = m' x"
  shows "load_block m (of_nat d) = load_block m' (of_nat d)"
proof (rule load_block_cong)
  fix x :: u32
  assume "in_region (of_nat d) 12 x"
  moreover have "unat (of_nat d :: u32) = d" using assms(1) by (simp add: unat_of_nat_u32)
  ultimately show "m x = m' x" using assms by (simp add: in_region_flat)
qed

lemma load_block_other:
  assumes "c + 12 \<le> 4294967296" and "d + 12 \<le> 4294967296" and "c + 12 \<le> d \<or> d + 12 \<le> c"
  shows "load_block (set_size m (of_nat c) v) (of_nat d) = load_block m (of_nat d)"
    and "load_block (set_used m (of_nat c) w) (of_nat d) = load_block m (of_nat d)"
    and "load_block (set_next m (of_nat c) v) (of_nat d) = load_block m (of_nat d)"
  using assms by (auto intro!: load_block_flat set_fields_flat)

section \<open>Segments of the block list\<close>

type_synonym blocks = "(nat \<times> bool) list"

fun span :: "blocks \<Rightarrow> nat" where
  "span [] = 0"
| "span ((n, u) # bs) = 12 + n + span bs"

fun seg :: "mem \<Rightarrow> nat \<Rightarrow> blocks \<Rightarrow> u32 \<Rightarrow> bool" where
  "seg m a [] t = True"
| "seg m a ((n, u) # bs) t =
     (unat (blk_size (load_block m (of_nat a))) = n \<and>
      (blk_used (load_block m (of_nat a)) \<noteq> 0) = u \<and>
      blk_next (load_block m (of_nat a)) = (if bs = [] then t else of_nat (a + 12 + n)) \<and>
      seg m (a + 12 + n) bs t)"

lemma span_append [simp]: "span (xs @ ys) = span xs + span ys"
  by (induction xs rule: span.induct) auto

lemma span_pos: "bs \<noteq> [] \<Longrightarrow> 12 \<le> span bs"
  by (cases bs rule: span.cases) auto

lemma seg_append:
  "ys \<noteq> [] \<Longrightarrow>
   seg m a (xs @ ys) t \<longleftrightarrow> seg m a xs (of_nat (a + span xs)) \<and> seg m (a + span xs) ys t"
proof (induction m a xs t rule: seg.induct)
  case (2 m a n u bs t)
  then show ?case by (cases "bs = []") (auto simp: add.assoc)
qed simp

lemma seg_cong:
  assumes "a + span bs \<le> 4294967296"
    and "\<And>x. a \<le> unat x \<Longrightarrow> unat x < a + span bs \<Longrightarrow> m x = m' x"
  shows "seg m a bs t = seg m' a bs t"
  using assms
proof (induction m a bs t rule: seg.induct)
  case (2 m a n u bs t)
  have "load_block m (of_nat a) = load_block m' (of_nat a)"
  proof (rule load_block_cong)
    fix x :: u32
    assume "in_region (of_nat a) 12 x"
    moreover have "unat (of_nat a :: u32) = a" using 2(2) by (simp add: unat_of_nat_u32)
    ultimately have "a \<le> unat x \<and> unat x < a + 12"
      using 2(2) by (simp add: in_region_flat)
    then show "m x = m' x" using 2(3) by auto
  qed
  moreover have "seg m (a + 12 + n) bs t = seg m' (a + 12 + n) bs t"
    using 2(2,3) by (intro 2(1)) auto
  ultimately show ?case by simp
qed simp

lemma seg_replace:
  assumes s: "seg m a (xs @ old @ ys) t"
    and "old \<noteq> []" "new \<noteq> []" and sp: "span new = span old"
    and bound: "a + span (xs @ old @ ys) \<le> 4294967296"
    and out: "\<And>x. unat x < a + span xs \<or> a + span xs + span old \<le> unat x \<Longrightarrow> m' x = m x"
    and new: "seg m' (a + span xs) new (if ys = [] then t else of_nat (a + span xs + span old))"
  shows "seg m' a (xs @ new @ ys) t"
proof -
  have 1: "seg m a xs (of_nat (a + span xs))" and rest: "seg m (a + span xs) (old @ ys) t"
    using s \<open>old \<noteq> []\<close> by (simp_all add: seg_append)
  have pre: "seg m' a xs (of_nat (a + span xs))"
    using 1 bound out by (subst seg_cong [where m' = m]) auto
  have 2: "seg m' (a + span xs) (new @ ys) t"
  proof (cases "ys = []")
    case True
    with new show ?thesis by simp
  next
    case False
    with rest have "seg m (a + span xs + span old) ys t" by (simp add: seg_append)
    then have "seg m' (a + span xs + span old) ys t"
      using bound out by (subst seg_cong [where m' = m]) auto
    with False new sp show ?thesis by (simp add: seg_append)
  qed
  from pre 2 \<open>new \<noteq> []\<close> show ?thesis by (simp add: seg_append)
qed

section \<open>Finding the previous block\<close>

lemma walk_finds_previous:
  assumes "seg m a (zs @ p # b # ys) t" and "0 < a" and "a + span (zs @ p # b # ys) \<le> 4294967296"
  shows "find_previous_walk m (of_nat (a + span (zs @ [p]))) (of_nat a) = Some (of_nat (a + span zs))"
  using assms
proof (induction zs arbitrary: a)
  case Nil
  obtain n u where p: "p = (n, u)" by fastforce
  then show ?case using Nil
    by (subst find_previous_walk.simps) (simp add: add.assoc)
next
  case (Cons z zs)
  obtain n u where z: "z = (n, u)" by fastforce
  obtain k w where p: "p = (k, w)" by fastforce
  obtain j v where b: "b = (j, v)" by fastforce
  let ?a = "a + 12 + n" and ?b = "a + span ((z # zs) @ [p])"
  have nz: "(of_nat a :: u32) \<noteq> 0" "(of_nat ?a :: u32) \<noteq> 0"
    using Cons.prems(2,3) by (simp_all add: of_nat_u32_eq_0 z p b del: of_nat_add of_nat_Suc)
  have "?a < 4294967296" "?b < 4294967296" "?a \<noteq> ?b"
    using Cons.prems(3) by (simp_all add: z p b)
  then have ne: "(of_nat ?a :: u32) \<noteq> of_nat ?b" using of_nat_u32_inj by blast
  have nxt: "blk_next (load_block m (of_nat a)) = of_nat ?a"
    using Cons.prems(1) by (simp add: z)
  have "find_previous_walk m (of_nat ?b) (of_nat a) = find_previous_walk m (of_nat ?b) (of_nat ?a)"
    using nz ne nxt by (subst find_previous_walk.simps) simp
  also have "of_nat ?b = (of_nat (?a + span (zs @ [p])) :: u32)"
    by (simp add: z)
  also have "find_previous_walk m (of_nat (?a + span (zs @ [p]))) (of_nat ?a) = Some (of_nat (?a + span zs))"
    using Cons.prems by (intro Cons.IH) (simp_all add: z)
  finally show ?case by (simp add: z add.assoc)
qed

lemma walk_of_first:
  assumes "seg m a bs 0" and "bs \<noteq> []" and "0 < f" "f \<le> a" and "a + span bs \<le> 4294967296"
  shows "\<exists>c. find_previous_walk m (of_nat f) (of_nat a) = Some c \<and> blk_next (load_block m c) = 0"
  using assms
proof (induction bs arbitrary: a)
  case (Cons z zs)
  obtain n u where z: "z = (n, u)" by fastforce
  show ?case
  proof (cases "zs = []")
    case True
    then show ?thesis using Cons.prems(1)
      by (intro exI [of _ "of_nat a"]) (subst find_previous_walk.simps, simp add: z)
  next
    case False
    let ?a = "a + 12 + n"
    have lt: "?a < 4294967296" using Cons.prems(5) span_pos [OF False] by (simp add: z)
    then have "(of_nat a :: u32) \<noteq> 0" "(of_nat ?a :: u32) \<noteq> 0" "(of_nat ?a :: u32) \<noteq> of_nat f"
      using Cons.prems(3,4) of_nat_u32_inj [of ?a f]
      by (auto simp: of_nat_u32_eq_0 simp del: of_nat_add)
    moreover have "blk_next (load_block m (of_nat a)) = of_nat ?a"
      using Cons.prems(1) False by (simp add: z)
    ultimately have "find_previous_walk m (of_nat f) (of_nat a) = find_previous_walk m (of_nat f) (of_nat ?a)"
      by (subst find_previous_walk.simps) simp
    moreover have "\<exists>c. find_previous_walk m (of_nat f) (of_nat ?a) = Some c \<and> blk_next (load_block m c) = 0"
      using Cons.prems False by (intro Cons.IH) (simp_all add: z)
    ultimately show ?thesis by simp
  qed
qed simp

lemma find_previous_block_seg:
  assumes s: "seg m a (xs @ (n, u) # ys) 0" and a: "0 < a"
    and bound: "a + span (xs @ (n, u) # ys) \<le> 4294967296"
  shows "mm_find_previous_block m (of_nat a) (of_nat (a + span xs)) =
     Some (if xs = [] then 0 else of_nat (a + span (butlast xs)))"
proof (cases "xs = []")
  case True
  then obtain c where "find_previous_walk m (of_nat a) (of_nat a) = Some c" "blk_next (load_block m c) = 0"
    using walk_of_first [of m a "xs @ (n, u) # ys" a] s a bound by auto
  moreover have "(of_nat a :: u32) \<noteq> 0" using a bound True by (simp add: of_nat_u32_eq_0)
  ultimately show ?thesis using True by (simp add: mm_find_previous_block_def)
next
  case False
  then obtain zs p where xs: "xs = zs @ [p]" by (metis append_butlast_last_id)
  obtain k w where p: "p = (k, w)" by fastforce
  have "find_previous_walk m (of_nat (a + span xs)) (of_nat a) = Some (of_nat (a + span zs))"
    using walk_finds_previous [of m a zs p "(n, u)" ys 0] s a bound xs by simp
  moreover have "(of_nat (a + span zs) :: u32) \<noteq> 0"
    using a bound xs by (simp add: of_nat_u32_eq_0 p del: of_nat_add)
  moreover have "blk_next (load_block m (of_nat (a + span zs))) = of_nat (a + span xs)"
    using s xs p by (simp add: seg_append add.assoc)
  ultimately show ?thesis using xs by (simp add: mm_find_previous_block_def del: of_nat_add)
qed

end
