(* ===== verification/Mm_Spec.thy ===== *)
theory Mm_Spec
  imports Mm_Blocks
begin

text \<open>
  What the kernel allocators promise, on block lists: first-fit allocation with splitting,
  freeing with coalescing, the payload regions in use (\<open>live\<close>), and the relation
  \<open>heap_rel\<close> between a heap in memory and its block list. The locale \<open>allocator\<close> is the
  interface the rest of the kernel relies on.
\<close>

section \<open>Allocation and freeing on block lists\<close>

fun first_fit :: "nat \<Rightarrow> blocks \<Rightarrow> (blocks \<times> nat \<times> blocks) option" where
  "first_fit r [] = None"
| "first_fit r ((n, u) # bs) =
     (if \<not> u \<and> r \<le> n then Some ([], n, bs)
      else map_option (\<lambda>(xs, k, ys). ((n, u) # xs, k, ys)) (first_fit r bs))"

definition carve :: "nat \<Rightarrow> nat \<Rightarrow> blocks" where
  "carve r n = (if 28 \<le> n - r then [(r, True), (n - r - 12, False)] else [(n, True)])"

definition blocks_alloc :: "nat \<Rightarrow> blocks \<Rightarrow> blocks \<times> nat option" where
  "blocks_alloc r bs = (case first_fit r bs of
     None \<Rightarrow> (bs, None)
   | Some (xs, n, ys) \<Rightarrow> (xs @ carve r n @ ys, Some (span xs + 12)))"

definition absorb_next :: "nat \<Rightarrow> blocks \<Rightarrow> blocks" where
  "absorb_next n ys = (case ys of
     (k, False) # zs \<Rightarrow> (n + 12 + k, False) # zs
   | _ \<Rightarrow> (n, False) # ys)"

definition blocks_free :: "blocks \<Rightarrow> nat \<Rightarrow> blocks \<Rightarrow> blocks" where
  "blocks_free xs n ys =
     (if xs \<noteq> [] \<and> \<not> snd (last xs)
      then butlast xs @ absorb_next (fst (last xs) + 12 + n) ys
      else xs @ absorb_next n ys)"

abbreviation coalesced :: "blocks \<Rightarrow> bool" where
  "coalesced \<equiv> successively (\<lambda>x y. snd x \<or> snd y)"

fun live :: "nat \<Rightarrow> blocks \<Rightarrow> (nat \<times> nat) set" where
  "live a [] = {}"
| "live a ((n, u) # bs) = (if u then {(a + 12, n)} else {}) \<union> live (a + 12 + n) bs"

lemma first_fit_Some:
  "first_fit r bs = Some (xs, n, ys) \<Longrightarrow>
   bs = xs @ (n, False) # ys \<and> r \<le> n \<and> (\<forall>(k, u) \<in> set xs. u \<or> k < r)"
  by (induction r bs arbitrary: xs rule: first_fit.induct) (auto split: if_splits)

lemma first_fit_None:
  "first_fit r bs = None \<longleftrightarrow> (\<forall>(k, u) \<in> set bs. u \<or> k < r)"
  by (induction r bs rule: first_fit.induct) auto

lemma span_carve: "r \<le> n \<Longrightarrow> span (carve r n) = 12 + n"
  by (simp add: carve_def)

lemma carve_not_Nil [simp]: "carve r n \<noteq> []"
  by (simp add: carve_def)

lemma span_absorb_next [simp]: "span (absorb_next n ys) = 12 + n + span ys"
  by (auto simp: absorb_next_def split: list.splits bool.splits)

lemma span_blocks_alloc: "blocks_alloc r bs = (bs', p) \<Longrightarrow> span bs' = span bs"
  by (auto simp: blocks_alloc_def span_carve split: option.splits dest!: first_fit_Some)

lemma span_butlast_last:
  "xs \<noteq> [] \<Longrightarrow> span (butlast xs) + (12 + fst (last xs)) = span xs"
  by (induction xs rule: rev_induct) auto

lemma span_blocks_free: "span (blocks_free xs n ys) = span (xs @ (n, True) # ys)"
  using span_butlast_last [of xs] by (auto simp: blocks_free_def)

section \<open>Live regions\<close>

lemma live_append [simp]: "live a (xs @ ys) = live a xs \<union> live (a + span xs) ys"
  by (induction a xs rule: live.induct) (auto simp: add.assoc)

lemma live_bounds: "(p, n) \<in> live a bs \<Longrightarrow> a + 12 \<le> p \<and> p + n \<le> a + span bs"
  by (induction a bs rule: live.induct) (fastforce split: if_splits)+

lemma live_split:
  "(p, n) \<in> live a bs \<Longrightarrow> \<exists>xs ys. bs = xs @ (n, True) # ys \<and> p = a + span xs + 12"
proof (induction a bs rule: live.induct)
  case (2 a n' u bs)
  show ?case
  proof (cases "(p, n) \<in> live (a + 12 + n') bs")
    case True
    then obtain xs ys where "bs = xs @ (n, True) # ys" "p = a + 12 + n' + span xs + 12"
      using 2 by blast
    then show ?thesis by (intro exI [of _ "(n', u) # xs"] exI [of _ ys]) auto
  next
    case False
    with 2 show ?thesis
      by (intro exI [of _ "[]"] exI [of _ bs]) (auto split: if_splits)
  qed
qed simp

lemma live_absorb_next [simp]: "live a (absorb_next n ys) = live (a + 12 + n) ys"
  by (auto simp: absorb_next_def add.assoc split: list.splits bool.splits)

lemma live_disjoint:
  "(p, n) \<in> live a bs \<Longrightarrow> (q, k) \<in> live a bs \<Longrightarrow>
   (p, n) = (q, k) \<or> p + n + 12 \<le> q \<or> q + k + 12 \<le> p"
proof (induction a bs rule: live.induct)
  case (2 a m u bs)
  from 2(1) 2(2,3) show ?case
    using live_bounds [of p n "a + 12 + m" bs] live_bounds [of q k "a + 12 + m" bs]
    by (auto split: if_splits)
qed simp

lemma live_carve: "live a (carve r n) = {(a + 12, if 28 \<le> n - r then r else n)}"
  by (auto simp: carve_def)

lemma live_blocks_alloc:
  assumes "blocks_alloc r bs = (bs', Some p)"
  shows "\<exists>n \<ge> r. live a bs' = insert (a + p, n) (live a bs) \<and>
           (\<forall>(q, k) \<in> live a bs. q + k + 12 \<le> a + p \<or> a + p + n + 12 \<le> q) \<and>
           12 \<le> p \<and> p + n \<le> span bs"
proof -
  from assms obtain xs n ys where ff: "first_fit r bs = Some (xs, n, ys)"
    and bs': "bs' = xs @ carve r n @ ys" and p: "p = span xs + 12"
    by (auto simp: blocks_alloc_def split: option.splits)
  from first_fit_Some [OF ff] have bs: "bs = xs @ (n, False) # ys" and rn: "r \<le> n" by auto
  let ?n = "if 28 \<le> n - r then r else n"
  have "live a bs' = insert (a + p, ?n) (live a bs)"
    using rn by (auto simp: bs' bs p live_carve span_carve add.assoc)
  moreover have "\<forall>(q, k) \<in> live a bs. q + k + 12 \<le> a + p \<or> a + p + ?n + 12 \<le> q"
    using live_bounds [of _ _ a xs] live_bounds [of _ _ "a + span xs + 12 + n" ys] rn
    by (fastforce simp: bs p add.assoc split: if_splits)
  moreover have "p + ?n \<le> span bs" using rn by (simp add: bs p)
  ultimately show ?thesis using rn p by (intro exI [of _ ?n] conjI) simp_all
qed

lemma live_blocks_free:
  "live a (blocks_free xs n ys) = live a (xs @ (n, True) # ys) - {(a + span xs + 12, n)}"
proof -
  have new: "(a + span xs + 12, n) \<notin> live a xs" "(a + span xs + 12, n) \<notin> live (a + span xs + 12 + n) ys"
    using live_bounds by fastforce+
  show ?thesis
  proof (cases "xs \<noteq> [] \<and> \<not> snd (last xs)")
    case True
    then obtain zs k where xs: "xs = zs @ [(k, False)]"
      by (metis append_butlast_last_id prod.collapse)
    with new show ?thesis by (auto simp: blocks_free_def add.assoc)
  next
    case False
    then show ?thesis using new by (auto simp: blocks_free_def add.assoc)
  qed
qed

section \<open>No two adjacent free blocks\<close>

lemma coalesced_carve:
  assumes "coalesced (xs @ (n, False) # ys)"
  shows "coalesced (xs @ carve r n @ ys)"
  using assms by (auto simp: carve_def successively_append_iff successively_Cons)

lemma coalesced_blocks_alloc:
  "coalesced bs \<Longrightarrow> blocks_alloc r bs = (bs', p) \<Longrightarrow> coalesced bs'"
  by (auto simp: blocks_alloc_def coalesced_carve split: option.splits dest!: first_fit_Some)

lemma coalesced_absorb_next:
  assumes "coalesced (xs @ (n, True) # ys)" and "xs = [] \<or> snd (last xs)"
  shows "coalesced (xs @ absorb_next k ys)"
  using assms
  by (auto simp: absorb_next_def successively_append_iff successively_Cons
      split: list.splits bool.splits)

lemma coalesced_blocks_free:
  assumes "coalesced (xs @ (n, True) # ys)"
  shows "coalesced (blocks_free xs n ys)"
proof (cases "xs \<noteq> [] \<and> \<not> snd (last xs)")
  case True
  then obtain zs k where xs: "xs = zs @ [(k, False)]"
    by (metis append_butlast_last_id prod.collapse)
  with assms have "coalesced (zs @ (k, True) # ys)" "zs = [] \<or> snd (last zs)"
    by (auto simp: successively_append_iff successively_Cons)
  then show ?thesis using coalesced_absorb_next True xs by (simp add: blocks_free_def)
next
  case False
  then show ?thesis using assms coalesced_absorb_next by (auto simp: blocks_free_def)
qed

text \<open>On a coalesced list, freeing what was just allocated gives the list back.\<close>

lemma blocks_free_alloc:
  assumes "coalesced (xs @ (n, False) # ys)" and "r \<le> n"
  shows "\<exists>k zs. carve r n @ ys = (k, True) # zs \<and> blocks_free xs k zs = xs @ (n, False) # ys"
  using assms
  by (auto simp: carve_def blocks_free_def absorb_next_def successively_append_iff successively_Cons
      split: list.splits bool.splits)

section \<open>A heap in memory and its block list\<close>

definition heap_rel :: "nat \<Rightarrow> heap \<Rightarrow> blocks \<Rightarrow> bool" where
  "heap_rel cap s bs \<longleftrightarrow>
     g_heap s \<noteq> 0 \<and> g_first_block s = g_heap s \<and> bs \<noteq> [] \<and> span bs = cap \<and>
     unat (g_heap s) + cap < 4294967296 \<and> seg (mem s) (unat (g_heap s)) bs 0"

definition heap_ok :: "nat \<Rightarrow> heap \<Rightarrow> bool" where
  "heap_ok cap s \<longleftrightarrow> (\<exists>bs. heap_rel cap s bs \<and> coalesced bs)"

definition heap_regions :: "nat \<Rightarrow> heap \<Rightarrow> (nat \<times> nat) set" where
  "heap_regions cap s = {r. \<exists>bs. heap_rel cap s bs \<and> r \<in> live (unat (g_heap s)) bs}"

lemma seg_unique:
  assumes "seg m a xs 0" "seg m a ys 0" "xs \<noteq> []" "ys \<noteq> []" "0 < a"
    "a + span xs < 4294967296" "a + span ys < 4294967296"
  shows "xs = ys"
  using assms
proof (induction xs arbitrary: a ys)
  case (Cons x xs)
  obtain n u where x: "x = (n, u)" by fastforce
  obtain y zs where ys: "ys = y # zs" using Cons.prems(4) by (cases ys) auto
  have y: "y = (n, u)" using Cons.prems(1,2) by (cases y) (auto simp: x ys)
  let ?a = "a + 12 + n"
  have "(of_nat ?a :: u32) \<noteq> 0" using Cons.prems(6) by (subst of_nat_u32_eq_0) (auto simp: x)
  then have "xs = [] \<longleftrightarrow> zs = []"
    using Cons.prems(1,2) by (auto simp: x ys y split: if_splits)
  moreover have "xs \<noteq> [] \<Longrightarrow> zs \<noteq> [] \<Longrightarrow> xs = zs"
    using Cons.prems by (intro Cons.IH [of ?a]) (auto simp: x ys y)
  ultimately show ?case by (auto simp: ys x y)
qed simp

lemma heap_rel_unique: "heap_rel cap s bs \<Longrightarrow> heap_rel cap s bs' \<Longrightarrow> bs = bs'"
  by (auto simp: heap_rel_def unat_gt_0 intro: seg_unique)

lemma heap_regions_eq: "heap_rel cap s bs \<Longrightarrow> heap_regions cap s = live (unat (g_heap s)) bs"
  by (auto simp: heap_regions_def dest: heap_rel_unique)

text \<open>\<open>mem_init\<close> makes one free block of the capacity it chooses.\<close>

definition init_capacity :: "nat \<Rightarrow> u32 \<Rightarrow> nat" where
  "init_capacity c total_ram =
     (if total_ram = 0 \<or> c \<le> unat total_ram then c else max 12 (unat total_ram))"

lemma init_capacity_unat:
  assumes "12 \<le> unat c"
  shows "unat (let capacity = (if t \<noteq> 0 \<and> t < c then t else c)
    in if capacity < sizeof_block_t then sizeof_block_t else capacity) = init_capacity (unat c) t"
  using assms by (auto simp: Let_def init_capacity_def sizeof_block_t_def word_less_nat_alt)

lemma heap_rel_init:
  assumes "first \<noteq> 0" "unat first + unat c < 4294967296" "12 \<le> unat c"
  shows "heap_rel (unat c) \<lparr>g_heap = first, g_first_block = first,
      mem = set_next (set_used (set_size m first (c - sizeof_block_t)) first 0) first 0\<rparr>
    [(unat c - 12, False)]"
proof -
  have "unat (c - sizeof_block_t) = unat c - 12"
    using assms(3) by (subst unat_sub_nowrap) (auto simp: sizeof_block_t_def word_le_nat_alt)
  then show ?thesis using assms by (simp add: heap_rel_def)
qed

text \<open>Writing outside the array changes nothing of the heap.\<close>

lemma heap_rel_outside:
  assumes "heap_rel cap s bs"
    and "\<And>x. unat (g_heap s) \<le> unat x \<Longrightarrow> unat x < unat (g_heap s) + cap \<Longrightarrow> m' x = mem s x"
  shows "heap_rel cap (s\<lparr>mem := m'\<rparr>) bs"
  using assms seg_cong [of "unat (g_heap s)" bs m' "mem s" 0] by (simp add: heap_rel_def)

text \<open>Writing inside a payload in use changes no header.\<close>

lemma heap_rel_payload_write:
  assumes rel: "heap_rel cap s bs" and live: "(p, n) \<in> live (unat (g_heap s)) bs"
    and out: "\<And>x. unat x < p \<or> p + n \<le> unat x \<Longrightarrow> m' x = mem s x"
  shows "heap_rel cap (s\<lparr>mem := m'\<rparr>) bs"
proof -
  obtain xs ys where bs: "bs = xs @ (n, True) # ys" and p: "p = unat (g_heap s) + span xs + 12"
    using live_split [OF live] by blast
  let ?b = "unat (g_heap s) + span xs"
  have s: "seg (mem s) (unat (g_heap s)) (xs @ [(n, True)] @ ys) 0"
    and bd: "unat (g_heap s) + span (xs @ [(n, True)] @ ys) < 4294967296"
    using rel by (auto simp: heap_rel_def bs)
  have hdr: "load_block m' (of_nat ?b) = load_block (mem s) (of_nat ?b)"
    using bd out by (intro load_block_flat) (auto simp: p)
  have "seg m' (unat (g_heap s)) (xs @ [(n, True)] @ ys) 0"
  proof (rule seg_replace [OF s])
    show "seg m' ?b [(n, True)] (if ys = [] then 0 else of_nat (?b + span [(n, True)]))"
      using s hdr by (cases "ys = []") (auto simp: seg_append add.assoc)
  qed (use bd out in \<open>auto simp: p\<close>)
  then show ?thesis using rel by (simp add: heap_rel_def bs)
qed

section \<open>The interface of a kernel allocator\<close>

text \<open>\<open>regions s\<close> are the payloads handed out and not yet released, as start address and
  length. An allocation that succeeds adds one region, at least as long as the aligned
  request and apart from the others; a release removes one. Neither writes into a region
  that is in use, and the client that owns a region may write all of it.\<close>

locale allocator =
  fixes ok :: "heap \<Rightarrow> bool"
    and regions :: "heap \<Rightarrow> (nat \<times> nat) set"
    and alloc :: "heap \<Rightarrow> u32 \<Rightarrow> (heap \<times> u32) option"
    and release :: "heap \<Rightarrow> u32 \<Rightarrow> heap option"
  assumes alloc_returns: "ok s \<Longrightarrow> \<exists>s' p. alloc s sz = Some (s', p) \<and> ok s'"
    and alloc_null: "ok s \<Longrightarrow> alloc s sz = Some (s', 0) \<Longrightarrow> s' = s"
    and alloc_region: "ok s \<Longrightarrow> alloc s sz = Some (s', p) \<Longrightarrow> p \<noteq> 0 \<Longrightarrow>
      \<exists>n \<ge> unat (mm_align_size sz). regions s' = insert (unat p, n) (regions s) \<and>
        (\<forall>(q, k) \<in> regions s. q + k + 12 \<le> unat p \<or> unat p + n + 12 \<le> q)"
    and alloc_bytes: "ok s \<Longrightarrow> alloc s sz = Some (s', p) \<Longrightarrow> (q, k) \<in> regions s \<Longrightarrow>
      q \<le> unat x \<Longrightarrow> unat x < q + k \<Longrightarrow> mem s' x = mem s x"
    and release_returns: "ok s \<Longrightarrow> (unat p, n) \<in> regions s \<Longrightarrow>
      \<exists>s'. release s p = Some s' \<and> ok s' \<and> regions s' = regions s - {(unat p, n)}"
    and release_bytes: "ok s \<Longrightarrow> (unat p, n) \<in> regions s \<Longrightarrow> release s p = Some s' \<Longrightarrow>
      (q, k) \<in> regions s \<Longrightarrow> q \<le> unat x \<Longrightarrow> unat x < q + k \<Longrightarrow> mem s' x = mem s x"
    and write_region: "ok s \<Longrightarrow> (q, k) \<in> regions s \<Longrightarrow>
      (\<And>x. unat x < q \<or> q + k \<le> unat x \<Longrightarrow> m' x = mem s x) \<Longrightarrow>
      ok (s\<lparr>mem := m'\<rparr>) \<and> regions (s\<lparr>mem := m'\<rparr>) = regions s"
    and regions_bound: "ok s \<Longrightarrow> (q, k) \<in> regions s \<Longrightarrow> 0 < q \<and> q + k < 4294967296"
    and regions_apart: "ok s \<Longrightarrow> (a, n) \<in> regions s \<Longrightarrow> (q, k) \<in> regions s \<Longrightarrow>
      (a, n) = (q, k) \<or> a + n + 12 \<le> q \<or> q + k + 12 \<le> a"
begin

text \<open>Laws every client may use, whichever allocator is linked.\<close>

lemma alloc_ok: "ok s \<Longrightarrow> alloc s sz = Some (s', p) \<Longrightarrow> ok s'"
  using alloc_returns [of s sz] by auto

lemma alloc_new_region:
  assumes "ok s" "alloc s sz = Some (s', p)" "p \<noteq> 0"
  shows "\<exists>n \<ge> unat (mm_align_size sz). (unat p, n) \<in> regions s' \<and> (unat p, n) \<notin> regions s"
proof -
  obtain n where n: "n \<ge> unat (mm_align_size sz)" "regions s' = insert (unat p, n) (regions s)"
    and apart: "\<forall>(q, k) \<in> regions s. q + k + 12 \<le> unat p \<or> unat p + n + 12 \<le> q"
    using alloc_region [OF assms] by blast
  then show ?thesis by (intro exI [of _ n]) auto
qed

lemma alloc_write:
  assumes "ok s" "alloc s sz = Some (s', p)" "p \<noteq> 0"
    and "\<And>x. unat x < unat p \<or> unat p + unat (mm_align_size sz) \<le> unat x \<Longrightarrow> m' x = mem s' x"
  shows "ok (s'\<lparr>mem := m'\<rparr>)" and "regions (s'\<lparr>mem := m'\<rparr>) = regions s'"
proof -
  obtain n where "n \<ge> unat (mm_align_size sz)" "(unat p, n) \<in> regions s'"
    using alloc_new_region [OF assms(1-3)] by blast
  then have "ok (s'\<lparr>mem := m'\<rparr>) \<and> regions (s'\<lparr>mem := m'\<rparr>) = regions s'"
    using assms(4) by (intro write_region [OF alloc_ok [OF assms(1,2)]]) auto
  then show "ok (s'\<lparr>mem := m'\<rparr>)" "regions (s'\<lparr>mem := m'\<rparr>) = regions s'" by simp_all
qed

lemma alloc_release:
  assumes "ok s" "alloc s sz = Some (s', p)" "p \<noteq> 0"
  shows "\<exists>s''. release s' p = Some s'' \<and> ok s'' \<and> regions s'' = regions s"
proof -
  obtain n where n: "regions s' = insert (unat p, n) (regions s)"
    and apart: "\<forall>(q, k) \<in> regions s. q + k + 12 \<le> unat p \<or> unat p + n + 12 \<le> q"
    using alloc_region [OF assms] by blast
  then have "(unat p, n) \<notin> regions s" by auto
  moreover obtain s'' where "release s' p = Some s''" "ok s''" "regions s'' = regions s' - {(unat p, n)}"
    using release_returns [of s' p n] alloc_ok [OF assms(1,2)] n by blast
  ultimately show ?thesis using n by auto
qed

text \<open>Two allocations in a row never overlap, and the second leaves the bytes of the first.\<close>

lemma alloc_twice:
  assumes "ok s" "alloc s a = Some (s1, p)" "p \<noteq> 0" "alloc s1 b = Some (s2, q)" "q \<noteq> 0"
  shows "\<exists>n k. unat (mm_align_size a) \<le> n \<and> unat (mm_align_size b) \<le> k \<and>
           {(unat p, n), (unat q, k)} \<subseteq> regions s2 \<and>
           (unat p + n + 12 \<le> unat q \<or> unat q + k + 12 \<le> unat p)"
proof -
  obtain n where n: "unat (mm_align_size a) \<le> n" "(unat p, n) \<in> regions s1"
    using alloc_new_region [OF assms(1-3)] by blast
  obtain k where k: "unat (mm_align_size b) \<le> k" "regions s2 = insert (unat q, k) (regions s1)"
    and "\<forall>(x, y) \<in> regions s1. x + y + 12 \<le> unat q \<or> unat q + k + 12 \<le> x"
    using alloc_region [OF alloc_ok [OF assms(1,2)] assms(4,5)] by blast
  with n show ?thesis by (intro exI [of _ n] exI [of _ k]) auto
qed

end

section \<open>The two merges of kfree in memory\<close>

text \<open>\<open>b->size += c->size + sizeof(block_t); b->next = c->next;\<close> and the merge of a block
  with its successor when that is free. Both allocators contain these statements.\<close>

definition absorb_block :: "mem \<Rightarrow> u32 \<Rightarrow> u32 \<Rightarrow> mem" where
  "absorb_block m b c =
     (let m = set_size m b (blk_size (load_block m b) + (blk_size (load_block m c) + sizeof_block_t));
          m = set_next m b (blk_next (load_block m c))
      in m)"

definition merge_next :: "mem \<Rightarrow> u32 \<Rightarrow> mem" where
  "merge_next m block =
     (let nxt = blk_next (load_block m block) in
      if nxt \<noteq> 0 \<and> blk_used (load_block m nxt) = 0 then absorb_block m block nxt else m)"

lemma absorb_next_head: "\<exists>k zs. absorb_next n ys = (k, False) # zs"
  by (cases ys) (auto simp: absorb_next_def split: bool.splits)

lemma absorb_next_not_Nil [simp]: "absorb_next n ys \<noteq> []"
  by (simp add: absorb_next_def split: list.splits bool.splits)

lemma seg_set_used:
  assumes "seg m a (xs @ (n, u) # ys) t" and "a + span (xs @ (n, u) # ys) \<le> 4294967296"
  shows "seg (set_used m (of_nat (a + span xs)) v) a (xs @ (n, v \<noteq> 0) # ys) t"
proof -
  have "seg (set_used m (of_nat (a + span xs)) v) a (xs @ [(n, v \<noteq> 0)] @ ys) t"
  proof (rule seg_replace [where old = "[(n, u)]"])
    show "seg (set_used m (of_nat (a + span xs)) v) (a + span xs) [(n, v \<noteq> 0)]
        (if ys = [] then t else of_nat (a + span xs + span [(n, u)]))"
      using assms(1) by (cases "ys = []") (auto simp: seg_append add.assoc)
    show "set_used m (of_nat (a + span xs)) v x = m x"
      if "unat x < a + span xs \<or> a + span xs + span [(n, u)] \<le> unat x" for x
      using that assms(2) by (intro set_fields_flat) auto
  qed (use assms in simp_all)
  then show ?thesis by simp
qed

lemma absorb_block_outside:
  assumes "b + 12 \<le> 4294967296" and "unat x < b \<or> b + 12 \<le> unat x"
  shows "absorb_block m (of_nat b) c x = m x"
  using assms by (simp add: absorb_block_def Let_def set_fields_flat)

lemma merge_next_outside:
  assumes "b + 12 \<le> 4294967296" and "unat x < b \<or> b + 12 \<le> unat x"
  shows "merge_next m (of_nat b) x = m x"
  using assms by (simp add: merge_next_def Let_def absorb_block_outside)

lemma absorb_block_seg:
  assumes s: "seg m a (xs @ (n, u) # (k, w) # ys) t"
    and bd: "a + span (xs @ (n, u) # (k, w) # ys) \<le> 4294967296"
  shows "seg (absorb_block m (of_nat (a + span xs)) (of_nat (a + span xs + 12 + n)))
           a (xs @ (n + 12 + k, u) # ys) t"
proof -
  let ?b = "a + span xs" and ?c = "a + span xs + 12 + n"
  let ?m = "absorb_block m (of_nat ?b) (of_nat ?c)"
  let ?t = "if ys = [] then t else of_nat (?c + 12 + k)"
  have bc: "?b + 12 \<le> 4294967296" "?c + 12 \<le> 4294967296" "?b + 12 \<le> ?c \<or> ?c + 12 \<le> ?b"
    using bd by auto
  have b: "blk_size (load_block m (of_nat ?b)) = of_nat n" "(blk_used (load_block m (of_nat ?b)) \<noteq> 0) = u"
    and c: "blk_size (load_block m (of_nat ?c)) = of_nat k" "blk_next (load_block m (of_nat ?c)) = ?t"
    using s by (auto simp: seg_append)
  have "load_block ?m (of_nat ?b) = (load_block m (of_nat ?b))
      \<lparr>blk_size := of_nat n + (of_nat k + 12), blk_next := ?t\<rparr>"
    using b c bc by (simp add: absorb_block_def Let_def load_block_other sizeof_block_t_def
        del: of_nat_add)
  moreover have "(of_nat n + (of_nat k + 12) :: u32) = of_nat (n + 12 + k)" by simp
  moreover have "unat (of_nat (n + 12 + k) :: u32) = n + 12 + k"
    using bd by (intro unat_of_nat_u32) simp
  ultimately have one: "seg ?m ?b [(n + 12 + k, u)] ?t" using b by (auto simp del: of_nat_add)
  have "seg ?m a (xs @ [(n + 12 + k, u)] @ ys) t"
  proof (rule seg_replace [where old = "[(n, u), (k, w)]"])
    show "seg ?m (a + span xs) [(n + 12 + k, u)]
        (if ys = [] then t else of_nat (a + span xs + span [(n, u), (k, w)]))"
      using one by (cases "ys = []") (simp_all add: add.assoc)
    show "?m x = m x" if "unat x < a + span xs \<or> a + span xs + span [(n, u), (k, w)] \<le> unat x" for x
      using that bc by (intro absorb_block_outside) auto
  qed (use s bd in simp_all)
  then show ?thesis by simp
qed

lemma merge_next_seg:
  assumes s: "seg m a (xs @ (n, False) # ys) 0" and a: "0 < a"
    and bd: "a + span (xs @ (n, False) # ys) \<le> 4294967296"
  shows "seg (merge_next m (of_nat (a + span xs))) a (xs @ absorb_next n ys) 0"
proof (cases ys)
  case Nil
  then have "blk_next (load_block m (of_nat (a + span xs))) = 0"
    using s by (simp add: seg_append)
  then show ?thesis using s Nil by (simp add: merge_next_def absorb_next_def)
next
  case (Cons y zs)
  obtain k w where y: "y = (k, w)" by fastforce
  let ?c = "a + span xs + 12 + n"
  have nx: "blk_next (load_block m (of_nat (a + span xs))) = of_nat ?c"
    and w: "w = (blk_used (load_block m (of_nat ?c)) \<noteq> 0)"
    using s by (auto simp: seg_append Cons y)
  have "(of_nat ?c :: u32) \<noteq> 0" using bd by (subst of_nat_u32_eq_0) (auto simp: Cons y)
  then show ?thesis
    using s nx w absorb_block_seg [of m a xs n False k False zs 0] bd
    by (cases w) (auto simp: merge_next_def Cons y absorb_next_def simp del: of_nat_add)
qed

lemma live_outside_header:
  assumes "(p, k) \<in> live a bs" "p \<le> x" "x < p + k" and "bs = xs @ b # ys"
  shows "x < a + span xs \<or> a + span xs + 12 \<le> x"
proof -
  obtain n u where b: "b = (n, u)" by fastforce
  show ?thesis
    using assms live_bounds [of p k a xs] live_bounds [of p k "a + span xs + 12 + n" ys]
    by (auto simp: b add.assoc split: if_splits)
qed

section \<open>Allocators that work on a block list\<close>

text \<open>What \<open>mm/heap.c\<close> and \<open>mm/malloc.c\<close> have in common: their operations are the
  operations on block lists. This contract gives the allocator interface.\<close>

lemma alloc_offset:
  assumes rel: "heap_rel cap s bs" and "blocks_alloc r bs = (bs', Some o')"
  shows "unat (of_nat (unat (g_heap s) + o') :: u32) = unat (g_heap s) + o'"
    and "(of_nat (unat (g_heap s) + o') :: u32) \<noteq> 0"
proof -
  have "12 \<le> o'" "o' \<le> span bs" using live_blocks_alloc [OF assms(2), of 0] by auto
  then have "unat (g_heap s) + o' < 4294967296" "0 < unat (g_heap s) + o'"
    using rel by (auto simp: heap_rel_def)
  then show "unat (of_nat (unat (g_heap s) + o') :: u32) = unat (g_heap s) + o'"
    and "(of_nat (unat (g_heap s) + o') :: u32) \<noteq> 0"
    by (simp_all add: unat_of_nat_u32 of_nat_u32_eq_0 del: of_nat_add)
qed

locale block_heap =
  fixes cap :: nat
    and alloc :: "heap \<Rightarrow> u32 \<Rightarrow> (heap \<times> u32) option"
    and release :: "heap \<Rightarrow> u32 \<Rightarrow> heap option"
  assumes alloc_zero: "alloc s 0 = Some (s, 0)"
    and alloc_full: "heap_rel cap s bs \<Longrightarrow> sz \<noteq> 0 \<Longrightarrow>
      blocks_alloc (unat (mm_align_size sz)) bs = (bs', None) \<Longrightarrow> alloc s sz = Some (s, 0)"
    and alloc_refines: "heap_rel cap s bs \<Longrightarrow> sz \<noteq> 0 \<Longrightarrow>
      blocks_alloc (unat (mm_align_size sz)) bs = (bs', off) \<Longrightarrow>
      \<exists>m'. alloc s sz = Some (s\<lparr>mem := m'\<rparr>,
        case off of None \<Rightarrow> 0 | Some p \<Rightarrow> of_nat (unat (g_heap s) + p)) \<and>
        heap_rel cap (s\<lparr>mem := m'\<rparr>) bs' \<and>
        (\<forall>x p n. (p, n) \<in> live (unat (g_heap s)) bs \<longrightarrow> p \<le> unat x \<longrightarrow> unat x < p + n \<longrightarrow> m' x = mem s x)"
    and release_refines: "heap_rel cap s (xs @ (n, True) # ys) \<Longrightarrow>
      \<exists>m'. release s (of_nat (unat (g_heap s) + span xs + 12)) = Some (s\<lparr>mem := m'\<rparr>) \<and>
        heap_rel cap (s\<lparr>mem := m'\<rparr>) (blocks_free xs n ys) \<and>
        (\<forall>x p k. (p, k) \<in> live (unat (g_heap s)) (xs @ (n, True) # ys) \<longrightarrow>
           p \<le> unat x \<longrightarrow> unat x < p + k \<longrightarrow> m' x = mem s x)"
begin

text \<open>What one call does to the block list, in the form the interpretation uses.\<close>

lemma alloc_step:
  assumes rel: "heap_rel cap s bs" and call: "alloc s sz = Some (s', p)" and sz: "sz \<noteq> 0"
  obtains bs' off where "blocks_alloc (unat (mm_align_size sz)) bs = (bs', off)"
    and "heap_rel cap s' bs'" and "g_heap s' = g_heap s"
    and "p = (case off of None \<Rightarrow> 0 | Some o' \<Rightarrow> of_nat (unat (g_heap s) + o'))"
    and "\<And>x q k. (q, k) \<in> live (unat (g_heap s)) bs \<Longrightarrow> q \<le> unat x \<Longrightarrow> unat x < q + k \<Longrightarrow>
           mem s' x = mem s x"
proof -
  obtain bs' off where "blocks_alloc (unat (mm_align_size sz)) bs = (bs', off)" by fastforce
  with alloc_refines [OF rel sz this] call that show thesis by fastforce
qed

text \<open>Releasing what was just allocated gives the block list back.\<close>

lemma alloc_release_blocks:
  assumes rel: "heap_rel cap s bs" and "coalesced bs" and call: "alloc s sz = Some (s', p)" and "p \<noteq> 0"
  shows "\<exists>s''. release s' p = Some s'' \<and> heap_rel cap s'' bs"
proof -
  let ?r = "unat (mm_align_size sz)"
  have "sz \<noteq> 0" using call \<open>p \<noteq> 0\<close> alloc_zero by auto
  then obtain bs' off where al: "blocks_alloc ?r bs = (bs', off)" and rel': "heap_rel cap s' bs'"
    and g: "g_heap s' = g_heap s"
    and p: "p = (case off of None \<Rightarrow> 0 | Some o' \<Rightarrow> of_nat (unat (g_heap s) + o'))"
    using alloc_step [OF rel call] by blast
  obtain xs n ys where ff: "first_fit ?r bs = Some (xs, n, ys)"
    and bs': "bs' = xs @ carve ?r n @ ys" and off: "off = Some (span xs + 12)"
    using al p \<open>p \<noteq> 0\<close> by (auto simp: blocks_alloc_def split: option.splits)
  note fs = first_fit_Some [OF ff]
  obtain k zs where c: "carve ?r n @ ys = (k, True) # zs" "blocks_free xs k zs = bs"
    using blocks_free_alloc [of xs n ys ?r] fs assms(2) by auto
  then show ?thesis
    using release_refines [of s' xs k zs] rel' p off bs' c g by (auto simp: add.assoc)
qed

end

sublocale block_heap \<subseteq> allocator "heap_ok cap" "heap_regions cap" alloc release
proof (unfold_locales, goal_cases)
  case (1 s sz)
  then obtain bs where rel: "heap_rel cap s bs" and co: "coalesced bs" by (auto simp: heap_ok_def)
  show ?case
  proof (cases "sz = 0")
    case False
    obtain bs' off where al: "blocks_alloc (unat (mm_align_size sz)) bs = (bs', off)" by fastforce
    show ?thesis
      using alloc_refines [OF rel False al] coalesced_blocks_alloc [OF co al]
      unfolding heap_ok_def by blast
  qed (use 1 alloc_zero in auto)
next
  case (2 s sz s')
  then obtain bs where rel: "heap_rel cap s bs" by (auto simp: heap_ok_def)
  show ?case
  proof (cases "sz = 0")
    case False
    obtain bs' off where al: "blocks_alloc (unat (mm_align_size sz)) bs = (bs', off)" by fastforce
    have "off = None"
      using alloc_refines [OF rel False al] 2(2) alloc_offset [OF rel] al by (cases off) auto
    with alloc_full [OF rel False] al 2(2) show ?thesis by simp
  qed (use 2 alloc_zero in simp)
next
  case (3 s sz s' p)
  then obtain bs where rel: "heap_rel cap s bs" by (auto simp: heap_ok_def)
  have "sz \<noteq> 0" using 3 alloc_zero by auto
  then obtain bs' off where al: "blocks_alloc (unat (mm_align_size sz)) bs = (bs', off)"
    and rel': "heap_rel cap s' bs'" and g: "g_heap s' = g_heap s"
    and p: "p = (case off of None \<Rightarrow> 0 | Some o' \<Rightarrow> of_nat (unat (g_heap s) + o'))"
    using alloc_step [OF rel 3(2)] by blast
  obtain o' where off: "off = Some o'" using p 3(3) by (cases off) auto
  have up: "unat p = unat (g_heap s) + o'" using alloc_offset [OF rel] al p off by simp
  show ?case
    using live_blocks_alloc [of "unat (mm_align_size sz)" bs bs' o' "unat (g_heap s)"] al off
    by (auto simp: heap_regions_eq [OF rel] heap_regions_eq [OF rel'] g up)
next
  case (4 s sz s' p q k x)
  then obtain bs where rel: "heap_rel cap s bs" by (auto simp: heap_ok_def)
  show ?case
  proof (cases "sz = 0")
    case False
    from alloc_step [OF rel 4(2) False] 4 show ?thesis
      by (metis heap_regions_eq [OF rel])
  qed (use 4 alloc_zero in simp)
next
  case (5 s p n)
  then obtain bs where rel: "heap_rel cap s bs" and co: "coalesced bs" by (auto simp: heap_ok_def)
  obtain xs ys where bs: "bs = xs @ (n, True) # ys" and p: "unat p = unat (g_heap s) + span xs + 12"
    using live_split 5(2) by (metis heap_regions_eq [OF rel])
  have p': "p = of_nat (unat (g_heap s) + span xs + 12)" by (simp flip: p)
  obtain m' where "release s p = Some (s\<lparr>mem := m'\<rparr>)" and rel': "heap_rel cap (s\<lparr>mem := m'\<rparr>) (blocks_free xs n ys)"
    using release_refines [of s xs n ys] rel bs p' by auto
  moreover have "heap_ok cap (s\<lparr>mem := m'\<rparr>)"
    using rel' coalesced_blocks_free [of xs n ys] co bs by (auto simp: heap_ok_def)
  moreover have "heap_regions cap (s\<lparr>mem := m'\<rparr>) = heap_regions cap s - {(unat p, n)}"
    using live_blocks_free [of "unat (g_heap s)" xs n ys] bs p
    by (simp add: heap_regions_eq [OF rel] heap_regions_eq [OF rel'])
  ultimately show ?case by auto
next
  case (6 s p n s' q k x)
  then obtain bs where rel: "heap_rel cap s bs" by (auto simp: heap_ok_def)
  obtain xs ys where bs: "bs = xs @ (n, True) # ys" and p: "unat p = unat (g_heap s) + span xs + 12"
    using live_split 6(2) by (metis heap_regions_eq [OF rel])
  have p': "p = of_nat (unat (g_heap s) + span xs + 12)" by (simp flip: p)
  show ?case
    using release_refines [of s xs n ys] rel 6 bs p' by (auto simp: heap_regions_eq [OF rel])
next
  case (7 s q k m')
  then obtain bs where rel: "heap_rel cap s bs" and co: "coalesced bs" by (auto simp: heap_ok_def)
  have "heap_rel cap (s\<lparr>mem := m'\<rparr>) bs"
    using 7(2,3) by (intro heap_rel_payload_write [OF rel]) (auto simp: heap_regions_eq [OF rel])
  then show ?case using co rel by (auto simp: heap_ok_def heap_regions_eq)
next
  case (8 s q k)
  then obtain bs where rel: "heap_rel cap s bs" by (auto simp: heap_ok_def)
  show ?case using 8(2) live_bounds [of q k "unat (g_heap s)" bs] rel
    by (auto simp: heap_regions_eq [OF rel] heap_rel_def)
next
  case (9 s p n q k)
  then obtain bs where rel: "heap_rel cap s bs" by (auto simp: heap_ok_def)
  show ?case using 9(2,3) live_disjoint by (simp add: heap_regions_eq [OF rel])
qed

end
