(* ===== verification/Mm_Heap.thy ===== *)
theory Mm_Heap
  imports Mm_Spec
begin

text \<open>
  \<open>mm/heap.c\<close>, the allocator linked into the kernel: a 64 KiB array carved into a linked
  list of blocks, first-fit \<open>kmalloc\<close> with splitting and \<open>kfree\<close> that merges with the
  previous and then the next block. The result \<open>None\<close> of an operation means that its loop
  over the list never ends, which the theorems rule out for well-formed heaps.
\<close>

definition HEAP_CAPACITY :: u32 where
  "HEAP_CAPACITY = 64 * 1024"

definition MIN_SPLIT_SIZE :: u32 where
  "MIN_SPLIT_SIZE = sizeof_block_t + 16"

definition mem_init :: "heap \<Rightarrow> u32 \<Rightarrow> heap" where
  "mem_init s total_ram =
     (let capacity = HEAP_CAPACITY;
          capacity = (if total_ram \<noteq> 0 \<and> total_ram < capacity then total_ram else capacity);
          capacity = (if capacity < sizeof_block_t then sizeof_block_t else capacity);
          first = g_heap s;
          m = set_size (mem s) first (capacity - sizeof_block_t);
          m = set_used m first 0;
          m = set_next m first 0
      in s\<lparr>g_first_block := first, mem := m\<rparr>)"

text \<open>The body of the search loop of \<open>kmalloc\<close> once a block fits.\<close>

definition kmalloc_take :: "mem \<Rightarrow> u32 \<Rightarrow> u32 \<Rightarrow> mem" where
  "kmalloc_take m current request =
     (let leftover = blk_size (load_block m current) - request in
      if MIN_SPLIT_SIZE \<le> leftover then
        let split = current + sizeof_block_t + request;
            m = set_size m split (leftover - sizeof_block_t);
            m = set_used m split 0;
            m = set_next m split (blk_next (load_block m current));
            m = set_size m current request;
            m = set_used m current 1;
            m = set_next m current split
        in m
      else set_used m current 1)"

partial_function (option) kmalloc_scan :: "mem \<Rightarrow> u32 \<Rightarrow> u32 \<Rightarrow> (mem \<times> u32) option" where
  "kmalloc_scan m request current =
     (if current = 0 then Some (m, 0)
      else if blk_used (load_block m current) = 0 \<and> request \<le> blk_size (load_block m current)
      then Some (kmalloc_take m current request, mm_block_payload current)
      else kmalloc_scan m request (blk_next (load_block m current)))"

definition kmalloc :: "heap \<Rightarrow> u32 \<Rightarrow> (heap \<times> u32) option" where
  "kmalloc s sz =
     (if sz = 0 then Some (s, 0)
      else do {
        (m, p) \<leftarrow> kmalloc_scan (mem s) (mm_align_size sz) (g_first_block s);
        Some (s\<lparr>mem := m\<rparr>, p)
      })"

definition kfree :: "heap \<Rightarrow> u32 \<Rightarrow> heap option" where
  "kfree s ptr =
     (if ptr = 0 \<or> g_first_block s = 0 then Some s
      else do {
        let block = ptr - sizeof_block_t;
        let m = set_used (mem s) block 0;
        prev \<leftarrow> mm_find_previous_block m (g_first_block s) block;
        let (m, block) =
          (if prev \<noteq> 0 \<and> blk_used (load_block m prev) = 0
           then (absorb_block m prev block, prev) else (m, block));
        let m = merge_next m block;
        Some (s\<lparr>mem := m\<rparr>)
      })"

section \<open>Taking a block\<close>

lemma kmalloc_take_seg:
  assumes s: "seg m b [(n, u)] t" and r: "r \<le> n" and bound: "b + 12 + n \<le> 4294967296"
  shows "seg (kmalloc_take m (of_nat b) (of_nat r)) b (carve r n) t"
    and "unat x < b \<or> b + 12 + n \<le> unat x \<Longrightarrow> kmalloc_take m (of_nat b) (of_nat r) x = m x"
proof -
  have sz: "blk_size (load_block m (of_nat b)) = of_nat n"
    and nx: "blk_next (load_block m (of_nat b)) = t" using s by auto
  have n: "n < 4294967296" using bound by simp
  have left: "(of_nat n :: u32) - of_nat r = of_nat (n - r)" using r by simp
  have test: "MIN_SPLIT_SIZE \<le> (of_nat n :: u32) - of_nat r \<longleftrightarrow> 28 \<le> n - r"
    using n unfolding left
    by (simp add: MIN_SPLIT_SIZE_def sizeof_block_t_def word_le_nat_alt unat_of_nat_u32 del: of_nat_diff)
  define c where "c = b + 12 + r"
  have split: "of_nat b + sizeof_block_t + of_nat r = (of_nat c :: u32)"
    by (simp add: c_def sizeof_block_t_def)
  show "seg (kmalloc_take m (of_nat b) (of_nat r)) b (carve r n) t"
  proof (cases "28 \<le> n - r")
    case True
    have c: "c + 12 \<le> 4294967296" "b + 12 \<le> 4294967296" "b + 12 \<le> c"
      using True bound by (auto simp: c_def)
    have l: "unat ((of_nat n :: u32) - of_nat r - sizeof_block_t) = n - r - 12"
    proof -
      have "(of_nat n :: u32) - of_nat r - sizeof_block_t = of_nat (n - r - 12)"
        using True by (simp add: sizeof_block_t_def)
      then show ?thesis using n by (simp add: unat_of_nat_u32 del: of_nat_diff)
    qed
    let ?m = "kmalloc_take m (of_nat b) (of_nat r)"
    have lb: "load_block ?m (of_nat b) = \<lparr>blk_size = of_nat r, blk_used = 1, blk_next = of_nat c\<rparr>"
      using True c by (simp add: kmalloc_take_def Let_def sz test split load_block_other)
    have lc: "load_block ?m (of_nat c) =
        \<lparr>blk_size = of_nat n - of_nat r - sizeof_block_t, blk_used = 0, blk_next = t\<rparr>"
      using True c by (simp add: kmalloc_take_def Let_def sz nx test split load_block_other)
    show ?thesis
      using True r n l lc [unfolded c_def] by (simp add: carve_def lb c_def unat_of_nat_u32)
  next
    case False
    with s show ?thesis
      by (simp add: kmalloc_take_def Let_def sz test carve_def)
  qed
  show "kmalloc_take m (of_nat b) (of_nat r) x = m x" if "unat x < b \<or> b + 12 + n \<le> unat x"
    using that bound r
    by (auto simp: kmalloc_take_def Let_def sz test split set_fields_flat c_def
        simp del: of_nat_add)
qed

section \<open>kmalloc\<close>

lemma kmalloc_scan_seg:
  assumes "seg m a bs 0" and "0 < a" and "a + span bs \<le> 4294967296" and "r < 4294967296"
  shows "kmalloc_scan m (of_nat r) (if bs = [] then 0 else of_nat a) =
    (case first_fit r bs of
       None \<Rightarrow> Some (m, 0)
     | Some (xs, n, ys) \<Rightarrow>
         Some (kmalloc_take m (of_nat (a + span xs)) (of_nat r), of_nat (a + span xs + 12)))"
  using assms(1-3)
proof (induction bs arbitrary: a)
  case Nil
  then show ?case by (subst kmalloc_scan.simps) simp
next
  case (Cons z bs)
  obtain n u where z: "z = (n, u)" by fastforce
  have b: "blk_size (load_block m (of_nat a)) = of_nat n"
      "blk_next (load_block m (of_nat a)) = (if bs = [] then 0 else of_nat (a + 12 + n))"
    and u: "u = (blk_used (load_block m (of_nat a)) \<noteq> 0)"
    using Cons.prems(1) z by auto
  have nz: "(of_nat a :: u32) \<noteq> 0" using Cons.prems by (simp add: of_nat_u32_eq_0 z)
  have fits: "(of_nat r :: u32) \<le> of_nat n \<longleftrightarrow> r \<le> n"
    using Cons.prems(3) assms(4) by (simp add: z word_le_nat_alt unat_of_nat_u32)
  show ?case
  proof (cases "\<not> u \<and> r \<le> n")
    case True
    then have "blk_used (load_block m (of_nat a)) = 0" using u by simp
    with True nz fits show ?thesis
      by (subst kmalloc_scan.simps)
        (simp add: z b mm_block_payload_def sizeof_block_t_def)
  next
    case False
    have "kmalloc_scan m (of_nat r) (of_nat a) =
        kmalloc_scan m (of_nat r) (if bs = [] then 0 else of_nat (a + 12 + n))"
      using False nz fits b u by (subst kmalloc_scan.simps) (auto simp: z)
    moreover note Cons.IH [of "a + 12 + n"] Cons.prems
    ultimately show ?thesis using False
      by (auto simp: z add.assoc split: option.splits)
  qed
qed

lemma kmalloc_refines:
  assumes rel: "heap_rel cap s bs" and sz: "sz \<noteq> 0"
    and alloc: "blocks_alloc (unat (mm_align_size sz)) bs = (bs', off)"
  shows "\<exists>m'. kmalloc s sz = Some (s\<lparr>mem := m'\<rparr>,
      case off of None \<Rightarrow> 0 | Some p \<Rightarrow> of_nat (unat (g_heap s) + p)) \<and>
    heap_rel cap (s\<lparr>mem := m'\<rparr>) bs' \<and>
    (\<forall>x p n. (p, n) \<in> live (unat (g_heap s)) bs \<longrightarrow> p \<le> unat x \<longrightarrow> unat x < p + n \<longrightarrow> m' x = mem s x)"
proof -
  let ?a = "unat (g_heap s)" and ?r = "unat (mm_align_size sz)"
  have g: "g_heap s \<noteq> 0" "g_first_block s = g_heap s" "bs \<noteq> []" "span bs = cap" "?a + cap < 4294967296"
    and s: "seg (mem s) ?a bs 0" using rel by (auto simp: heap_rel_def)
  have a: "0 < ?a" using g(1) by (simp add: unat_gt_0)
  have scan: "kmalloc_scan (mem s) (mm_align_size sz) (g_heap s) =
    (case first_fit ?r bs of None \<Rightarrow> Some (mem s, 0)
     | Some (xs, n, ys) \<Rightarrow> Some (kmalloc_take (mem s) (of_nat (?a + span xs)) (mm_align_size sz),
         of_nat (?a + span xs + 12)))"
    using kmalloc_scan_seg [of "mem s" ?a bs ?r] s a g by (auto split: option.splits)
  show ?thesis
  proof (cases "first_fit ?r bs")
    case None
    then have "kmalloc s sz = Some (s\<lparr>mem := mem s\<rparr>, 0)" "bs' = bs" "off = None"
      using scan alloc sz g by (auto simp: kmalloc_def blocks_alloc_def)
    then show ?thesis using rel by (intro exI [of _ "mem s"]) auto
  next
    case (Some t)
    obtain xs n ys where t: "t = (xs, n, ys)" by (metis prod_cases3)
    have bs: "bs = xs @ (n, False) # ys" and rn: "?r \<le> n"
      using first_fit_Some [of ?r bs xs n ys] Some t by auto
    have bs': "bs' = xs @ carve ?r n @ ys" and off: "off = Some (span xs + 12)"
      using alloc Some t by (auto simp: blocks_alloc_def)
    let ?m = "kmalloc_take (mem s) (of_nat (?a + span xs)) (mm_align_size sz)"
    let ?t = "if ys = [] then 0 else of_nat (?a + span xs + 12 + n)"
    have one: "seg (mem s) (?a + span xs) [(n, False)] ?t"
      using s by (auto simp: bs seg_append)
    have bd: "?a + span xs + 12 + n \<le> 4294967296" using g by (simp add: bs)
    have out: "?m x = mem s x" if "unat x < ?a + span xs \<or> ?a + span xs + 12 + n \<le> unat x" for x
      using kmalloc_take_seg(2) [OF one rn bd that] by simp
    have "seg ?m ?a (xs @ carve ?r n @ ys) 0"
    proof (rule seg_replace [where old = "[(n, False)]"])
      show "seg ?m (?a + span xs) (carve ?r n) (if ys = [] then 0 else of_nat (?a + span xs + span [(n, False)]))"
        using kmalloc_take_seg(1) [OF one rn bd] by (cases "ys = []") (simp_all add: add.assoc)
    qed (use s g rn out in \<open>simp_all add: bs span_carve add.assoc\<close>)
    then have "heap_rel cap (s\<lparr>mem := ?m\<rparr>) bs'"
      using g span_blocks_alloc [OF alloc] by (simp add: heap_rel_def bs')
    moreover have "kmalloc s sz = Some (s\<lparr>mem := ?m\<rparr>, of_nat (?a + (span xs + 12)))"
      using scan sz g Some t by (simp add: kmalloc_def add.assoc)
    moreover have "?m x = mem s x" if "(p, k) \<in> live ?a bs" "p \<le> unat x" "unat x < p + k" for x p k
      using that live_bounds [of p k ?a xs] live_bounds [of p k "?a + span xs + 12 + n" ys]
      by (intro out) (auto simp: bs add.assoc)
    ultimately show ?thesis by (intro exI [of _ ?m]) (auto simp: off)
  qed
qed

section \<open>kfree\<close>

lemma kfree_refines:
  assumes rel: "heap_rel cap s (xs @ (n, True) # ys)"
  shows "\<exists>m'. kfree s (of_nat (unat (g_heap s) + span xs + 12)) = Some (s\<lparr>mem := m'\<rparr>) \<and>
    heap_rel cap (s\<lparr>mem := m'\<rparr>) (blocks_free xs n ys) \<and>
    (\<forall>x p k. (p, k) \<in> live (unat (g_heap s)) (xs @ (n, True) # ys) \<longrightarrow>
       p \<le> unat x \<longrightarrow> unat x < p + k \<longrightarrow> m' x = mem s x)"
proof -
  let ?a = "unat (g_heap s)" and ?b = "unat (g_heap s) + span xs"
  have g: "g_heap s \<noteq> 0" "g_first_block s = g_heap s" "span (xs @ (n, True) # ys) = cap" "?a + cap < 4294967296"
    and s: "seg (mem s) ?a (xs @ (n, True) # ys) 0" using rel by (auto simp: heap_rel_def)
  have a: "0 < ?a" using g(1) by (simp add: unat_gt_0)
  have nz: "(of_nat (?b + 12) :: u32) \<noteq> 0"
    using g by (subst of_nat_u32_eq_0) auto
  have blk: "of_nat (?b + 12) - sizeof_block_t = (of_nat ?b :: u32)" by (simp add: sizeof_block_t_def)
  let ?m1 = "set_used (mem s) (of_nat ?b) 0"
  have bd: "?a + span (xs @ (n, False) # ys) \<le> 4294967296" using g by simp
  have s1: "seg ?m1 ?a (xs @ (n, False) # ys) 0" using seg_set_used [OF s, of 0] bd by simp
  have prev: "mm_find_previous_block ?m1 (g_heap s) (of_nat ?b) =
      Some (if xs = [] then 0 else of_nat (?a + span (butlast xs)))"
    using find_previous_block_seg [OF s1 a bd] by simp
  show ?thesis
  proof (cases "xs \<noteq> [] \<and> \<not> snd (last xs)")
    case True
    then obtain zs k where xs: "xs = zs @ [(k, False)]"
      by (metis append_butlast_last_id prod.collapse)
    let ?p = "?a + span zs"
    let ?m2 = "absorb_block ?m1 (of_nat ?p) (of_nat ?b)"
    have pz: "(of_nat ?p :: u32) \<noteq> 0" using g a by (subst of_nat_u32_eq_0) (auto simp: xs)
    have pu: "blk_used (load_block ?m1 (of_nat ?p)) = 0"
      using s1 by (simp add: xs seg_append)
    have s2: "seg ?m2 ?a (zs @ (k + 12 + n, False) # ys) 0"
      using absorb_block_seg [of ?m1 ?a zs k False n False ys] s1 bd by (simp add: xs add.assoc)
    have "kfree s (of_nat (?b + 12)) = Some (s\<lparr>mem := merge_next ?m2 (of_nat ?p)\<rparr>)"
      using nz prev pz pu g(1,2) unfolding kfree_def blk by (simp add: xs Let_def)
    moreover have "seg (merge_next ?m2 (of_nat ?p)) ?a (zs @ absorb_next (k + 12 + n) ys) 0"
      using merge_next_seg [OF s2] a bd by (simp add: xs)
    moreover have "merge_next ?m2 (of_nat ?p) x = mem s x"
      if "(q, j) \<in> live ?a (xs @ (n, True) # ys)" "q \<le> unat x" "unat x < q + j" for x q j
    proof -
      have "unat x < ?p \<or> ?p + 12 \<le> unat x" "unat x < ?b \<or> ?b + 12 \<le> unat x"
        using live_outside_header [OF that, of zs "(k, False)"]
          live_outside_header [OF that, of xs] by (auto simp: xs)
      moreover have "?p + 12 \<le> 4294967296" "?b + 12 \<le> 4294967296" using bd by (simp_all add: xs)
      ultimately show ?thesis
        by (simp add: merge_next_outside absorb_block_outside set_fields_flat del: of_nat_add)
    qed
    ultimately show ?thesis using True g span_blocks_free [of xs n ys]
      by (intro exI [of _ "merge_next ?m2 (of_nat ?p)"])
        (auto simp: heap_rel_def xs blocks_free_def)
  next
    case False
    have pu: "xs = [] \<or> blk_used (load_block ?m1 (of_nat (?a + span (butlast xs)))) \<noteq> 0"
    proof (cases "xs = []")
      case False
      then obtain zs k where xs: "xs = zs @ [(k, True)]"
        using \<open>\<not> (xs \<noteq> [] \<and> \<not> snd (last xs))\<close> by (metis append_butlast_last_id prod.collapse)
      show ?thesis using s1 by (simp add: xs seg_append)
    qed simp
    have "kfree s (of_nat (?b + 12)) = Some (s\<lparr>mem := merge_next ?m1 (of_nat ?b)\<rparr>)"
      using nz prev pu g(1,2) unfolding kfree_def blk by (auto simp: Let_def)
    moreover have "seg (merge_next ?m1 (of_nat ?b)) ?a (xs @ absorb_next n ys) 0"
      using merge_next_seg [OF s1] a bd by simp
    moreover have "merge_next ?m1 (of_nat ?b) x = mem s x"
      if "(q, j) \<in> live ?a (xs @ (n, True) # ys)" "q \<le> unat x" "unat x < q + j" for x q j
      using live_outside_header [OF that, of xs] bd
      by (simp add: merge_next_outside set_fields_flat del: of_nat_add)
    ultimately show ?thesis using False g span_blocks_free [of xs n ys]
      by (intro exI [of _ "merge_next ?m1 (of_nat ?b)"])
        (auto simp: heap_rel_def blocks_free_def absorb_next_not_Nil)
  qed
qed

section \<open>heap.c implements the allocator interface\<close>

lemma kmalloc_zero [simp]: "kmalloc s 0 = Some (s, 0)"
  by (simp add: kmalloc_def)

lemma kmalloc_full:
  assumes rel: "heap_rel cap s bs" and "sz \<noteq> 0"
    and "blocks_alloc (unat (mm_align_size sz)) bs = (bs', None)"
  shows "kmalloc s sz = Some (s, 0)"
proof -
  have "first_fit (unat (mm_align_size sz)) bs = None"
    using assms(3) by (auto simp: blocks_alloc_def split: option.splits)
  then have "kmalloc_scan (mem s) (mm_align_size sz) (g_first_block s) = Some (mem s, 0)"
    using kmalloc_scan_seg [of "mem s" "unat (g_heap s)" bs "unat (mm_align_size sz)"] rel
    by (simp add: heap_rel_def unat_gt_0)
  then show ?thesis using \<open>sz \<noteq> 0\<close> by (simp add: kmalloc_def)
qed

interpretation heap_c: block_heap cap kmalloc kfree for cap
  by unfold_locales (blast intro: kmalloc_zero kmalloc_full kmalloc_refines kfree_refines)+

section \<open>The initial heap\<close>

lemma mem_init_rel:
  assumes "g_heap s \<noteq> 0" "unat (g_heap s) + init_capacity 65536 ram < 4294967296"
  shows "heap_rel (init_capacity 65536 ram) (mem_init s ram) [(init_capacity 65536 ram - 12, False)]"
proof -
  define c where "c = (let capacity = (if ram \<noteq> 0 \<and> ram < HEAP_CAPACITY then ram else HEAP_CAPACITY)
    in if capacity < sizeof_block_t then sizeof_block_t else capacity)"
  have u: "unat c = init_capacity 65536 ram"
    using init_capacity_unat [of HEAP_CAPACITY ram] by (simp add: c_def HEAP_CAPACITY_def)
  have "mem_init s ram = \<lparr>g_heap = g_heap s, g_first_block = g_heap s,
      mem = set_next (set_used (set_size (mem s) (g_heap s) (c - sizeof_block_t)) (g_heap s) 0) (g_heap s) 0\<rparr>"
    by (simp add: mem_init_def c_def Let_def del: if_split)
  then show ?thesis
    using heap_rel_init [of "g_heap s" c "mem s"] assms u by (auto simp: init_capacity_def)
qed

text \<open>A heap at address 4096 right after \<open>mem_init\<close>, and after one allocation of 16 bytes.\<close>

definition boot_heap :: heap where
  "boot_heap = mem_init \<lparr>g_heap = 4096, g_first_block = 0, mem = (\<lambda>_. 0)\<rparr> 0"

lemma g_heap_boot_heap [simp]: "g_heap boot_heap = 4096"
  by (simp add: boot_heap_def mem_init_def Let_def)

lemma boot_heap_rel: "heap_rel 65536 boot_heap [(65524, False)]"
  using mem_init_rel [of "\<lparr>g_heap = 4096, g_first_block = 0, mem = (\<lambda>_. 0)\<rparr>" 0]
  by (simp add: boot_heap_def init_capacity_def)

lemma boot_heap_ok: "heap_ok 65536 boot_heap"
  using boot_heap_rel by (auto simp: heap_ok_def)

lemma mm_align_size_16 [simp]: "mm_align_size 16 = 16"
  by (simp add: mm_align_size_def)

lemma boot_kmalloc:
  obtains m where "kmalloc boot_heap 16 = Some (boot_heap\<lparr>mem := m\<rparr>, 4108)"
    and "heap_rel 65536 (boot_heap\<lparr>mem := m\<rparr>) [(16, True), (65496, False)]"
proof -
  have "blocks_alloc 16 [(65524, False)] = ([(16, True), (65496, False)], Some 12)"
    by (simp add: blocks_alloc_def carve_def)
  then show thesis
    using kmalloc_refines [OF boot_heap_rel, of 16 "[(16, True), (65496, False)]" "Some 12"] that by auto
qed

section \<open>Runs of the allocator\<close>

text \<open>Everything clients can do with the heap: boot it, allocate, free a payload they own (or
  null), and store into a payload they own.\<close>

inductive heap_run :: "u32 \<Rightarrow> u32 \<Rightarrow> heap \<Rightarrow> bool" for base ram where
  boot: "heap_run base ram (mem_init \<lparr>g_heap = base, g_first_block = 0, mem = m\<rparr> ram)"
| run_kmalloc: "heap_run base ram s \<Longrightarrow> kmalloc s sz = Some (s', p) \<Longrightarrow> heap_run base ram s'"
| run_kfree: "heap_run base ram s \<Longrightarrow> p = 0 \<or> (unat p, n) \<in> heap_regions (init_capacity 65536 ram) s \<Longrightarrow>
    kfree s p = Some s' \<Longrightarrow> heap_run base ram s'"
| run_store: "heap_run base ram s \<Longrightarrow> (q, k) \<in> heap_regions (init_capacity 65536 ram) s \<Longrightarrow>
    q \<le> unat x \<Longrightarrow> unat x < q + k \<Longrightarrow> heap_run base ram (s\<lparr>mem := (mem s)(x := v)\<rparr>)"

lemma kfree_null [simp]: "kfree s 0 = Some s"
  by (simp add: kfree_def)

lemma heap_run_ok:
  assumes "heap_run base ram s" "base \<noteq> 0" "unat base + init_capacity 65536 ram < 4294967296"
  shows "heap_ok (init_capacity 65536 ram) s"
  using assms(1)
proof (induction rule: heap_run.induct)
  case (boot m)
  then show ?case using mem_init_rel [of "\<lparr>g_heap = base, g_first_block = 0, mem = m\<rparr>" ram] assms(2,3)
    by (auto simp: heap_ok_def)
next
  case (run_kmalloc s sz s' p)
  then show ?case using heap_c.alloc_ok by blast
next
  case (run_kfree s p n s')
  then show ?case using heap_c.release_returns [of _ s p n] by auto
next
  case (run_store s q k x v)
  have "((mem s)(x := v)) y = mem s y" if "unat y < q \<or> q + k \<le> unat y" for y
    using that run_store.hyps by auto
  then show ?case using heap_c.write_region [OF run_store.IH run_store.hyps(2)] by blast
qed

text \<open>A client owns a region of at least \<open>sz\<close> bytes at \<open>p\<close>. What it gets from \<open>kmalloc\<close> is its own and
  was nobody's before; what it gives to \<open>kfree\<close> takes nothing else away.\<close>

definition owns :: "nat \<Rightarrow> heap \<Rightarrow> nat \<Rightarrow> u32 \<Rightarrow> bool" where
  "owns cap h sz p \<longleftrightarrow> (\<exists>n \<ge> sz. (unat p, n) \<in> heap_regions cap h)"

lemma owns_mono: "heap_regions cap h \<subseteq> heap_regions cap h' \<Longrightarrow> owns cap h sz p \<Longrightarrow> owns cap h' sz p"
  unfolding owns_def by blast

lemma alloc_fresh:
  assumes "heap_ok cap h" "kmalloc h sz = Some (h', p)" "p \<noteq> 0" "sz \<noteq> 0" "unat sz \<le> 4294967288"
  shows "heap_ok cap h'" "heap_regions cap h \<subseteq> heap_regions cap h'" "owns cap h' (unat sz) p" "\<not> owns cap h k p"
proof -
  show "heap_ok cap h'" by (rule heap_c.alloc_ok [OF assms(1,2)])
  obtain n where n: "n \<ge> unat (mm_align_size sz)" "heap_regions cap h' = insert (unat p, n) (heap_regions cap h)"
    "\<forall>(q, k) \<in> heap_regions cap h. q + k + 12 \<le> unat p \<or> unat p + n + 12 \<le> q"
    using heap_c.alloc_region [OF assms(1-3)] by blast
  show "heap_regions cap h \<subseteq> heap_regions cap h'" using n(2) by blast
  show "owns cap h' (unat sz) p" using n mm_align_size_ge [OF assms(4,5)] unfolding owns_def by (intro exI [of _ n]) auto
  show "\<not> owns cap h k p" using n(3) by (auto simp: owns_def)
qed

lemma free_owned:
  assumes "heap_ok cap h" "owns cap h k p"
  shows "\<exists>h'. kfree h p = Some h' \<and> heap_ok cap h' \<and> heap_regions cap h' \<subseteq> heap_regions cap h \<and>
    (\<forall>j q. owns cap h j q \<longrightarrow> q \<noteq> p \<longrightarrow> owns cap h' j q)"
proof -
  obtain n where n: "(unat p, n) \<in> heap_regions cap h" using assms(2) by (auto simp: owns_def)
  obtain h' where h': "kfree h p = Some h'" "heap_ok cap h'" "heap_regions cap h' = heap_regions cap h - {(unat p, n)}"
    using heap_c.release_returns [OF assms(1) n] by blast
  have "owns cap h' j q" if o: "owns cap h j q" and "q \<noteq> p" for j q
  proof -
    obtain m where "j \<le> m" "(unat q, m) \<in> heap_regions cap h" using o by (auto simp: owns_def)
    moreover have "unat q \<noteq> unat p" using that(2) by (metis word_unat_eq_iff)
    ultimately show ?thesis unfolding owns_def h'(3) by blast
  qed
  then show ?thesis using h'(1,2) h'(3) by (intro exI [of _ h'] conjI) simp_all
qed

lemma kmalloc_g_heap: "kmalloc s sz = Some (s', p) \<Longrightarrow> g_heap s' = g_heap s"
  by (auto simp: kmalloc_def Option.bind_eq_Some_conv split: if_split_asm)

lemma kfree_g_heap: "kfree s p = Some s' \<Longrightarrow> g_heap s' = g_heap s"
  by (auto simp: kfree_def Let_def case_prod_beta Option.bind_eq_Some_conv split del: if_split split: if_split_asm)

lemma owns_inside: "owns cap h k p \<Longrightarrow> unat (g_heap h) + 12 \<le> unat p"
proof -
  assume "owns cap h k p"
  then obtain n bs where "(unat p, n) \<in> live (unat (g_heap h)) bs" by (auto simp: owns_def heap_regions_def)
  from live_bounds [OF this] show ?thesis by simp
qed

lemma kmalloc_null_iff:
  assumes rel: "heap_rel cap s bs" and call: "kmalloc s sz = Some (s', p)"
  shows "p = 0 \<longleftrightarrow> sz = 0 \<or> (\<forall>(n, u) \<in> set bs. u \<or> n < unat (mm_align_size sz))"
proof (cases "sz = 0")
  case False
  let ?r = "unat (mm_align_size sz)"
  obtain bs' off where al: "blocks_alloc ?r bs = (bs', off)" by fastforce
  have "p = 0 \<longleftrightarrow> off = None"
    using kmalloc_refines [OF rel False al] call alloc_offset(2) [OF rel, of ?r bs'] al by (cases off) auto
  also have "\<dots> \<longleftrightarrow> first_fit ?r bs = None" using al by (auto simp: blocks_alloc_def split: option.splits)
  finally show ?thesis using False by (simp add: first_fit_None)
qed (use call in simp)

section \<open>Properties of heap.c\<close>

text \<open>C1. Whatever the clients do, every state of the heap is a well-formed block list that
  fills the array exactly, with no two adjacent free blocks; the payloads in use lie inside
  the array, a header apart from each other.\<close>

theorem heap_run_invariant:
  assumes "heap_run base ram s" "base \<noteq> 0" "unat base + init_capacity 65536 ram < 4294967296"
  shows "(\<exists>bs. heap_rel (init_capacity 65536 ram) s bs \<and> coalesced bs) \<and>
    (\<forall>(p, n) \<in> heap_regions (init_capacity 65536 ram) s. \<forall>(q, k) \<in> heap_regions (init_capacity 65536 ram) s.
       (p, n) = (q, k) \<or> p + n + 12 \<le> q \<or> q + k + 12 \<le> p)"
  using heap_run_ok [OF assms] heap_c.regions_apart by (fastforce simp: heap_ok_def)

theorem heap_run_invariant_witness:
  "\<exists>s p. heap_run 4096 0 s \<and> kmalloc boot_heap 16 = Some (s, p) \<and> (\<exists>bs. heap_rel 65536 s bs \<and> coalesced bs)"
proof -
  obtain m where k: "kmalloc boot_heap 16 = Some (boot_heap\<lparr>mem := m\<rparr>, 4108)"
    using boot_kmalloc by blast
  have run: "heap_run 4096 0 (boot_heap\<lparr>mem := m\<rparr>)"
    using run_kmalloc [OF boot k [unfolded boot_heap_def]] by (simp add: boot_heap_def)
  show ?thesis using heap_run_invariant [OF run] run k by (auto simp: init_capacity_def)
qed



text \<open>C4. \<open>kfree\<close> of a payload in use always returns, keeps the heap well-formed, removes exactly
  that payload and changes no byte of any payload.\<close>

theorem kfree_correct:
  assumes ok: "heap_ok cap s" and own: "(unat p, n) \<in> heap_regions cap s"
  shows "\<exists>s'. kfree s p = Some s' \<and> heap_ok cap s' \<and> heap_regions cap s' = heap_regions cap s - {(unat p, n)} \<and>
    (\<forall>q k x. (q, k) \<in> heap_regions cap s \<longrightarrow> q \<le> unat x \<longrightarrow> unat x < q + k \<longrightarrow> mem s' x = mem s x)"
  using heap_c.release_returns [OF assms] heap_c.release_bytes [OF assms] by blast

theorem kfree_correct_witness:
  "\<exists>s s'. kmalloc boot_heap 16 = Some (s, 4108) \<and> kfree s 4108 = Some s' \<and> heap_regions 65536 s' = {}"
proof -
  obtain m where k: "kmalloc boot_heap 16 = Some (boot_heap\<lparr>mem := m\<rparr>, 4108)"
    and rel: "heap_rel 65536 (boot_heap\<lparr>mem := m\<rparr>) [(16, True), (65496, False)]"
    using boot_kmalloc by blast
  have "heap_ok 65536 (boot_heap\<lparr>mem := m\<rparr>)" using rel by (auto simp: heap_ok_def)
  moreover have "heap_regions 65536 (boot_heap\<lparr>mem := m\<rparr>) = {(4108, 16)}"
    by (simp add: heap_regions_eq [OF rel])
  ultimately show ?thesis using kfree_correct [of 65536 "boot_heap\<lparr>mem := m\<rparr>" 4108 16] k by auto
qed

text \<open>Freeing what was just allocated restores the block list: splitting and coalescing
  cancel out, so a balanced sequence of calls never fragments the heap.\<close>

lemma kmalloc_kfree_roundtrip:
  assumes "heap_rel cap s bs" and "coalesced bs" and "kmalloc s sz = Some (s', p)" and "p \<noteq> 0"
  shows "\<exists>s''. kfree s' p = Some s'' \<and> heap_rel cap s'' bs"
  using assms by (rule heap_c.alloc_release_blocks)

text \<open>\<open>mm_align_size\<close> rounds up to the next multiple of eight, except that the last seven
  sizes below 2^32 wrap around to zero.\<close>

lemma mm_align_size_exact:
  "unat (mm_align_size sz) =
     (if sz = 0 then 8 else if unat sz \<le> 4294967288 then (unat sz + 7) div 8 * 8 else 0)"
proof (cases "sz = 0 \<or> unat sz \<le> 4294967288")
  case True
  then show ?thesis using mm_align_size_unat [of sz] by (auto simp: mm_align_size_def)
next
  case False
  have "unat (sz + 7) = (unat sz - 4294967289) mod 4294967296"
    using False by (simp add: unat_word_ariths le_mod_geq)
  also have "\<dots> \<le> unat sz - 4294967289" by (rule mod_less_eq_dividend)
  finally have "unat (sz + 7) < 8" using unat_u32_less [of sz] by linarith
  then show ?thesis using False by (simp add: mm_align_size_def unat_and_minus_8)
qed

end
