(* ===== verification/Mm_Malloc.thy ===== *)
theory Mm_Malloc
  imports Mm_Heap
begin

text \<open>
  \<open>mm/malloc.c\<close>, the larger allocator of the tree: the same block list in a 256 KiB array,
  the search loop of \<open>heap.c\<close> (without its unused \<open>prev\<close>), a \<open>kfree\<close> that merges
  with the next block before the previous one, and \<open>krealloc\<close>.
\<close>

definition malloc_HEAP_CAPACITY :: u32 where
  "malloc_HEAP_CAPACITY = 256 * 1024"

definition malloc_mem_init :: "heap \<Rightarrow> u32 \<Rightarrow> heap" where
  "malloc_mem_init s total_ram =
     (let capacity = malloc_HEAP_CAPACITY;
          capacity = (if total_ram \<noteq> 0 \<and> total_ram < capacity then total_ram else capacity);
          capacity = (if capacity < sizeof_block_t then sizeof_block_t else capacity);
          first = g_heap s;
          m = set_size (mem s) first (capacity - sizeof_block_t);
          m = set_used m first 0;
          m = set_next m first 0
      in s\<lparr>g_first_block := first, mem := m\<rparr>)"

definition malloc_kmalloc :: "heap \<Rightarrow> u32 \<Rightarrow> (heap \<times> u32) option" where
  "malloc_kmalloc s sz =
     (if sz = 0 then Some (s, 0)
      else do {
        let request = mm_align_size sz;
        (m, p) \<leftarrow> kmalloc_scan (mem s) request (g_first_block s);
        Some (s\<lparr>mem := m\<rparr>, p)
      })"

definition malloc_kfree :: "heap \<Rightarrow> u32 \<Rightarrow> heap option" where
  "malloc_kfree s ptr =
     (if ptr = 0 \<or> g_first_block s = 0 then Some s
      else do {
        let block = ptr - sizeof_block_t;
        let m = set_used (mem s) block 0;
        let m = merge_next m block;
        prev \<leftarrow> mm_find_previous_block m (g_first_block s) block;
        let m = (if prev \<noteq> 0 \<and> blk_used (load_block m prev) = 0
                 then absorb_block m prev block else m);
        Some (s\<lparr>mem := m\<rparr>)
      })"

text \<open>The three ways of \<open>krealloc\<close>: shrink in place, absorb the next block, move.\<close>

definition krealloc_shrink :: "mem \<Rightarrow> u32 \<Rightarrow> u32 \<Rightarrow> mem" where
  "krealloc_shrink m block request =
     (let leftover = blk_size (load_block m block) - request in
      if MIN_SPLIT_SIZE \<le> leftover then
        let split = block + sizeof_block_t + request;
            m = set_size m split (leftover - sizeof_block_t);
            m = set_used m split 0;
            m = set_next m split (blk_next (load_block m block));
            m = set_size m block request;
            m = set_next m block split
        in merge_next m split
      else m)"

definition krealloc_grow :: "mem \<Rightarrow> u32 \<Rightarrow> u32 \<Rightarrow> u32 \<Rightarrow> u32 \<Rightarrow> mem" where
  "krealloc_grow m block nxt combined request =
     (let leftover = combined - request in
      if MIN_SPLIT_SIZE \<le> leftover then
        let split = block + sizeof_block_t + request;
            m = set_size m split (leftover - sizeof_block_t);
            m = set_used m split 0;
            m = set_next m split (blk_next (load_block m nxt));
            m = set_size m block request;
            m = set_next m block split
        in m
      else
        let m = set_size m block combined;
            m = set_next m block (blk_next (load_block m nxt))
        in m)"

definition krealloc_move :: "heap \<Rightarrow> u32 \<Rightarrow> u32 \<Rightarrow> u32 \<Rightarrow> (heap \<times> u32) option" where
  "krealloc_move s ptr old_size new_size = do {
     (s, newptr) \<leftarrow> malloc_kmalloc s new_size;
     if newptr = 0 then Some (s, 0)
     else do {
       let copy_size = (if old_size < new_size then old_size else new_size);
       let s = s\<lparr>mem := copy_up (unat copy_size) (mem s) newptr ptr\<rparr>;
       s \<leftarrow> malloc_kfree s ptr;
       Some (s, newptr)
     }
   }"

definition krealloc :: "heap \<Rightarrow> u32 \<Rightarrow> u32 \<Rightarrow> (heap \<times> u32) option" where
  "krealloc s ptr new_size =
     (if ptr = 0 then malloc_kmalloc s new_size
      else if new_size = 0 then do { s \<leftarrow> malloc_kfree s ptr; Some (s, 0) }
      else
        let block = ptr - sizeof_block_t;
            old_size = blk_size (load_block (mem s) block);
            request = mm_align_size new_size
        in if request \<le> old_size then Some (s\<lparr>mem := krealloc_shrink (mem s) block request\<rparr>, ptr)
        else
          let nxt = blk_next (load_block (mem s) block) in
          if nxt \<noteq> 0 \<and> blk_used (load_block (mem s) nxt) = 0 then
            let combined = old_size + sizeof_block_t + blk_size (load_block (mem s) nxt) in
            if request \<le> combined
            then Some (s\<lparr>mem := krealloc_grow (mem s) block nxt combined request\<rparr>, ptr)
            else krealloc_move s ptr old_size new_size
          else krealloc_move s ptr old_size new_size)"

section \<open>kmalloc and kfree of malloc.c against those of heap.c\<close>

lemma malloc_kmalloc_eq: "malloc_kmalloc s sz = kmalloc s sz"
  by (simp add: malloc_kmalloc_def kmalloc_def)

lemma malloc_kfree_refines:
  assumes rel: "heap_rel cap s (xs @ (n, True) # ys)"
  shows "\<exists>m'. malloc_kfree s (of_nat (unat (g_heap s) + span xs + 12)) = Some (s\<lparr>mem := m'\<rparr>) \<and>
    heap_rel cap (s\<lparr>mem := m'\<rparr>) (blocks_free xs n ys) \<and>
    (\<forall>x p k. (p, k) \<in> live (unat (g_heap s)) (xs @ (n, True) # ys) \<longrightarrow>
       p \<le> unat x \<longrightarrow> unat x < p + k \<longrightarrow> m' x = mem s x)"
proof -
  let ?a = "unat (g_heap s)" and ?b = "unat (g_heap s) + span xs"
  have g: "g_heap s \<noteq> 0" "g_first_block s = g_heap s" "span (xs @ (n, True) # ys) = cap" "?a + cap < 4294967296"
    and s: "seg (mem s) ?a (xs @ (n, True) # ys) 0" using rel by (auto simp: heap_rel_def)
  have a: "0 < ?a" using g(1) by (simp add: unat_gt_0)
  have nz: "(of_nat (?b + 12) :: u32) \<noteq> 0" using g by (subst of_nat_u32_eq_0) auto
  have blk: "of_nat (?b + 12) - sizeof_block_t = (of_nat ?b :: u32)" by (simp add: sizeof_block_t_def)
  let ?m1 = "set_used (mem s) (of_nat ?b) 0"
  let ?m2 = "merge_next ?m1 (of_nat ?b)"
  have bd: "?a + span (xs @ (n, False) # ys) \<le> 4294967296" using g by simp
  have s1: "seg ?m1 ?a (xs @ (n, False) # ys) 0" using seg_set_used [OF s, of 0] bd by simp
  have s2: "seg ?m2 ?a (xs @ absorb_next n ys) 0" using merge_next_seg [OF s1 a bd] by simp
  obtain k zs where ab: "absorb_next n ys = (k, False) # zs"
    using absorb_next_head [of n ys] by blast
  have sp: "span (absorb_next n ys) = 12 + n + span ys" by simp
  have bd2: "?a + span (xs @ (k, False) # zs) \<le> 4294967296" using bd sp ab by simp
  have prev: "mm_find_previous_block ?m2 (g_heap s) (of_nat ?b) =
      Some (if xs = [] then 0 else of_nat (?a + span (butlast xs)))"
    using find_previous_block_seg [of ?m2 ?a xs k False zs] s2 ab a bd2 by simp
  have out2: "?m2 x = mem s x" if "unat x < ?b \<or> ?b + 12 \<le> unat x" for x
    using that bd by (simp add: merge_next_outside set_fields_flat del: of_nat_add)
  show ?thesis
  proof (cases "xs \<noteq> [] \<and> \<not> snd (last xs)")
    case True
    then obtain vs j where xs: "xs = vs @ [(j, False)]"
      by (metis append_butlast_last_id prod.collapse)
    let ?p = "?a + span vs"
    let ?m3 = "absorb_block ?m2 (of_nat ?p) (of_nat ?b)"
    have pz: "(of_nat ?p :: u32) \<noteq> 0" using g a by (subst of_nat_u32_eq_0) (auto simp: xs)
    have pu: "blk_used (load_block ?m2 (of_nat ?p)) = 0" using s2 by (simp add: xs seg_append)
    have "malloc_kfree s (of_nat (?b + 12)) = Some (s\<lparr>mem := ?m3\<rparr>)"
      using nz prev pz pu g(1,2) unfolding malloc_kfree_def blk by (simp add: xs Let_def)
    moreover have "seg ?m3 ?a (vs @ absorb_next (j + 12 + n) ys) 0"
      using absorb_block_seg [of ?m2 ?a vs j False k False zs 0] s2 ab bd2
      by (auto simp: xs add.assoc absorb_next_def split: list.splits bool.splits)
    moreover have "?m3 x = mem s x"
      if "(q, i) \<in> live ?a (xs @ (n, True) # ys)" "q \<le> unat x" "unat x < q + i" for x q i
    proof -
      have "unat x < ?p \<or> ?p + 12 \<le> unat x" "unat x < ?b \<or> ?b + 12 \<le> unat x"
        using live_outside_header [OF that, of vs "(j, False)"]
          live_outside_header [OF that, of xs] by (auto simp: xs)
      moreover have "?p + 12 \<le> 4294967296" using bd by (simp add: xs)
      ultimately show ?thesis by (simp add: out2 absorb_block_outside del: of_nat_add)
    qed
    ultimately show ?thesis using True g span_blocks_free [of xs n ys]
      by (intro exI [of _ ?m3]) (auto simp: heap_rel_def xs blocks_free_def)
  next
    case False
    have pu: "xs = [] \<or> blk_used (load_block ?m2 (of_nat (?a + span (butlast xs)))) \<noteq> 0"
    proof (cases "xs = []")
      case False
      then obtain vs j where xs: "xs = vs @ [(j, True)]"
        using \<open>\<not> (xs \<noteq> [] \<and> \<not> snd (last xs))\<close> by (metis append_butlast_last_id prod.collapse)
      show ?thesis using s2 by (simp add: xs seg_append)
    qed simp
    have "malloc_kfree s (of_nat (?b + 12)) = Some (s\<lparr>mem := ?m2\<rparr>)"
      using nz prev pu g(1,2) unfolding malloc_kfree_def blk by (auto simp: Let_def)
    moreover have "?m2 x = mem s x"
      if "(q, i) \<in> live ?a (xs @ (n, True) # ys)" "q \<le> unat x" "unat x < q + i" for x q i
      using live_outside_header [OF that, of xs] by (intro out2) auto
    ultimately show ?thesis using False g s2 span_blocks_free [of xs n ys]
      by (intro exI [of _ ?m2]) (auto simp: heap_rel_def blocks_free_def)
  qed
qed

interpretation malloc_c: block_heap cap malloc_kmalloc malloc_kfree for cap
  by (unfold_locales, unfold malloc_kmalloc_eq)
    (blast intro: kmalloc_zero kmalloc_full kmalloc_refines malloc_kfree_refines)+

section \<open>The initial heap\<close>

lemma malloc_mem_init_rel:
  assumes "g_heap s \<noteq> 0" "unat (g_heap s) + init_capacity 262144 ram < 4294967296"
  shows "heap_rel (init_capacity 262144 ram) (malloc_mem_init s ram) [(init_capacity 262144 ram - 12, False)]"
proof -
  define c where "c = (let capacity = (if ram \<noteq> 0 \<and> ram < malloc_HEAP_CAPACITY then ram else malloc_HEAP_CAPACITY)
    in if capacity < sizeof_block_t then sizeof_block_t else capacity)"
  have u: "unat c = init_capacity 262144 ram"
    using init_capacity_unat [of malloc_HEAP_CAPACITY ram] by (simp add: c_def malloc_HEAP_CAPACITY_def)
  have "malloc_mem_init s ram = \<lparr>g_heap = g_heap s, g_first_block = g_heap s,
      mem = set_next (set_used (set_size (mem s) (g_heap s) (c - sizeof_block_t)) (g_heap s) 0) (g_heap s) 0\<rparr>"
    by (simp add: malloc_mem_init_def c_def Let_def del: if_split)
  then show ?thesis
    using heap_rel_init [of "g_heap s" c "mem s"] assms u by (auto simp: init_capacity_def)
qed

section \<open>krealloc in place\<close>

text \<open>The writes that cut a block at \<open>b\<close> into one of \<open>r\<close> bytes and a free one.\<close>

definition split_at :: "mem \<Rightarrow> nat \<Rightarrow> nat \<Rightarrow> u32 \<Rightarrow> u32 \<Rightarrow> mem" where
  "split_at m b r k t =
     (let c = of_nat (b + 12 + r) in
      set_next (set_size (set_next (set_used (set_size m c k) c 0) c t) (of_nat b) (of_nat r)) (of_nat b) c)"

lemma split_at_seg:
  assumes "b + 12 + r + 12 + k \<le> 4294967296" "(blk_used (load_block m (of_nat b)) \<noteq> 0) = u"
  shows "seg (split_at m b r (of_nat k) t) b [(r, u), (k, False)] t"
proof -
  let ?m = "split_at m b r (of_nat k) t" and ?c = "b + 12 + r"
  have b: "b + 12 \<le> 4294967296" "?c + 12 \<le> 4294967296" "b + 12 \<le> ?c \<or> ?c + 12 \<le> b"
    using assms by auto
  have "load_block ?m (of_nat b) = (load_block m (of_nat b))\<lparr>blk_size := of_nat r, blk_next := of_nat ?c\<rparr>"
    using b by (simp add: split_at_def Let_def load_block_other del: of_nat_add)
  moreover have "load_block ?m (of_nat ?c) = \<lparr>blk_size = of_nat k, blk_used = 0, blk_next = t\<rparr>"
    using b by (simp add: split_at_def Let_def load_block_other del: of_nat_add)
  ultimately show ?thesis using assms by (simp add: unat_of_nat_u32 del: of_nat_add)
qed

lemma split_at_outside:
  assumes "b + 12 + r + 12 \<le> 4294967296" "unat x < b \<or> b + 12 \<le> unat x"
    "unat x < b + 12 + r \<or> b + 12 + r + 12 \<le> unat x"
  shows "split_at m b r k t x = m x"
  using assms by (simp add: split_at_def Let_def set_fields_flat del: of_nat_add)

definition blocks_shrink :: "nat \<Rightarrow> nat \<Rightarrow> blocks \<Rightarrow> blocks" where
  "blocks_shrink r n ys =
     (if 28 \<le> n - r then (r, True) # absorb_next (n - r - 12) ys else (n, True) # ys)"

lemma min_split_test:
  assumes "r \<le> n" "n < 4294967296"
  shows "MIN_SPLIT_SIZE \<le> of_nat n - of_nat r \<longleftrightarrow> 28 \<le> n - r"
proof -
  have left: "(of_nat n :: u32) - of_nat r = of_nat (n - r)" using assms by simp
  show ?thesis using assms unfolding left
    by (simp add: MIN_SPLIT_SIZE_def sizeof_block_t_def word_le_nat_alt unat_of_nat_u32 del: of_nat_diff)
qed

lemma krealloc_shrink_eq:
  assumes "blk_size (load_block m (of_nat b)) = of_nat n" "r \<le> n" "b + 12 + n \<le> 4294967296"
  shows "krealloc_shrink m (of_nat b) (of_nat r) =
    (if 28 \<le> n - r
     then merge_next (split_at m b r (of_nat (n - r - 12)) (blk_next (load_block m (of_nat b)))) (of_nat (b + 12 + r))
     else m)"
proof (cases "28 \<le> n - r")
  case True
  have c: "of_nat b + sizeof_block_t + of_nat r = (of_nat (b + 12 + r) :: u32)"
    and l: "of_nat n - of_nat r - sizeof_block_t = (of_nat (n - r - 12) :: u32)"
    using True assms by (simp_all add: sizeof_block_t_def)
  have b: "b + 12 \<le> 4294967296" "b + 12 + r + 12 \<le> 4294967296" "b + 12 \<le> b + 12 + r"
    using assms True by auto
  then show ?thesis
    using assms True min_split_test [of r n] l
    by (simp add: krealloc_shrink_def Let_def c split_at_def load_block_other del: of_nat_add of_nat_diff)
next
  case False
  then show ?thesis using assms min_split_test [of r n] by (simp add: krealloc_shrink_def Let_def)
qed

lemma krealloc_shrink_refines:
  assumes rel: "heap_rel cap s (xs @ (n, True) # ys)" and r: "r \<le> n"
  defines "b \<equiv> unat (g_heap s) + span xs"
  defines "m' \<equiv> krealloc_shrink (mem s) (of_nat b) (of_nat r)"
  shows "heap_rel cap (s\<lparr>mem := m'\<rparr>) (xs @ blocks_shrink r n ys)"
    and "unat x < b \<or> b + 12 \<le> unat x \<and> unat x < b + 12 + r \<or> b + 12 + n \<le> unat x \<Longrightarrow> m' x = mem s x"
proof -
  let ?a = "unat (g_heap s)" and ?t = "if ys = [] then 0 else of_nat (b + 12 + n)"
  have g: "g_heap s \<noteq> 0" "g_first_block s = g_heap s" "span (xs @ (n, True) # ys) = cap" "?a + cap < 4294967296"
    and s: "seg (mem s) ?a (xs @ [(n, True)] @ ys) 0" using rel by (auto simp: heap_rel_def)
  have bd: "b + 12 + n + span ys < 4294967296" using g by (simp add: b_def)
  have one: "seg (mem s) b [(n, True)] ?t" using s by (auto simp: seg_append b_def)
  have m': "m' = (if 28 \<le> n - r then merge_next (split_at (mem s) b r (of_nat (n - r - 12)) ?t) (of_nat (b + 12 + r)) else mem s)"
  proof -
    have sz: "blk_size (load_block (mem s) (of_nat b)) = of_nat n" using one by auto
    have "blk_next (load_block (mem s) (of_nat b)) = ?t" using one by simp
    then show ?thesis unfolding m'_def using krealloc_shrink_eq [OF sz r] bd by simp
  qed
  show "m' x = mem s x" if "unat x < b \<or> b + 12 \<le> unat x \<and> unat x < b + 12 + r \<or> b + 12 + n \<le> unat x"
  proof (cases "28 \<le> n - r")
    case True
    with that have "unat x < b \<or> b + 12 \<le> unat x" "unat x < b + 12 + r \<or> b + 12 + r + 12 \<le> unat x"
      by auto
    moreover have "b + 12 + r + 12 \<le> 4294967296" using True bd by simp
    ultimately show ?thesis
      unfolding m' by (simp add: merge_next_outside split_at_outside del: of_nat_add)
  qed (simp add: m')
  show "heap_rel cap (s\<lparr>mem := m'\<rparr>) (xs @ blocks_shrink r n ys)"
  proof (cases "28 \<le> n - r")
    case True
    let ?m = "split_at (mem s) b r (of_nat (n - r - 12)) ?t"
    have "seg ?m ?a (xs @ [(r, True), (n - r - 12, False)] @ ys) 0"
    proof (rule seg_replace [OF s])
      show "seg ?m (?a + span xs) [(r, True), (n - r - 12, False)]
          (if ys = [] then 0 else of_nat (?a + span xs + span [(n, True)]))"
        using split_at_seg [of b r "n - r - 12" "mem s" True ?t] True bd one
        by (cases "ys = []") (auto simp: b_def add.assoc simp del: of_nat_diff)
      show "?m x = mem s x" if "unat x < ?a + span xs \<or> ?a + span xs + span [(n, True)] \<le> unat x" for x
        using that True bd by (intro split_at_outside) (auto simp: b_def)
    qed (use True bd g in auto)
    then have "seg m' ?a ((xs @ [(r, True)]) @ absorb_next (n - r - 12) ys) 0"
      using merge_next_seg [of ?m ?a "xs @ [(r, True)]" "n - r - 12" ys] True g bd
      unfolding m' by (simp add: b_def unat_gt_0 add.assoc del: of_nat_diff)
    then show ?thesis using g True by (simp add: heap_rel_def blocks_shrink_def)
  next
    case False
    then show ?thesis using rel by (simp add: m' blocks_shrink_def)
  qed
qed

lemma krealloc_grow_refines:
  assumes rel: "heap_rel cap s (xs @ (n, True) # (k, False) # ys)"
    and r: "n + 12 \<le> r" "r \<le> n + 12 + k"
  defines "b \<equiv> unat (g_heap s) + span xs"
  defines "m' \<equiv> krealloc_grow (mem s) (of_nat b) (of_nat (b + 12 + n)) (of_nat (n + 12 + k)) (of_nat r)"
  shows "heap_rel cap (s\<lparr>mem := m'\<rparr>) (xs @ carve r (n + 12 + k) @ ys)"
    and "unat x < b \<or> b + 12 \<le> unat x \<and> unat x < b + 12 + n \<or> b + 12 + n + 12 + k \<le> unat x \<Longrightarrow>
      m' x = mem s x"
proof -
  let ?a = "unat (g_heap s)" and ?N = "n + 12 + k" and ?q = "b + 12 + n"
  let ?t = "if ys = [] then 0 else of_nat (?q + 12 + k)"
  have g: "g_heap s \<noteq> 0" "g_first_block s = g_heap s"
    "span (xs @ (n, True) # (k, False) # ys) = cap" "?a + cap < 4294967296"
    and s: "seg (mem s) ?a (xs @ [(n, True), (k, False)] @ ys) 0" using rel by (auto simp: heap_rel_def)
  have bd: "b + 12 + ?N + span ys < 4294967296" using g by (simp add: b_def)
  have two: "seg (mem s) b [(n, True), (k, False)] ?t"
    using s by (cases "ys = []") (auto simp: seg_append b_def add.assoc)
  have nx: "blk_next (load_block (mem s) (of_nat ?q)) = ?t" using two by simp
  have us: "blk_used (load_block (mem s) (of_nat b)) \<noteq> 0" using two by simp
  have test: "MIN_SPLIT_SIZE \<le> (of_nat ?N :: u32) - of_nat r \<longleftrightarrow> 28 \<le> ?N - r"
    using r bd by (intro min_split_test) auto
  have c: "of_nat b + sizeof_block_t + of_nat r = (of_nat (b + 12 + r) :: u32)"
    by (simp add: sizeof_block_t_def)
  have m': "m' = (if 28 \<le> ?N - r then split_at (mem s) b r (of_nat (?N - r - 12)) ?t
     else set_next (set_size (mem s) (of_nat b) (of_nat ?N)) (of_nat b) ?t)"
  proof (cases "28 \<le> ?N - r")
    case True
    have l: "of_nat ?N - of_nat r - sizeof_block_t = (of_nat (?N - r - 12) :: u32)"
      using True r by (simp add: sizeof_block_t_def)
    have "?q + 12 \<le> 4294967296" "b + 12 + r + 12 \<le> 4294967296" "?q + 12 \<le> b + 12 + r"
      using r bd True by auto
    then show ?thesis
      using True test nx unfolding m'_def krealloc_grow_def Let_def c l split_at_def
      by (simp add: load_block_other del: of_nat_add of_nat_diff)
  next
    case False
    have "b + 12 \<le> 4294967296" "?q + 12 \<le> 4294967296" "b + 12 \<le> ?q" using bd by auto
    then show ?thesis using False test nx unfolding m'_def krealloc_grow_def Let_def
      by (simp add: load_block_other del: of_nat_add)
  qed
  show out: "m' x = mem s x" if "unat x < b \<or> b + 12 \<le> unat x \<and> unat x < ?q \<or> ?q + 12 + k \<le> unat x" for x
  proof (cases "28 \<le> ?N - r")
    case True
    with that r have "unat x < b \<or> b + 12 \<le> unat x" "unat x < b + 12 + r \<or> b + 12 + r + 12 \<le> unat x"
      by auto
    moreover have "b + 12 + r + 12 \<le> 4294967296" using True r bd by simp
    ultimately show ?thesis using True unfolding m' by (simp add: split_at_outside)
  next
    case False
    with that bd show ?thesis unfolding m' by (auto simp: set_fields_flat simp del: of_nat_add)
  qed
  have "seg m' ?a (xs @ carve r ?N @ ys) 0"
  proof (rule seg_replace [OF s])
    have "seg m' b (carve r ?N) ?t"
    proof (cases "28 \<le> ?N - r")
      case True
      then show ?thesis
        using split_at_seg [of b r "?N - r - 12" "mem s" True ?t] r bd us by (simp add: m' carve_def del: of_nat_diff)
    next
      case False
      then show ?thesis using us bd by (simp add: m' carve_def unat_of_nat_u32 del: of_nat_add)
    qed
    then show "seg m' (?a + span xs) (carve r ?N) (if ys = [] then 0 else of_nat (?a + span xs + span [(n, True), (k, False)]))"
      by (cases "ys = []") (simp_all add: b_def add.assoc)
  qed (use r bd g out in \<open>auto simp: span_carve b_def carve_def\<close>)
  then show "heap_rel cap (s\<lparr>mem := m'\<rparr>) (xs @ carve r ?N @ ys)"
    using g r by (simp add: heap_rel_def span_carve carve_def)
qed

section \<open>Moving an allocation\<close>

context allocator
begin

lemma move:
  assumes ok: "ok s" and own: "(unat p, n) \<in> regions s" and call: "alloc s sz = Some (s1, q)" "q \<noteq> 0"
    and len: "len \<le> n" "len \<le> unat (mm_align_size sz)"
  shows "\<exists>s2 k. release (s1\<lparr>mem := copy_up len (mem s1) q p\<rparr>) p = Some s2 \<and> ok s2 \<and>
    unat (mm_align_size sz) \<le> k \<and> regions s2 = insert (unat q, k) (regions s - {(unat p, n)}) \<and>
    (\<forall>i < len. mem s2 (q + of_nat i) = mem s (p + of_nat i)) \<and>
    (\<forall>a j x. (a, j) \<in> regions s \<longrightarrow> a \<le> unat x \<longrightarrow> unat x < a + j \<longrightarrow> mem s2 x = mem s x)"
proof -
  obtain k where k: "unat (mm_align_size sz) \<le> k" and r1: "regions s1 = insert (unat q, k) (regions s)"
    and apart: "\<forall>(a, j) \<in> regions s. a + j + 12 \<le> unat q \<or> unat q + k + 12 \<le> a"
    using alloc_region [OF ok call] by blast
  have ok1: "ok s1" using alloc_ok [OF ok call(1)] .
  have bd: "unat q + k < 4294967296" "unat p + n < 4294967296"
    using regions_bound [OF ok1, of "unat q" k] regions_bound [OF ok own] r1 by auto
  have pq: "unat p + n + 12 \<le> unat q \<or> unat q + k + 12 \<le> unat p" using apart own by auto
  let ?m = "copy_up len (mem s1) q p"
  have inq: "in_region q len x \<longleftrightarrow> unat q \<le> unat x \<and> unat x < unat q + len" for x
    using bd len k by (intro in_region_flat) auto
  have inp: "in_region p len x \<longleftrightarrow> unat p \<le> unat x \<and> unat x < unat p + len" for x
    using bd len by (intro in_region_flat) auto
  have m: "?m x = (if in_region q len x then mem s1 (p + (x - q)) else mem s1 x)" for x
    using bd len pq k by (intro copy_up_apply) (auto simp: inp inq)
  let ?s = "s1\<lparr>mem := ?m\<rparr>"
  have w: "ok ?s \<and> regions ?s = regions s1"
    using len k by (intro write_region [OF ok1, of "unat q" k]) (auto simp: r1 m inq)
  obtain s2 where s2: "release ?s p = Some s2" "ok s2" "regions s2 = regions s1 - {(unat p, n)}"
    using release_returns [of ?s p n] w own r1 by auto
  have keep: "mem s2 x = ?m x" if "(a, j) \<in> regions s1" "a \<le> unat x" "unat x < a + j" for a j x
    using release_bytes [OF _ _ s2(1) _ that(2,3)] w own r1 that(1) by auto
  have "mem s2 (q + of_nat i) = mem s (p + of_nat i)" if "i < len" for i
  proof -
    have "unat (q + of_nat i) = unat q + i" "unat (p + of_nat i) = unat p + i"
      using that bd len k by (auto simp: unat_word_ariths unat_of_nat take_bit_eq_mod)
    then show ?thesis
      using keep [of "unat q" k "q + of_nat i"] that len k r1 alloc_bytes [OF ok call(1) own, of "p + of_nat i"]
      by (simp add: m inq)
  qed
  moreover have "mem s2 x = mem s x" if "(a, j) \<in> regions s" "a \<le> unat x" "unat x < a + j" for a j x
    using keep [of a j x] alloc_bytes [OF ok call(1) that] apart that r1 k len by (fastforce simp: m inq)
  moreover have "regions s2 = insert (unat q, k) (regions s - {(unat p, n)})"
    using s2(3) r1 pq by auto
  ultimately show ?thesis using s2 k by blast
qed

end

section \<open>krealloc\<close>

text \<open>What a successful \<open>krealloc\<close> owes its caller: a well-formed heap in which the new
  payload replaces the old one and is long enough, the bytes both have in common, and the
  bytes of everybody else.\<close>

definition realloc_done :: "nat \<Rightarrow> heap \<Rightarrow> u32 \<Rightarrow> nat \<Rightarrow> u32 \<Rightarrow> heap \<Rightarrow> u32 \<Rightarrow> bool" where
  "realloc_done cap s ptr n new_size s' p \<longleftrightarrow>
     heap_ok cap s' \<and>
     (\<exists>k \<ge> unat new_size. heap_regions cap s' = insert (unat p, k) (heap_regions cap s - {(unat ptr, n)})) \<and>
     (\<forall>i < min n (unat new_size). mem s' (p + of_nat i) = mem s (ptr + of_nat i)) \<and>
     (\<forall>q k x. (q, k) \<in> heap_regions cap s - {(unat ptr, n)} \<longrightarrow> q \<le> unat x \<longrightarrow> unat x < q + k \<longrightarrow>
        mem s' x = mem s x)"

lemma realloc_in_place:
  assumes rel: "heap_rel cap s (xs @ (n, True) # ys)"
    and rel': "heap_rel cap (s\<lparr>mem := m'\<rparr>) (xs @ (k, True) # zs)"
  defines "b \<equiv> unat (g_heap s) + span xs"
  assumes ptr: "unat ptr = b + 12"
    and live: "live (b + 12 + k) zs = live (b + 12 + n) ys"
    and co: "coalesced (xs @ (k, True) # zs)" and k: "unat new_size \<le> k"
    and out: "\<And>x. unat x < b \<or> b + 12 \<le> unat x \<and> unat x < b + 12 + min n (unat new_size) \<or> e \<le> unat x \<Longrightarrow>
      m' x = mem s x"
    and e: "\<And>q j. (q, j) \<in> live (b + 12 + n) ys \<Longrightarrow> e \<le> q"
  shows "realloc_done cap s ptr n new_size (s\<lparr>mem := m'\<rparr>) ptr"
proof -
  let ?a = "unat (g_heap s)"
  have bd: "b + 12 + n + span ys < 4294967296" using rel by (auto simp: heap_rel_def b_def)
  have xs: "q + j \<le> b" if "(q, j) \<in> live ?a xs" for q j
    using live_bounds [OF that] by (simp add: b_def)
  have ys: "b + 12 + n + 12 \<le> q" if "(q, j) \<in> live (b + 12 + n) ys" for q j
    using live_bounds [OF that] by (simp add: b_def)
  have regs: "heap_regions cap s = insert (unat ptr, n) (live ?a xs \<union> live (b + 12 + n) ys)"
    using ptr by (auto simp: heap_regions_eq [OF rel] add.assoc b_def)
  have others: "heap_regions cap s - {(unat ptr, n)} = live ?a xs \<union> live (b + 12 + n) ys"
    using xs ys ptr by (fastforce simp: regs)
  have "heap_regions cap (s\<lparr>mem := m'\<rparr>) = insert (unat ptr, k) (live ?a xs \<union> live (b + 12 + n) ys)"
    using ptr live by (auto simp: heap_regions_eq [OF rel'] add.assoc b_def)
  moreover have "m' (ptr + of_nat i) = mem s (ptr + of_nat i)" if "i < min n (unat new_size)" for i
  proof -
    have "unat (ptr + of_nat i) = b + 12 + i"
      using that bd ptr by (auto simp: unat_word_ariths unat_of_nat take_bit_eq_mod)
    then show ?thesis using that by (intro out) auto
  qed
  moreover have "m' x = mem s x"
    if "(q, j) \<in> live ?a xs \<union> live (b + 12 + n) ys" "q \<le> unat x" "unat x < q + j" for q j x
    using that xs [of q j] e [of q j] by (intro out) auto
  moreover have "heap_ok cap (s\<lparr>mem := m'\<rparr>)" using rel' co by (auto simp: heap_ok_def)
  ultimately show ?thesis
    using k unfolding realloc_done_def others by (simp) blast
qed

lemma coalesced_blocks_shrink:
  assumes "coalesced (xs @ (n, True) # ys)"
  shows "coalesced (xs @ blocks_shrink r n ys)"
  using assms
  by (auto simp: blocks_shrink_def absorb_next_def successively_append_iff successively_Cons
      split: list.splits bool.splits)

lemma coalesced_carve_grow:
  assumes "coalesced (xs @ (n, True) # (k, False) # ys)"
  shows "coalesced (xs @ carve r N @ ys)"
  using assms by (auto simp: carve_def successively_append_iff successively_Cons)

lemma krealloc_shrink_done:
  assumes rel: "heap_rel cap s (xs @ (n, True) # ys)" and co: "coalesced (xs @ (n, True) # ys)"
    and ptr: "unat ptr = unat (g_heap s) + span xs + 12"
    and r: "unat (mm_align_size new_size) \<le> n" "unat new_size \<le> unat (mm_align_size new_size)"
  shows "realloc_done cap s ptr n new_size
    (s\<lparr>mem := krealloc_shrink (mem s) (of_nat (unat (g_heap s) + span xs)) (mm_align_size new_size)\<rparr>) ptr"
proof -
  let ?r = "unat (mm_align_size new_size)" and ?b = "unat (g_heap s) + span xs"
  note sh = krealloc_shrink_refines [OF rel r(1)]
  let ?k = "if 28 \<le> n - ?r then ?r else n"
  let ?zs = "if 28 \<le> n - ?r then absorb_next (n - ?r - 12) ys else ys"
  have bs: "blocks_shrink ?r n ys = (?k, True) # ?zs" by (simp add: blocks_shrink_def)
  show ?thesis
  proof (rule realloc_in_place [OF rel _ ptr])
    show "live (?b + 12 + ?k) ?zs = live (?b + 12 + n) ys" using r by (simp add: add.assoc)
    show "coalesced (xs @ (?k, True) # ?zs)" using coalesced_blocks_shrink [OF co, of ?r] bs by simp
    show "?b + 12 + n \<le> q" if "(q, j) \<in> live (?b + 12 + n) ys" for q j
      using live_bounds [OF that] by simp
  qed (use sh bs r in auto)
qed

lemma krealloc_grow_done:
  assumes rel: "heap_rel cap s (xs @ (n, True) # (k, False) # ys)"
    and co: "coalesced (xs @ (n, True) # (k, False) # ys)"
    and ptr: "unat ptr = unat (g_heap s) + span xs + 12"
    and r: "n + 12 \<le> unat (mm_align_size new_size)" "unat (mm_align_size new_size) \<le> n + 12 + k"
      "unat new_size \<le> unat (mm_align_size new_size)"
  defines "b \<equiv> unat (g_heap s) + span xs"
  shows "realloc_done cap s ptr n new_size (s\<lparr>mem := krealloc_grow (mem s) (of_nat b) (of_nat (b + 12 + n))
    (of_nat (n + 12 + k)) (mm_align_size new_size)\<rparr>) ptr"
proof -
  let ?r = "unat (mm_align_size new_size)" and ?N = "n + 12 + k"
  let ?m = "krealloc_grow (mem s) (of_nat b) (of_nat (b + 12 + n)) (of_nat ?N) (mm_align_size new_size)"
  have gr: "heap_rel cap (s\<lparr>mem := ?m\<rparr>) (xs @ carve ?r ?N @ ys)"
    "unat x < b \<or> b + 12 \<le> unat x \<and> unat x < b + 12 + n \<or> b + 12 + n + 12 + k \<le> unat x \<Longrightarrow> ?m x = mem s x" for x
    using krealloc_grow_refines [OF rel r(1,2)] by (simp_all add: b_def del: of_nat_add)
  let ?k = "if 28 \<le> ?N - ?r then ?r else ?N"
  let ?zs = "if 28 \<le> ?N - ?r then (?N - ?r - 12, False) # ys else ys"
  have bs: "carve ?r ?N @ ys = (?k, True) # ?zs" by (simp add: carve_def)
  show ?thesis
  proof (rule realloc_in_place [OF rel _ ptr])
    show "live (unat (g_heap s) + span xs + 12 + ?k) ?zs =
        live (unat (g_heap s) + span xs + 12 + n) ((k, False) # ys)"
      using r by (simp add: add.assoc)
    show "coalesced (xs @ (?k, True) # ?zs)" using coalesced_carve_grow [OF co, of ?r ?N] bs by simp
    show "b + 12 + n + 12 + k \<le> q"
      if "(q, j) \<in> live (unat (g_heap s) + span xs + 12 + n) ((k, False) # ys)" for q j
      using that live_bounds [of q j _ ys] by (fastforce simp: b_def)
    show "?m x = mem s x" if "unat x < unat (g_heap s) + span xs \<or>
        unat (g_heap s) + span xs + 12 \<le> unat x \<and>
          unat x < unat (g_heap s) + span xs + 12 + min n (unat new_size) \<or>
        b + 12 + n + 12 + k \<le> unat x" for x
      using that by (intro gr(2)) (auto simp: b_def)
  qed (use gr(1) bs r in auto)
qed

lemma krealloc_move_done:
  assumes ok: "heap_ok cap s" and own: "(unat ptr, unat old) \<in> heap_regions cap s"
    and "unat new_size \<le> unat (mm_align_size new_size)"
  shows "\<exists>s' p. krealloc_move s ptr old new_size = Some (s', p) \<and>
    (if p = 0 then s' = s else realloc_done cap s ptr (unat old) new_size s' p)"
proof -
  obtain s1 q where call: "malloc_kmalloc s new_size = Some (s1, q)"
    using malloc_c.alloc_returns [OF ok] by blast
  show ?thesis
  proof (cases "q = 0")
    case True
    then show ?thesis using call malloc_c.alloc_null [OF ok] by (auto simp: krealloc_move_def)
  next
    case False
    let ?len = "unat (if old < new_size then old else new_size)"
    have len: "?len = min (unat old) (unat new_size)" by (simp add: word_less_nat_alt)
    have le: "?len \<le> unat old" "?len \<le> unat (mm_align_size new_size)"
      using assms(3) unfolding len by auto
    obtain s2 k where "malloc_kfree (s1\<lparr>mem := copy_up ?len (mem s1) q ptr\<rparr>) ptr = Some s2"
      and post: "heap_ok cap s2" "unat (mm_align_size new_size) \<le> k"
        "heap_regions cap s2 = insert (unat q, k) (heap_regions cap s - {(unat ptr, unat old)})"
        "\<forall>i < ?len. mem s2 (q + of_nat i) = mem s (ptr + of_nat i)"
        "\<forall>a j x. (a, j) \<in> heap_regions cap s \<longrightarrow> a \<le> unat x \<longrightarrow> unat x < a + j \<longrightarrow> mem s2 x = mem s x"
      using malloc_c.move [OF ok own call False le] by blast
    then have "krealloc_move s ptr old new_size = Some (s2, q)"
      using call False by (simp add: krealloc_move_def Let_def)
    moreover have "realloc_done cap s ptr (unat old) new_size s2 q"
      using post assms(3) unfolding realloc_done_def len by (auto intro: le_trans)
    ultimately show ?thesis using False by auto
  qed
qed

lemma owned_block:
  assumes "heap_ok cap s" "(unat ptr, n) \<in> heap_regions cap s"
  obtains xs ys where "heap_rel cap s (xs @ (n, True) # ys)" "coalesced (xs @ (n, True) # ys)"
    "unat ptr = unat (g_heap s) + span xs + 12"
proof -
  obtain bs where rel: "heap_rel cap s bs" and co: "coalesced bs" using assms by (auto simp: heap_ok_def)
  then show thesis using that assms(2) live_split by (metis heap_regions_eq [OF rel])
qed

lemma heap_rel_block:
  assumes rel: "heap_rel cap s (xs @ (n, u) # ys)"
  defines "b \<equiv> unat (g_heap s) + span xs"
  shows "(of_nat b :: u32) \<noteq> 0" and "unat (blk_size (load_block (mem s) (of_nat b))) = n"
    and "blk_used (load_block (mem s) (of_nat b)) = 0 \<longleftrightarrow> \<not> u"
    and "blk_next (load_block (mem s) (of_nat b)) = (if ys = [] then 0 else of_nat (b + 12 + n))"
    and "b + 12 + n + span ys < 4294967296"
proof -
  have "seg (mem s) b ((n, u) # ys) 0" "0 < unat (g_heap s)"
    and "unat (g_heap s) + span (xs @ (n, u) # ys) < 4294967296"
    using rel by (auto simp: heap_rel_def seg_append b_def unat_gt_0 simp del: seg.simps(2))
  then show "(of_nat b :: u32) \<noteq> 0" and "unat (blk_size (load_block (mem s) (of_nat b))) = n"
    and "blk_used (load_block (mem s) (of_nat b)) = 0 \<longleftrightarrow> \<not> u"
    and "blk_next (load_block (mem s) (of_nat b)) = (if ys = [] then 0 else of_nat (b + 12 + n))"
    and "b + 12 + n + span ys < 4294967296"
    by (auto simp: b_def of_nat_u32_eq_0 simp del: of_nat_add)
qed

text \<open>Which of the three ways a call takes, by what follows the block.\<close>

lemma krealloc_paths:
  assumes rel: "heap_rel cap s (xs @ (n, True) # ys)"
    and ptr: "unat ptr = unat (g_heap s) + span xs + 12" and sz: "new_size \<noteq> 0"
  defines "b \<equiv> unat (g_heap s) + span xs"
  shows "unat (mm_align_size new_size) \<le> n \<Longrightarrow> krealloc s ptr new_size =
      Some (s\<lparr>mem := krealloc_shrink (mem s) (of_nat b) (mm_align_size new_size)\<rparr>, ptr)" (is "?r \<le> n \<Longrightarrow> ?shrink")
    and "n < unat (mm_align_size new_size) \<Longrightarrow> ys = (k, False) # zs \<Longrightarrow>
      unat (mm_align_size new_size) \<le> n + 12 + k \<Longrightarrow> krealloc s ptr new_size =
      Some (s\<lparr>mem := krealloc_grow (mem s) (of_nat b) (of_nat (b + 12 + n)) (of_nat (n + 12 + k))
                       (mm_align_size new_size)\<rparr>, ptr)" (is "_ \<Longrightarrow> _ \<Longrightarrow> _ \<Longrightarrow> ?grow")
    and "n < unat (mm_align_size new_size) \<Longrightarrow>
      (\<And>k zs. ys = (k, False) # zs \<Longrightarrow> n + 12 + k < unat (mm_align_size new_size)) \<Longrightarrow>
      krealloc s ptr new_size = krealloc_move s ptr (of_nat n) new_size" (is "_ \<Longrightarrow> PROP _ \<Longrightarrow> ?move")
proof -
  note blk = heap_rel_block [OF rel, folded b_def]
  have "ptr = of_nat (b + 12)" using ptr by (simp add: b_def flip: ptr)
  then have p: "ptr - sizeof_block_t = of_nat b" "ptr \<noteq> 0"
    using ptr by (auto simp: sizeof_block_t_def)
  have old: "blk_size (load_block (mem s) (of_nat b)) = of_nat n" using blk(2) by auto
  have n: "unat (of_nat n :: u32) = n" using blk(2,5) by (intro unat_of_nat_u32) auto
  show ?shrink if "?r \<le> n"
    using that p sz n by (simp add: krealloc_def Let_def word_le_nat_alt old)
  have comb: "of_nat n + sizeof_block_t + blk_size (load_block (mem s) (of_nat (b + 12 + n))) = (of_nat (n + 12 + k) :: u32)"
    "unat (of_nat (n + 12 + k) :: u32) = n + 12 + k"
    "blk_used (load_block (mem s) (of_nat (b + 12 + n))) = 0 \<longleftrightarrow> \<not> u"
    "(of_nat (b + 12 + n) :: u32) \<noteq> 0"
    if "ys = (k, u) # zs" for k u zs
  proof -
    note nx = heap_rel_block [of cap s "xs @ [(n, True)]" k u zs]
    have q: "unat (g_heap s) + span (xs @ [(n, True)]) = b + 12 + n" by (simp add: b_def)
    have r': "heap_rel cap s ((xs @ [(n, True)]) @ (k, u) # zs)" using rel that by simp
    have "blk_size (load_block (mem s) (of_nat (b + 12 + n))) = of_nat k"
      using nx(2) [OF r', unfolded q] by auto
    then show "of_nat n + sizeof_block_t + blk_size (load_block (mem s) (of_nat (b + 12 + n))) = (of_nat (n + 12 + k) :: u32)"
      by (simp add: sizeof_block_t_def)
    show "unat (of_nat (n + 12 + k) :: u32) = n + 12 + k"
      using nx(5) [OF r', unfolded q] by (intro unat_of_nat_u32) auto
  qed (use heap_rel_block [of cap s "xs @ [(n, True)]" k u zs] rel that in
        \<open>simp_all add: b_def add.assoc del: of_nat_add\<close>)
  show ?grow if "n < ?r" "ys = (k, False) # zs" "?r \<le> n + 12 + k"
    using that p sz n blk(4) comb [of k False zs]
    by (simp add: krealloc_def Let_def word_le_nat_alt old del: of_nat_add)
  show ?move if "n < ?r" "\<And>k zs. ys = (k, False) # zs \<Longrightarrow> n + 12 + k < ?r"
  proof (cases ys)
    case (Cons y zs)
    obtain k u where y: "y = (k, u)" by fastforce
    show ?thesis using that(1) that(2) [of k zs] p sz n blk(4) comb [of k u zs] Cons y
      by (cases u) (auto simp: krealloc_def Let_def word_le_nat_alt old simp del: of_nat_add)
  qed (use that(1) p sz n blk(4) in \<open>simp add: krealloc_def Let_def word_le_nat_alt old\<close>)
qed

section \<open>Growing by less than a header\<close>

text \<open>When the grown payload ends inside the header of the free block it absorbs, the header
  of the remainder is written over that header before its \<open>next\<close> field is read.\<close>

lemma seg_prefix:
  assumes "seg m a xs (of_nat (a + span xs))" "seg m a bs 0" "bs \<noteq> []" "a + span xs < 4294967296" "0 < a"
  shows "\<exists>zs. bs = xs @ zs \<and> zs \<noteq> [] \<and> seg m (a + span xs) zs 0"
  using assms
proof (induction xs arbitrary: a bs)
  case (Cons x xs)
  obtain n u where x: "x = (n, u)" by fastforce
  obtain y zs where bs: "bs = y # zs" using Cons.prems(3) by (cases bs) auto
  have y: "y = (n, u)" using Cons.prems(1,2) by (cases y) (auto simp: x bs)
  let ?a = "a + 12 + n"
  have "(of_nat ?a :: u32) \<noteq> 0" using Cons.prems(4) by (subst of_nat_u32_eq_0) (auto simp: x)
  then have zs: "zs \<noteq> []" using Cons.prems(1,2)
    by (cases "xs = []") (auto simp: x bs y add.assoc split: if_splits)
  have "\<exists>ws. zs = xs @ ws \<and> ws \<noteq> [] \<and> seg m (?a + span xs) ws 0"
    using Cons.prems zs by (intro Cons.IH) (auto simp: x bs y add.assoc)
  then show ?case by (auto simp: bs x y add.assoc)
qed simp

lemma krealloc_grow_overlap:
  assumes "28 \<le> k + 4" "n + 12 + k < 4294967296"
  shows "krealloc_grow m (of_nat b) (of_nat (b + 12 + n)) (of_nat (n + 12 + k)) (of_nat (n + 8)) =
    split_at m b (n + 8) (of_nat (k - 8)) (of_nat (k - 8))"
proof -
  have t: "MIN_SPLIT_SIZE \<le> (of_nat (n + 12 + k) :: u32) - of_nat (n + 8)"
    using assms min_split_test [of "n + 8" "n + 12 + k"] by simp
  have l: "of_nat (n + 12 + k) - of_nat (n + 8) - sizeof_block_t = (of_nat (k - 8) :: u32)"
    using assms(1) by (simp add: sizeof_block_t_def)
  have c: "of_nat b + sizeof_block_t + of_nat (n + 8) = (of_nat (b + 12 + (n + 8)) :: u32)"
    by (simp add: sizeof_block_t_def)
  let ?q = "of_nat (b + 12 + n) :: u32"
  have q: "(of_nat (b + 12 + (n + 8)) :: u32) = ?q + 8" by simp
  have "rd32 ((wr32 m (?q + 8) v)(?q + 8 + 4 := 0)) (?q + 8) = v" for v
  proof -
    have "rd32 ((wr32 m (?q + 8) v)(?q + 8 + 4 := 0)) (?q + 8) = rd32 (wr32 m (?q + 8) v) (?q + 8)"
      by (rule rd32_cong) (auto simp: in_region_4)
    then show ?thesis by simp
  qed
  then have "blk_next (load_block (set_used (set_size m (?q + 8) v) (?q + 8) 0) ?q) = v" for v
    by (simp add: load_block_def set_used_def set_size_def)
  then show ?thesis
    using t unfolding krealloc_grow_def Let_def l c split_at_def q by simp
qed

section \<open>Properties of malloc.c\<close>

definition malloc_boot_heap :: heap where
  "malloc_boot_heap = malloc_mem_init \<lparr>g_heap = 4096, g_first_block = 0, mem = (\<lambda>_. 0)\<rparr> 0"

lemma g_heap_malloc_boot_heap [simp]: "g_heap malloc_boot_heap = 4096"
  by (simp add: malloc_boot_heap_def malloc_mem_init_def Let_def)

lemma malloc_boot_heap_rel: "heap_rel 262144 malloc_boot_heap [(262132, False)]"
  using malloc_mem_init_rel [of "\<lparr>g_heap = 4096, g_first_block = 0, mem = (\<lambda>_. 0)\<rparr>" 0]
  by (simp add: malloc_boot_heap_def init_capacity_def)

lemma malloc_boot_kmalloc:
  obtains m where "malloc_kmalloc malloc_boot_heap 16 = Some (malloc_boot_heap\<lparr>mem := m\<rparr>, 4108)"
    and "heap_rel 262144 (malloc_boot_heap\<lparr>mem := m\<rparr>) [(16, True), (262104, False)]"
proof -
  have "blocks_alloc 16 [(262132, False)] = ([(16, True), (262104, False)], Some 12)"
    by (simp add: blocks_alloc_def carve_def)
  then show thesis
    using malloc_c.alloc_refines [OF malloc_boot_heap_rel, of 16 "[(16, True), (262104, False)]" "Some 12"] that
    by auto
qed

text \<open>C2. \<open>krealloc\<close> of a payload in use always returns. Unless it reports failure, in which case
  nothing changed, the heap stays well-formed, the result is long enough and replaces the
  old payload, the first \<open>min(old, new)\<close> bytes are those of the old payload, and no other
  payload is touched. This holds when the aligned size shrinks or stays, or grows by at
  least one header.\<close>

theorem krealloc_keeps_contents:
  assumes ok: "heap_ok cap s" and own: "(unat ptr, n) \<in> heap_regions cap s"
    and sz: "new_size \<noteq> 0" "unat new_size \<le> 4294967288"
    and step: "unat (mm_align_size new_size) \<le> n \<or> n + 12 \<le> unat (mm_align_size new_size)"
  shows "\<exists>s' p. krealloc s ptr new_size = Some (s', p) \<and>
    (if p = 0 then s' = s else realloc_done cap s ptr n new_size s' p)"
proof -
  let ?r = "unat (mm_align_size new_size)"
  obtain xs ys where rel: "heap_rel cap s (xs @ (n, True) # ys)" and co: "coalesced (xs @ (n, True) # ys)"
    and p: "unat ptr = unat (g_heap s) + span xs + 12"
    using owned_block [OF ok own] by metis
  have r: "unat new_size \<le> ?r" using mm_align_size_ge sz by blast
  have pz: "ptr \<noteq> 0" using p by auto
  note path = krealloc_paths [OF rel p sz(1)]
  consider "?r \<le> n" | k zs where "n < ?r" "ys = (k, False) # zs" "?r \<le> n + 12 + k"
    | "n < ?r" "\<And>k zs. ys = (k, False) # zs \<Longrightarrow> n + 12 + k < ?r"
    by (metis not_le)
  then show ?thesis
  proof cases
    case 1
    show ?thesis using path(1) [OF 1] krealloc_shrink_done [OF rel co p 1 r] pz by (simp del: of_nat_add)
  next
    case (2 k zs)
    show ?thesis
      using path(2) [OF 2] krealloc_grow_done [OF rel [unfolded 2(2)] co [unfolded 2(2)] p _ 2(3) r] step 2(1) pz
      by (simp del: of_nat_add)
  next
    case 3
    have "unat (of_nat n :: u32) = n" using heap_rel_block(5) [OF rel] by (intro unat_of_nat_u32) simp
    moreover have "krealloc s ptr new_size = krealloc_move s ptr (of_nat n) new_size"
      using 3 by (intro path(3)) auto
    ultimately show ?thesis using krealloc_move_done [OF ok, of ptr "of_nat n" new_size] own r by metis
  qed
qed

theorem krealloc_keeps_contents_witness:
  "\<exists>s s' p. malloc_kmalloc malloc_boot_heap 16 = Some (s, 4108) \<and>
     krealloc s 4108 40 = Some (s', p) \<and> (p = 0 \<longrightarrow> s' = s)"
proof -
  obtain m where k: "malloc_kmalloc malloc_boot_heap 16 = Some (malloc_boot_heap\<lparr>mem := m\<rparr>, 4108)"
    and rel: "heap_rel 262144 (malloc_boot_heap\<lparr>mem := m\<rparr>) [(16, True), (262104, False)]"
    using malloc_boot_kmalloc by blast
  have ok: "heap_ok 262144 (malloc_boot_heap\<lparr>mem := m\<rparr>)" using rel by (auto simp: heap_ok_def)
  have own: "(unat (4108 :: u32), 16) \<in> heap_regions 262144 (malloc_boot_heap\<lparr>mem := m\<rparr>)"
    by (simp add: heap_regions_eq [OF rel])
  show ?thesis using krealloc_keeps_contents [OF ok own, of 40] k
    by (auto simp: mm_align_size_def split: if_splits)
qed

text \<open>C5. Growing a payload by exactly eight bytes in front of a free block large enough to be
  split always destroys the block list: the call reports success, and what it leaves in
  memory is no block list at all.\<close>

theorem krealloc_corrupts_list:
  assumes rel: "heap_rel cap s (xs @ (n, True) # (k, False) # ys)"
    and ptr: "unat ptr = unat (g_heap s) + span xs + 12"
    and sz: "new_size \<noteq> 0" "unat (mm_align_size new_size) = n + 8" and k: "24 \<le> k"
  shows "\<exists>s'. krealloc s ptr new_size = Some (s', ptr) \<and> (\<nexists>bs. heap_rel cap s' bs)"
proof -
  let ?a = "unat (g_heap s)" and ?b = "unat (g_heap s) + span xs"
  let ?m = "split_at (mem s) ?b (n + 8) (of_nat (k - 8)) (of_nat (k - 8))"
  note blk = heap_rel_block [OF rel]
  have bd: "?b + 24 + n + k < 4294967296" using blk(5) by simp
  have "mm_align_size new_size = of_nat (n + 8)" by (simp flip: sz(2))
  then have "krealloc s ptr new_size = Some (s\<lparr>mem := ?m\<rparr>, ptr)"
    using krealloc_paths(2) [OF rel ptr sz(1) _ refl] sz(2) k bd
      krealloc_grow_overlap [of k n "mem s" ?b] by (simp del: of_nat_add)
  moreover have "\<not> heap_rel cap (s\<lparr>mem := ?m\<rparr>) bs" for bs
  proof
    assume h: "heap_rel cap (s\<lparr>mem := ?m\<rparr>) bs"
    have "seg (mem s) ?a xs (of_nat ?b)" using rel by (auto simp: heap_rel_def seg_append)
    then have "seg ?m ?a xs (of_nat ?b)"
      using bd k by (subst seg_cong [where m' = "mem s"]) (auto simp: split_at_outside)
    moreover have two: "seg ?m ?b [(n + 8, True), (k - 8, False)] (of_nat (k - 8))"
      using bd k blk(3) by (intro split_at_seg) (auto simp del: of_nat_add)
    ultimately have "seg ?m ?a (xs @ [(n + 8, True)]) (of_nat (?a + span (xs @ [(n + 8, True)])))"
      by (simp add: seg_append add.assoc)
    then obtain zs where zs: "zs \<noteq> []" "seg ?m (?a + span (xs @ [(n + 8, True)])) zs 0"
      using seg_prefix [of ?m ?a "xs @ [(n + 8, True)]" bs] h bd by (auto simp: heap_rel_def unat_gt_0)
    define e where "e = ?b + 12 + (n + 8) + 12 + (k - 8)"
    have "of_nat (k - 8) = (if tl zs = [] then 0 else of_nat e :: u32)"
      using two zs by (cases zs) (auto simp: e_def add.assoc split: if_splits)
    moreover have "(of_nat (k - 8) :: u32) \<noteq> 0" using k bd by (subst of_nat_u32_eq_0) auto
    moreover have "(of_nat (k - 8) :: u32) \<noteq> of_nat e"
    proof -
      have "k - 8 < 4294967296" "e < 4294967296" "k - 8 \<noteq> e" using k bd by (simp_all add: e_def)
      then show ?thesis using of_nat_u32_inj by blast
    qed
    ultimately show False by argo
  qed
  ultimately show ?thesis by blast
qed

theorem krealloc_corrupts_list_witness:
  "\<exists>s s'. malloc_kmalloc malloc_boot_heap 16 = Some (s, 4108) \<and>
     krealloc s 4108 24 = Some (s', 4108) \<and> (\<nexists>bs. heap_rel 262144 s' bs)"
proof -
  obtain m where k: "malloc_kmalloc malloc_boot_heap 16 = Some (malloc_boot_heap\<lparr>mem := m\<rparr>, 4108)"
    and rel: "heap_rel 262144 (malloc_boot_heap\<lparr>mem := m\<rparr>) ([] @ (16, True) # (262104, False) # [])"
    using malloc_boot_kmalloc by auto
  show ?thesis using krealloc_corrupts_list [OF rel, of 4108 24] k by (auto simp: mm_align_size_def)
qed

text \<open>C6. The two implementations of \<open>kmalloc\<close> and \<open>kfree\<close> agree: on the same heap they return
  the same pointer and leave the same block list, although \<open>malloc.c\<close> merges with the next
  block first and \<open>heap.c\<close> with the previous one first.\<close>

theorem heap_malloc_agree:
  assumes rel: "heap_rel cap s bs"
  shows "malloc_kmalloc s sz = kmalloc s sz \<and>
    (\<forall>n. (unat p, n) \<in> heap_regions cap s \<longrightarrow>
       (\<exists>s1 s2 bs'. kfree s p = Some s1 \<and> malloc_kfree s p = Some s2 \<and>
          heap_rel cap s1 bs' \<and> heap_rel cap s2 bs'))"
proof (intro conjI allI impI)
  fix n assume "(unat p, n) \<in> heap_regions cap s"
  then obtain xs ys where bs: "bs = xs @ (n, True) # ys" and p: "unat p = unat (g_heap s) + span xs + 12"
    using live_split by (metis heap_regions_eq [OF rel])
  have p': "p = of_nat (unat (g_heap s) + span xs + 12)" by (simp flip: p)
  show "\<exists>s1 s2 bs'. kfree s p = Some s1 \<and> malloc_kfree s p = Some s2 \<and> heap_rel cap s1 bs' \<and> heap_rel cap s2 bs'"
    using kfree_refines [OF rel [unfolded bs]] malloc_kfree_refines [OF rel [unfolded bs]] unfolding p' by blast
qed (simp add: malloc_kmalloc_eq)

theorem heap_malloc_agree_witness:
  "\<exists>s s1 s2 bs'. malloc_kmalloc malloc_boot_heap 16 = Some (s, 4108) \<and>
     kfree s 4108 = Some s1 \<and> malloc_kfree s 4108 = Some s2 \<and> heap_rel 262144 s1 bs' \<and> heap_rel 262144 s2 bs'"
proof -
  obtain m where k: "malloc_kmalloc malloc_boot_heap 16 = Some (malloc_boot_heap\<lparr>mem := m\<rparr>, 4108)"
    and rel: "heap_rel 262144 (malloc_boot_heap\<lparr>mem := m\<rparr>) [(16, True), (262104, False)]"
    using malloc_boot_kmalloc by blast
  have "(unat (4108 :: u32), 16) \<in> heap_regions 262144 (malloc_boot_heap\<lparr>mem := m\<rparr>)"
    by (simp add: heap_regions_eq [OF rel])
  then show ?thesis using heap_malloc_agree [OF rel, of 16 4108] k by blast
qed

end
