(* ===== verification/Keycodes.thy ===== *)
theory Keycodes
  imports Prelude
begin

text \<open>
  \<open>input/keycodes.h\<close>: the key codes, numbered as the C enumeration numbers them, and the
  modifier bits. Key codes travel through the code as \<open>uint16_t\<close>.
\<close>

abbreviation (input) KEY_NONE :: u16 where "KEY_NONE \<equiv> 0"
abbreviation (input) KEY_ESC :: u16 where "KEY_ESC \<equiv> 1"
abbreviation (input) KEY_1 :: u16 where "KEY_1 \<equiv> 2"
abbreviation (input) KEY_2 :: u16 where "KEY_2 \<equiv> 3"
abbreviation (input) KEY_3 :: u16 where "KEY_3 \<equiv> 4"
abbreviation (input) KEY_4 :: u16 where "KEY_4 \<equiv> 5"
abbreviation (input) KEY_5 :: u16 where "KEY_5 \<equiv> 6"
abbreviation (input) KEY_6 :: u16 where "KEY_6 \<equiv> 7"
abbreviation (input) KEY_7 :: u16 where "KEY_7 \<equiv> 8"
abbreviation (input) KEY_8 :: u16 where "KEY_8 \<equiv> 9"
abbreviation (input) KEY_9 :: u16 where "KEY_9 \<equiv> 10"
abbreviation (input) KEY_0 :: u16 where "KEY_0 \<equiv> 11"
abbreviation (input) KEY_MINUS :: u16 where "KEY_MINUS \<equiv> 12"
abbreviation (input) KEY_EQUAL :: u16 where "KEY_EQUAL \<equiv> 13"
abbreviation (input) KEY_BACKSPACE :: u16 where "KEY_BACKSPACE \<equiv> 14"
abbreviation (input) KEY_TAB :: u16 where "KEY_TAB \<equiv> 15"
abbreviation (input) KEY_Q :: u16 where "KEY_Q \<equiv> 16"
abbreviation (input) KEY_W :: u16 where "KEY_W \<equiv> 17"
abbreviation (input) KEY_E :: u16 where "KEY_E \<equiv> 18"
abbreviation (input) KEY_R :: u16 where "KEY_R \<equiv> 19"
abbreviation (input) KEY_T :: u16 where "KEY_T \<equiv> 20"
abbreviation (input) KEY_Y :: u16 where "KEY_Y \<equiv> 21"
abbreviation (input) KEY_U :: u16 where "KEY_U \<equiv> 22"
abbreviation (input) KEY_I :: u16 where "KEY_I \<equiv> 23"
abbreviation (input) KEY_O :: u16 where "KEY_O \<equiv> 24"
abbreviation (input) KEY_P :: u16 where "KEY_P \<equiv> 25"
abbreviation (input) KEY_LBRACKET :: u16 where "KEY_LBRACKET \<equiv> 26"
abbreviation (input) KEY_RBRACKET :: u16 where "KEY_RBRACKET \<equiv> 27"
abbreviation (input) KEY_ENTER :: u16 where "KEY_ENTER \<equiv> 28"
abbreviation (input) KEY_LEFT_CTRL :: u16 where "KEY_LEFT_CTRL \<equiv> 29"
abbreviation (input) KEY_A :: u16 where "KEY_A \<equiv> 30"
abbreviation (input) KEY_S :: u16 where "KEY_S \<equiv> 31"
abbreviation (input) KEY_D :: u16 where "KEY_D \<equiv> 32"
abbreviation (input) KEY_F :: u16 where "KEY_F \<equiv> 33"
abbreviation (input) KEY_G :: u16 where "KEY_G \<equiv> 34"
abbreviation (input) KEY_H :: u16 where "KEY_H \<equiv> 35"
abbreviation (input) KEY_J :: u16 where "KEY_J \<equiv> 36"
abbreviation (input) KEY_K :: u16 where "KEY_K \<equiv> 37"
abbreviation (input) KEY_L :: u16 where "KEY_L \<equiv> 38"
abbreviation (input) KEY_SEMICOLON :: u16 where "KEY_SEMICOLON \<equiv> 39"
abbreviation (input) KEY_APOSTROPHE :: u16 where "KEY_APOSTROPHE \<equiv> 40"
abbreviation (input) KEY_GRAVE :: u16 where "KEY_GRAVE \<equiv> 41"
abbreviation (input) KEY_LEFT_SHIFT :: u16 where "KEY_LEFT_SHIFT \<equiv> 42"
abbreviation (input) KEY_BACKSLASH :: u16 where "KEY_BACKSLASH \<equiv> 43"
abbreviation (input) KEY_Z :: u16 where "KEY_Z \<equiv> 44"
abbreviation (input) KEY_X :: u16 where "KEY_X \<equiv> 45"
abbreviation (input) KEY_C :: u16 where "KEY_C \<equiv> 46"
abbreviation (input) KEY_V :: u16 where "KEY_V \<equiv> 47"
abbreviation (input) KEY_B :: u16 where "KEY_B \<equiv> 48"
abbreviation (input) KEY_N :: u16 where "KEY_N \<equiv> 49"
abbreviation (input) KEY_M :: u16 where "KEY_M \<equiv> 50"
abbreviation (input) KEY_COMMA :: u16 where "KEY_COMMA \<equiv> 51"
abbreviation (input) KEY_DOT :: u16 where "KEY_DOT \<equiv> 52"
abbreviation (input) KEY_SLASH :: u16 where "KEY_SLASH \<equiv> 53"
abbreviation (input) KEY_RIGHT_SHIFT :: u16 where "KEY_RIGHT_SHIFT \<equiv> 54"
abbreviation (input) KEY_KP_STAR :: u16 where "KEY_KP_STAR \<equiv> 55"
abbreviation (input) KEY_LEFT_ALT :: u16 where "KEY_LEFT_ALT \<equiv> 56"
abbreviation (input) KEY_SPACE :: u16 where "KEY_SPACE \<equiv> 57"
abbreviation (input) KEY_CAPS_LOCK :: u16 where "KEY_CAPS_LOCK \<equiv> 58"
abbreviation (input) KEY_F1 :: u16 where "KEY_F1 \<equiv> 59"
abbreviation (input) KEY_F2 :: u16 where "KEY_F2 \<equiv> 60"
abbreviation (input) KEY_F3 :: u16 where "KEY_F3 \<equiv> 61"
abbreviation (input) KEY_F4 :: u16 where "KEY_F4 \<equiv> 62"
abbreviation (input) KEY_F5 :: u16 where "KEY_F5 \<equiv> 63"
abbreviation (input) KEY_F6 :: u16 where "KEY_F6 \<equiv> 64"
abbreviation (input) KEY_F7 :: u16 where "KEY_F7 \<equiv> 65"
abbreviation (input) KEY_F8 :: u16 where "KEY_F8 \<equiv> 66"
abbreviation (input) KEY_F9 :: u16 where "KEY_F9 \<equiv> 67"
abbreviation (input) KEY_F10 :: u16 where "KEY_F10 \<equiv> 68"
abbreviation (input) KEY_NUM_LOCK :: u16 where "KEY_NUM_LOCK \<equiv> 69"
abbreviation (input) KEY_SCROLL_LOCK :: u16 where "KEY_SCROLL_LOCK \<equiv> 70"
abbreviation (input) KEY_KP_7 :: u16 where "KEY_KP_7 \<equiv> 71"
abbreviation (input) KEY_KP_8 :: u16 where "KEY_KP_8 \<equiv> 72"
abbreviation (input) KEY_KP_9 :: u16 where "KEY_KP_9 \<equiv> 73"
abbreviation (input) KEY_KP_MINUS :: u16 where "KEY_KP_MINUS \<equiv> 74"
abbreviation (input) KEY_KP_4 :: u16 where "KEY_KP_4 \<equiv> 75"
abbreviation (input) KEY_KP_5 :: u16 where "KEY_KP_5 \<equiv> 76"
abbreviation (input) KEY_KP_6 :: u16 where "KEY_KP_6 \<equiv> 77"
abbreviation (input) KEY_KP_PLUS :: u16 where "KEY_KP_PLUS \<equiv> 78"
abbreviation (input) KEY_KP_1 :: u16 where "KEY_KP_1 \<equiv> 79"
abbreviation (input) KEY_KP_2 :: u16 where "KEY_KP_2 \<equiv> 80"
abbreviation (input) KEY_KP_3 :: u16 where "KEY_KP_3 \<equiv> 81"
abbreviation (input) KEY_KP_0 :: u16 where "KEY_KP_0 \<equiv> 82"
abbreviation (input) KEY_KP_DOT :: u16 where "KEY_KP_DOT \<equiv> 83"
abbreviation (input) KEY_F11 :: u16 where "KEY_F11 \<equiv> 84"
abbreviation (input) KEY_F12 :: u16 where "KEY_F12 \<equiv> 85"
abbreviation (input) KEY_KP_ENTER :: u16 where "KEY_KP_ENTER \<equiv> 86"
abbreviation (input) KEY_RIGHT_CTRL :: u16 where "KEY_RIGHT_CTRL \<equiv> 87"
abbreviation (input) KEY_KP_SLASH :: u16 where "KEY_KP_SLASH \<equiv> 88"
abbreviation (input) KEY_RIGHT_ALT :: u16 where "KEY_RIGHT_ALT \<equiv> 89"
abbreviation (input) KEY_HOME :: u16 where "KEY_HOME \<equiv> 90"
abbreviation (input) KEY_ARROW_UP :: u16 where "KEY_ARROW_UP \<equiv> 91"
abbreviation (input) KEY_PAGE_UP :: u16 where "KEY_PAGE_UP \<equiv> 92"
abbreviation (input) KEY_ARROW_LEFT :: u16 where "KEY_ARROW_LEFT \<equiv> 93"
abbreviation (input) KEY_ARROW_RIGHT :: u16 where "KEY_ARROW_RIGHT \<equiv> 94"
abbreviation (input) KEY_END :: u16 where "KEY_END \<equiv> 95"
abbreviation (input) KEY_ARROW_DOWN :: u16 where "KEY_ARROW_DOWN \<equiv> 96"
abbreviation (input) KEY_PAGE_DOWN :: u16 where "KEY_PAGE_DOWN \<equiv> 97"
abbreviation (input) KEY_INSERT :: u16 where "KEY_INSERT \<equiv> 98"
abbreviation (input) KEY_DELETE :: u16 where "KEY_DELETE \<equiv> 99"
abbreviation (input) KEY_MAX :: u16 where "KEY_MAX \<equiv> 100"

abbreviation (input) KB_MOD_SHIFT :: u32 where "KB_MOD_SHIFT \<equiv> 0x1"
abbreviation (input) KB_MOD_CTRL :: u32 where "KB_MOD_CTRL \<equiv> 0x2"
abbreviation (input) KB_MOD_ALT :: u32 where "KB_MOD_ALT \<equiv> 0x4"
abbreviation (input) KB_MOD_ALTGR :: u32 where "KB_MOD_ALTGR \<equiv> 0x8"
abbreviation (input) KB_MOD_CAPS :: u32 where "KB_MOD_CAPS \<equiv> 0x10"
abbreviation (input) KB_MOD_NUM :: u32 where "KB_MOD_NUM \<equiv> 0x20"
abbreviation (input) KB_MOD_SCROLL :: u32 where "KB_MOD_SCROLL \<equiv> 0x40"

end
