(* ===== verification/Keymap.thy ===== *)
theory Keymap
  imports Keycodes
begin

text \<open>
  \<open>input/keymap.c\<close> and \<open>input/keymap.h\<close>: the four layouts, dead keys and their composition,
  and the translation of key codes to code points. A layout is the list of its designated
  initialisers; a key that has none is all zero, as in C.
\<close>

section \<open>Types and tables\<close>

type_synonym keymap_id_t = u32

abbreviation (input) KEYMAP_QWERTY :: keymap_id_t where "KEYMAP_QWERTY \<equiv> 0"
abbreviation (input) KEYMAP_AZERTY :: keymap_id_t where "KEYMAP_AZERTY \<equiv> 1"
abbreviation (input) KEYMAP_QWERTZ :: keymap_id_t where "KEYMAP_QWERTZ \<equiv> 2"
abbreviation (input) KEYMAP_DVORAK :: keymap_id_t where "KEYMAP_DVORAK \<equiv> 3"

record keymap_entry_t =
  normal :: u32
  shift :: u32
  altgr :: u32
  shift_altgr :: u32
  dead_mask :: u8
  alpha :: bool

record keymap_result_t =
  codepoint :: u32
  is_text :: bool
  is_dead :: bool

record keyboard_layout_t =
  layout_name :: string
  entries :: "(u16 \<times> keymap_entry_t) list"

record compose_entry_t =
  dead :: u32
  base :: u32
  result :: u32

abbreviation (input) DEAD_NORMAL :: u8 where "DEAD_NORMAL \<equiv> 1"
abbreviation (input) DEAD_SHIFT :: u8 where "DEAD_SHIFT \<equiv> 2"
abbreviation (input) DEAD_ALTGR :: u8 where "DEAD_ALTGR \<equiv> 4"
abbreviation (input) DEAD_SHIFT_ALTGR :: u8 where "DEAD_SHIFT_ALTGR \<equiv> 8"

abbreviation (input) ch :: "char \<Rightarrow> u32" where "ch c \<equiv> of_char c"

abbreviation (input) kme :: "u32 \<Rightarrow> u32 \<Rightarrow> u32 \<Rightarrow> u32 \<Rightarrow> u8 \<Rightarrow> bool \<Rightarrow> keymap_entry_t" where
  "kme n s a sa d al \<equiv> \<lparr>normal = n, shift = s, altgr = a, shift_altgr = sa, dead_mask = d, alpha = al\<rparr>"

definition layout_qwerty :: keyboard_layout_t where
  "layout_qwerty = \<lparr>layout_name = ''QWERTY (US)'', entries = [
     (KEY_1, kme (ch CHR ''1'') (ch CHR ''!'') 0 0 0 False),
     (KEY_2, kme (ch CHR ''2'') (ch CHR ''@'') 0 0 0 False),
     (KEY_3, kme (ch CHR ''3'') (ch CHR ''#'') 0 0 0 False),
     (KEY_4, kme (ch CHR ''4'') (ch CHR ''$'') 0 0 0 False),
     (KEY_5, kme (ch CHR ''5'') (ch CHR ''%'') 0 0 0 False),
     (KEY_6, kme (ch CHR ''6'') (ch CHR ''^'') 0 0 0 False),
     (KEY_7, kme (ch CHR ''7'') (ch CHR ''&'') 0 0 0 False),
     (KEY_8, kme (ch CHR ''8'') (ch CHR ''*'') 0 0 0 False),
     (KEY_9, kme (ch CHR ''9'') (ch CHR ''('') 0 0 0 False),
     (KEY_0, kme (ch CHR ''0'') (ch CHR '')'') 0 0 0 False),
     (KEY_MINUS, kme (ch CHR ''-'') (ch CHR ''_'') 0 0 0 False),
     (KEY_EQUAL, kme (ch CHR ''='') (ch CHR ''+'') 0 0 0 False),
     (KEY_Q, kme (ch CHR ''q'') (ch CHR ''Q'') 0 0 0 True),
     (KEY_W, kme (ch CHR ''w'') (ch CHR ''W'') 0 0 0 True),
     (KEY_E, kme (ch CHR ''e'') (ch CHR ''E'') 0 0 0 True),
     (KEY_R, kme (ch CHR ''r'') (ch CHR ''R'') 0 0 0 True),
     (KEY_T, kme (ch CHR ''t'') (ch CHR ''T'') 0 0 0 True),
     (KEY_Y, kme (ch CHR ''y'') (ch CHR ''Y'') 0 0 0 True),
     (KEY_U, kme (ch CHR ''u'') (ch CHR ''U'') 0 0 0 True),
     (KEY_I, kme (ch CHR ''i'') (ch CHR ''I'') 0 0 0 True),
     (KEY_O, kme (ch CHR ''o'') (ch CHR ''O'') 0 0 0 True),
     (KEY_P, kme (ch CHR ''p'') (ch CHR ''P'') 0 0 0 True),
     (KEY_LBRACKET, kme (ch CHR ''['') (ch CHR ''{'') 0 0 0 False),
     (KEY_RBRACKET, kme (ch CHR '']'') (ch CHR ''}'') 0 0 0 False),
     (KEY_A, kme (ch CHR ''a'') (ch CHR ''A'') 0 0 0 True),
     (KEY_S, kme (ch CHR ''s'') (ch CHR ''S'') 0 0 0 True),
     (KEY_D, kme (ch CHR ''d'') (ch CHR ''D'') 0 0 0 True),
     (KEY_F, kme (ch CHR ''f'') (ch CHR ''F'') 0 0 0 True),
     (KEY_G, kme (ch CHR ''g'') (ch CHR ''G'') 0 0 0 True),
     (KEY_H, kme (ch CHR ''h'') (ch CHR ''H'') 0 0 0 True),
     (KEY_J, kme (ch CHR ''j'') (ch CHR ''J'') 0 0 0 True),
     (KEY_K, kme (ch CHR ''k'') (ch CHR ''K'') 0 0 0 True),
     (KEY_L, kme (ch CHR ''l'') (ch CHR ''L'') 0 0 0 True),
     (KEY_SEMICOLON, kme (ch CHR '';'') (ch CHR '':'') 0 0 0 False),
     (KEY_APOSTROPHE, kme 0x27 0x22 0 0 0 False),
     (KEY_GRAVE, kme 0x60 (ch CHR ''~'') 0 0 0 False),
     (KEY_BACKSLASH, kme 0x5C (ch CHR ''|'') 0 0 0 False),
     (KEY_Z, kme (ch CHR ''z'') (ch CHR ''Z'') 0 0 0 True),
     (KEY_X, kme (ch CHR ''x'') (ch CHR ''X'') 0 0 0 True),
     (KEY_C, kme (ch CHR ''c'') (ch CHR ''C'') 0 0 0 True),
     (KEY_V, kme (ch CHR ''v'') (ch CHR ''V'') 0 0 0 True),
     (KEY_B, kme (ch CHR ''b'') (ch CHR ''B'') 0 0 0 True),
     (KEY_N, kme (ch CHR ''n'') (ch CHR ''N'') 0 0 0 True),
     (KEY_M, kme (ch CHR ''m'') (ch CHR ''M'') 0 0 0 True),
     (KEY_COMMA, kme (ch CHR '','') (ch CHR ''<'') 0 0 0 False),
     (KEY_DOT, kme (ch CHR ''.'') (ch CHR ''>'') 0 0 0 False),
     (KEY_SLASH, kme (ch CHR ''/'') (ch CHR ''?'') 0 0 0 False),
     (KEY_SPACE, kme (ch CHR '' '') (ch CHR '' '') 0 0 0 False),
     (KEY_KP_SLASH, kme (ch CHR ''/'') (ch CHR ''/'') 0 0 0 False),
     (KEY_KP_STAR, kme (ch CHR ''*'') (ch CHR ''*'') 0 0 0 False),
     (KEY_KP_MINUS, kme (ch CHR ''-'') (ch CHR ''-'') 0 0 0 False),
     (KEY_KP_PLUS, kme (ch CHR ''+'') (ch CHR ''+'') 0 0 0 False),
     (KEY_KP_DOT, kme (ch CHR ''.'') (ch CHR ''.'') 0 0 0 False),
     (KEY_KP_0, kme (ch CHR ''0'') (ch CHR ''0'') 0 0 0 False),
     (KEY_KP_1, kme (ch CHR ''1'') (ch CHR ''1'') 0 0 0 False),
     (KEY_KP_2, kme (ch CHR ''2'') (ch CHR ''2'') 0 0 0 False),
     (KEY_KP_3, kme (ch CHR ''3'') (ch CHR ''3'') 0 0 0 False),
     (KEY_KP_4, kme (ch CHR ''4'') (ch CHR ''4'') 0 0 0 False),
     (KEY_KP_5, kme (ch CHR ''5'') (ch CHR ''5'') 0 0 0 False),
     (KEY_KP_6, kme (ch CHR ''6'') (ch CHR ''6'') 0 0 0 False),
     (KEY_KP_7, kme (ch CHR ''7'') (ch CHR ''7'') 0 0 0 False),
     (KEY_KP_8, kme (ch CHR ''8'') (ch CHR ''8'') 0 0 0 False),
     (KEY_KP_9, kme (ch CHR ''9'') (ch CHR ''9'') 0 0 0 False)]\<rparr>"

definition layout_azerty :: keyboard_layout_t where
  "layout_azerty = \<lparr>layout_name = ''AZERTY (FR)'', entries = [
     (KEY_1, kme (ch CHR ''&'') (ch CHR ''1'') 0 0 0 False),
     (KEY_2, kme 0xE9 (ch CHR ''2'') (ch CHR ''~'') 0 0 False),
     (KEY_3, kme 0x22 (ch CHR ''3'') (ch CHR ''#'') 0 0 False),
     (KEY_4, kme 0x27 (ch CHR ''4'') (ch CHR ''{'') 0 0 False),
     (KEY_5, kme (ch CHR ''('') (ch CHR ''5'') (ch CHR ''['') 0 0 False),
     (KEY_6, kme (ch CHR ''-'') (ch CHR ''6'') (ch CHR ''|'') 0 0 False),
     (KEY_7, kme 0xE8 (ch CHR ''7'') 0x60 0 0 False),
     (KEY_8, kme (ch CHR ''_'') (ch CHR ''8'') 0x5C 0 0 False),
     (KEY_9, kme 0xE7 (ch CHR ''9'') (ch CHR ''^'') 0 0 False),
     (KEY_0, kme 0xE0 (ch CHR ''0'') (ch CHR ''@'') 0 0 False),
     (KEY_MINUS, kme (ch CHR '')'') 0xB0 (ch CHR '']'') 0 0 False),
     (KEY_EQUAL, kme (ch CHR ''='') (ch CHR ''+'') (ch CHR ''}'') 0 0 False),
     (KEY_Q, kme (ch CHR ''a'') (ch CHR ''A'') 0 0 0 True),
     (KEY_W, kme (ch CHR ''z'') (ch CHR ''Z'') 0 0 0 True),
     (KEY_E, kme (ch CHR ''e'') (ch CHR ''E'') 0x20AC 0 0 True),
     (KEY_R, kme (ch CHR ''r'') (ch CHR ''R'') 0 0 0 True),
     (KEY_T, kme (ch CHR ''t'') (ch CHR ''T'') 0 0 0 True),
     (KEY_Y, kme (ch CHR ''y'') (ch CHR ''Y'') 0 0 0 True),
     (KEY_U, kme (ch CHR ''u'') (ch CHR ''U'') 0 0 0 True),
     (KEY_I, kme (ch CHR ''i'') (ch CHR ''I'') 0 0 0 True),
     (KEY_O, kme (ch CHR ''o'') (ch CHR ''O'') 0 0 0 True),
     (KEY_P, kme (ch CHR ''p'') (ch CHR ''P'') 0 0 0 True),
     (KEY_LBRACKET, kme (ch CHR ''^'') 0xA8 0 0 (DEAD_NORMAL OR DEAD_SHIFT) False),
     (KEY_RBRACKET, kme (ch CHR ''$'') 0xA3 0 0 0 False),
     (KEY_A, kme (ch CHR ''q'') (ch CHR ''Q'') 0 0 0 True),
     (KEY_S, kme (ch CHR ''s'') (ch CHR ''S'') 0 0 0 True),
     (KEY_D, kme (ch CHR ''d'') (ch CHR ''D'') 0 0 0 True),
     (KEY_F, kme (ch CHR ''f'') (ch CHR ''F'') 0 0 0 True),
     (KEY_G, kme (ch CHR ''g'') (ch CHR ''G'') 0 0 0 True),
     (KEY_H, kme (ch CHR ''h'') (ch CHR ''H'') 0 0 0 True),
     (KEY_J, kme (ch CHR ''j'') (ch CHR ''J'') 0 0 0 True),
     (KEY_K, kme (ch CHR ''k'') (ch CHR ''K'') 0 0 0 True),
     (KEY_L, kme (ch CHR ''l'') (ch CHR ''L'') 0 0 0 True),
     (KEY_SEMICOLON, kme (ch CHR ''m'') (ch CHR ''M'') 0 0 0 True),
     (KEY_APOSTROPHE, kme 0xF9 (ch CHR ''%'') 0 0 0 False),
     (KEY_GRAVE, kme 0xB2 0 0 0 0 False),
     (KEY_BACKSLASH, kme (ch CHR ''*'') 0xB5 0 0 0 False),
     (KEY_Z, kme (ch CHR ''w'') (ch CHR ''W'') 0 0 0 True),
     (KEY_X, kme (ch CHR ''x'') (ch CHR ''X'') 0 0 0 True),
     (KEY_C, kme (ch CHR ''c'') (ch CHR ''C'') 0 0 0 True),
     (KEY_V, kme (ch CHR ''v'') (ch CHR ''V'') 0 0 0 True),
     (KEY_B, kme (ch CHR ''b'') (ch CHR ''B'') 0 0 0 True),
     (KEY_N, kme (ch CHR ''n'') (ch CHR ''N'') 0 0 0 True),
     (KEY_M, kme (ch CHR '','') (ch CHR ''?'') 0 0 0 False),
     (KEY_COMMA, kme (ch CHR '';'') (ch CHR ''.'') 0 0 0 False),
     (KEY_DOT, kme (ch CHR '':'') (ch CHR ''/'') 0 0 0 False),
     (KEY_SLASH, kme (ch CHR ''!'') 0xA7 0 0 0 False),
     (KEY_SPACE, kme (ch CHR '' '') (ch CHR '' '') 0 0 0 False),
     (KEY_KP_SLASH, kme (ch CHR ''/'') (ch CHR ''/'') 0 0 0 False),
     (KEY_KP_STAR, kme (ch CHR ''*'') (ch CHR ''*'') 0 0 0 False),
     (KEY_KP_MINUS, kme (ch CHR ''-'') (ch CHR ''-'') 0 0 0 False),
     (KEY_KP_PLUS, kme (ch CHR ''+'') (ch CHR ''+'') 0 0 0 False),
     (KEY_KP_DOT, kme (ch CHR ''.'') (ch CHR ''.'') 0 0 0 False),
     (KEY_KP_0, kme (ch CHR ''0'') (ch CHR ''0'') 0 0 0 False),
     (KEY_KP_1, kme (ch CHR ''1'') (ch CHR ''1'') 0 0 0 False),
     (KEY_KP_2, kme (ch CHR ''2'') (ch CHR ''2'') 0 0 0 False),
     (KEY_KP_3, kme (ch CHR ''3'') (ch CHR ''3'') 0 0 0 False),
     (KEY_KP_4, kme (ch CHR ''4'') (ch CHR ''4'') 0 0 0 False),
     (KEY_KP_5, kme (ch CHR ''5'') (ch CHR ''5'') 0 0 0 False),
     (KEY_KP_6, kme (ch CHR ''6'') (ch CHR ''6'') 0 0 0 False),
     (KEY_KP_7, kme (ch CHR ''7'') (ch CHR ''7'') 0 0 0 False),
     (KEY_KP_8, kme (ch CHR ''8'') (ch CHR ''8'') 0 0 0 False),
     (KEY_KP_9, kme (ch CHR ''9'') (ch CHR ''9'') 0 0 0 False)]\<rparr>"

definition layout_qwertz :: keyboard_layout_t where
  "layout_qwertz = \<lparr>layout_name = ''QWERTZ (DE)'', entries = [
     (KEY_1, kme (ch CHR ''1'') (ch CHR ''!'') 0 0 0 False),
     (KEY_2, kme (ch CHR ''2'') 0x22 0xB2 0 0 False),
     (KEY_3, kme (ch CHR ''3'') 0xA7 0xB3 0 0 False),
     (KEY_4, kme (ch CHR ''4'') (ch CHR ''$'') 0 0 0 False),
     (KEY_5, kme (ch CHR ''5'') (ch CHR ''%'') 0 0 0 False),
     (KEY_6, kme (ch CHR ''6'') (ch CHR ''&'') 0 0 0 False),
     (KEY_7, kme (ch CHR ''7'') (ch CHR ''/'') (ch CHR ''{'') 0 0 False),
     (KEY_8, kme (ch CHR ''8'') (ch CHR ''('') (ch CHR ''['') 0 0 False),
     (KEY_9, kme (ch CHR ''9'') (ch CHR '')'') (ch CHR '']'') 0 0 False),
     (KEY_0, kme (ch CHR ''0'') (ch CHR ''='') (ch CHR ''}'') 0 0 False),
     (KEY_MINUS, kme 0xDF (ch CHR ''?'') 0x5C 0 0 False),
     (KEY_EQUAL, kme 0xB4 0x60 0 0 DEAD_NORMAL False),
     (KEY_Q, kme (ch CHR ''q'') (ch CHR ''Q'') (ch CHR ''@'') 0 0 True),
     (KEY_W, kme (ch CHR ''w'') (ch CHR ''W'') 0 0 0 True),
     (KEY_E, kme (ch CHR ''e'') (ch CHR ''E'') 0x20AC 0 0 True),
     (KEY_R, kme (ch CHR ''r'') (ch CHR ''R'') 0 0 0 True),
     (KEY_T, kme (ch CHR ''t'') (ch CHR ''T'') 0 0 0 True),
     (KEY_Y, kme (ch CHR ''z'') (ch CHR ''Z'') 0 0 0 True),
     (KEY_U, kme (ch CHR ''u'') (ch CHR ''U'') 0 0 0 True),
     (KEY_I, kme (ch CHR ''i'') (ch CHR ''I'') 0 0 0 True),
     (KEY_O, kme (ch CHR ''o'') (ch CHR ''O'') 0 0 0 True),
     (KEY_P, kme (ch CHR ''p'') (ch CHR ''P'') 0 0 0 True),
     (KEY_LBRACKET, kme 0xFC 0xDC 0 0 0 True),
     (KEY_RBRACKET, kme (ch CHR ''+'') (ch CHR ''*'') (ch CHR ''~'') 0 0 False),
     (KEY_A, kme (ch CHR ''a'') (ch CHR ''A'') 0 0 0 True),
     (KEY_S, kme (ch CHR ''s'') (ch CHR ''S'') 0 0 0 True),
     (KEY_D, kme (ch CHR ''d'') (ch CHR ''D'') 0 0 0 True),
     (KEY_F, kme (ch CHR ''f'') (ch CHR ''F'') 0 0 0 True),
     (KEY_G, kme (ch CHR ''g'') (ch CHR ''G'') 0 0 0 True),
     (KEY_H, kme (ch CHR ''h'') (ch CHR ''H'') 0 0 0 True),
     (KEY_J, kme (ch CHR ''j'') (ch CHR ''J'') 0 0 0 True),
     (KEY_K, kme (ch CHR ''k'') (ch CHR ''K'') 0 0 0 True),
     (KEY_L, kme (ch CHR ''l'') (ch CHR ''L'') 0 0 0 True),
     (KEY_SEMICOLON, kme 0xF6 0xD6 0 0 0 True),
     (KEY_APOSTROPHE, kme 0xE4 0xC4 0 0 0 True),
     (KEY_GRAVE, kme (ch CHR ''^'') 0xB0 0 0 DEAD_NORMAL False),
     (KEY_BACKSLASH, kme (ch CHR ''#'') 0x27 0 0 0 False),
     (KEY_Z, kme (ch CHR ''y'') (ch CHR ''Y'') 0 0 0 True),
     (KEY_X, kme (ch CHR ''x'') (ch CHR ''X'') 0 0 0 True),
     (KEY_C, kme (ch CHR ''c'') (ch CHR ''C'') 0 0 0 True),
     (KEY_V, kme (ch CHR ''v'') (ch CHR ''V'') 0 0 0 True),
     (KEY_B, kme (ch CHR ''b'') (ch CHR ''B'') 0 0 0 True),
     (KEY_N, kme (ch CHR ''n'') (ch CHR ''N'') 0 0 0 True),
     (KEY_M, kme (ch CHR ''m'') (ch CHR ''M'') 0 0 0 True),
     (KEY_COMMA, kme (ch CHR '','') (ch CHR '';'') 0 0 0 False),
     (KEY_DOT, kme (ch CHR ''.'') (ch CHR '':'') 0 0 0 False),
     (KEY_SLASH, kme (ch CHR ''-'') (ch CHR ''_'') 0 0 0 False),
     (KEY_SPACE, kme (ch CHR '' '') (ch CHR '' '') 0 0 0 False),
     (KEY_KP_SLASH, kme (ch CHR ''/'') (ch CHR ''/'') 0 0 0 False),
     (KEY_KP_STAR, kme (ch CHR ''*'') (ch CHR ''*'') 0 0 0 False),
     (KEY_KP_MINUS, kme (ch CHR ''-'') (ch CHR ''-'') 0 0 0 False),
     (KEY_KP_PLUS, kme (ch CHR ''+'') (ch CHR ''+'') 0 0 0 False),
     (KEY_KP_DOT, kme (ch CHR ''.'') (ch CHR ''.'') 0 0 0 False),
     (KEY_KP_0, kme (ch CHR ''0'') (ch CHR ''0'') 0 0 0 False),
     (KEY_KP_1, kme (ch CHR ''1'') (ch CHR ''1'') 0 0 0 False),
     (KEY_KP_2, kme (ch CHR ''2'') (ch CHR ''2'') 0 0 0 False),
     (KEY_KP_3, kme (ch CHR ''3'') (ch CHR ''3'') 0 0 0 False),
     (KEY_KP_4, kme (ch CHR ''4'') (ch CHR ''4'') 0 0 0 False),
     (KEY_KP_5, kme (ch CHR ''5'') (ch CHR ''5'') 0 0 0 False),
     (KEY_KP_6, kme (ch CHR ''6'') (ch CHR ''6'') 0 0 0 False),
     (KEY_KP_7, kme (ch CHR ''7'') (ch CHR ''7'') 0 0 0 False),
     (KEY_KP_8, kme (ch CHR ''8'') (ch CHR ''8'') 0 0 0 False),
     (KEY_KP_9, kme (ch CHR ''9'') (ch CHR ''9'') 0 0 0 False)]\<rparr>"

definition layout_dvorak :: keyboard_layout_t where
  "layout_dvorak = \<lparr>layout_name = ''DVORAK'', entries = [
     (KEY_1, kme (ch CHR ''1'') (ch CHR ''!'') 0 0 0 False),
     (KEY_2, kme (ch CHR ''2'') (ch CHR ''@'') 0 0 0 False),
     (KEY_3, kme (ch CHR ''3'') (ch CHR ''#'') 0 0 0 False),
     (KEY_4, kme (ch CHR ''4'') (ch CHR ''$'') 0 0 0 False),
     (KEY_5, kme (ch CHR ''5'') (ch CHR ''%'') 0 0 0 False),
     (KEY_6, kme (ch CHR ''6'') (ch CHR ''^'') 0 0 0 False),
     (KEY_7, kme (ch CHR ''7'') (ch CHR ''&'') 0 0 0 False),
     (KEY_8, kme (ch CHR ''8'') (ch CHR ''*'') 0 0 0 False),
     (KEY_9, kme (ch CHR ''9'') (ch CHR ''('') 0 0 0 False),
     (KEY_0, kme (ch CHR ''0'') (ch CHR '')'') 0 0 0 False),
     (KEY_MINUS, kme (ch CHR ''['') (ch CHR ''{'') 0 0 0 False),
     (KEY_EQUAL, kme (ch CHR '']'') (ch CHR ''}'') 0 0 0 False),
     (KEY_Q, kme 0x27 0x22 0 0 0 False),
     (KEY_W, kme (ch CHR '','') (ch CHR ''<'') 0 0 0 False),
     (KEY_E, kme (ch CHR ''.'') (ch CHR ''>'') 0 0 0 False),
     (KEY_R, kme (ch CHR ''p'') (ch CHR ''P'') 0 0 0 True),
     (KEY_T, kme (ch CHR ''y'') (ch CHR ''Y'') 0 0 0 True),
     (KEY_Y, kme (ch CHR ''f'') (ch CHR ''F'') 0 0 0 True),
     (KEY_U, kme (ch CHR ''g'') (ch CHR ''G'') 0 0 0 True),
     (KEY_I, kme (ch CHR ''c'') (ch CHR ''C'') 0 0 0 True),
     (KEY_O, kme (ch CHR ''r'') (ch CHR ''R'') 0 0 0 True),
     (KEY_P, kme (ch CHR ''l'') (ch CHR ''L'') 0 0 0 True),
     (KEY_LBRACKET, kme (ch CHR ''/'') (ch CHR ''?'') 0 0 0 False),
     (KEY_RBRACKET, kme (ch CHR ''='') (ch CHR ''+'') 0 0 0 False),
     (KEY_A, kme (ch CHR ''a'') (ch CHR ''A'') 0 0 0 True),
     (KEY_S, kme (ch CHR ''o'') (ch CHR ''O'') 0 0 0 True),
     (KEY_D, kme (ch CHR ''e'') (ch CHR ''E'') 0 0 0 True),
     (KEY_F, kme (ch CHR ''u'') (ch CHR ''U'') 0 0 0 True),
     (KEY_G, kme (ch CHR ''i'') (ch CHR ''I'') 0 0 0 True),
     (KEY_H, kme (ch CHR ''d'') (ch CHR ''D'') 0 0 0 True),
     (KEY_J, kme (ch CHR ''h'') (ch CHR ''H'') 0 0 0 True),
     (KEY_K, kme (ch CHR ''t'') (ch CHR ''T'') 0 0 0 True),
     (KEY_L, kme (ch CHR ''n'') (ch CHR ''N'') 0 0 0 True),
     (KEY_SEMICOLON, kme (ch CHR ''s'') (ch CHR ''S'') 0 0 0 True),
     (KEY_APOSTROPHE, kme (ch CHR ''-'') (ch CHR ''_'') 0 0 0 False),
     (KEY_GRAVE, kme 0x60 (ch CHR ''~'') 0 0 0 False),
     (KEY_BACKSLASH, kme 0x5C (ch CHR ''|'') 0 0 0 False),
     (KEY_Z, kme (ch CHR '';'') (ch CHR '':'') 0 0 0 False),
     (KEY_X, kme (ch CHR ''q'') (ch CHR ''Q'') 0 0 0 True),
     (KEY_C, kme (ch CHR ''j'') (ch CHR ''J'') 0 0 0 True),
     (KEY_V, kme (ch CHR ''k'') (ch CHR ''K'') 0 0 0 True),
     (KEY_B, kme (ch CHR ''x'') (ch CHR ''X'') 0 0 0 True),
     (KEY_N, kme (ch CHR ''b'') (ch CHR ''B'') 0 0 0 True),
     (KEY_M, kme (ch CHR ''m'') (ch CHR ''M'') 0 0 0 True),
     (KEY_COMMA, kme (ch CHR ''w'') (ch CHR ''W'') 0 0 0 True),
     (KEY_DOT, kme (ch CHR ''v'') (ch CHR ''V'') 0 0 0 True),
     (KEY_SLASH, kme (ch CHR ''z'') (ch CHR ''Z'') 0 0 0 True),
     (KEY_SPACE, kme (ch CHR '' '') (ch CHR '' '') 0 0 0 False)]\<rparr>"

definition g_compose_table :: "compose_entry_t list" where
  "g_compose_table = [
     \<lparr>dead = (ch CHR ''^''), base = (ch CHR ''a''), result = 0xE2\<rparr>,
     \<lparr>dead = (ch CHR ''^''), base = (ch CHR ''e''), result = 0xEA\<rparr>,
     \<lparr>dead = (ch CHR ''^''), base = (ch CHR ''i''), result = 0xEE\<rparr>,
     \<lparr>dead = (ch CHR ''^''), base = (ch CHR ''o''), result = 0xF4\<rparr>,
     \<lparr>dead = (ch CHR ''^''), base = (ch CHR ''u''), result = 0xFB\<rparr>,
     \<lparr>dead = (ch CHR ''^''), base = (ch CHR ''A''), result = 0xC2\<rparr>,
     \<lparr>dead = (ch CHR ''^''), base = (ch CHR ''E''), result = 0xCA\<rparr>,
     \<lparr>dead = (ch CHR ''^''), base = (ch CHR ''I''), result = 0xCE\<rparr>,
     \<lparr>dead = (ch CHR ''^''), base = (ch CHR ''O''), result = 0xD4\<rparr>,
     \<lparr>dead = (ch CHR ''^''), base = (ch CHR ''U''), result = 0xDB\<rparr>,
     \<lparr>dead = 0xA8, base = (ch CHR ''a''), result = 0xE4\<rparr>,
     \<lparr>dead = 0xA8, base = (ch CHR ''e''), result = 0xEB\<rparr>,
     \<lparr>dead = 0xA8, base = (ch CHR ''i''), result = 0xEF\<rparr>,
     \<lparr>dead = 0xA8, base = (ch CHR ''o''), result = 0xF6\<rparr>,
     \<lparr>dead = 0xA8, base = (ch CHR ''u''), result = 0xFC\<rparr>,
     \<lparr>dead = 0xA8, base = (ch CHR ''y''), result = 0xFF\<rparr>,
     \<lparr>dead = 0xA8, base = (ch CHR ''A''), result = 0xC4\<rparr>,
     \<lparr>dead = 0xA8, base = (ch CHR ''E''), result = 0xCB\<rparr>,
     \<lparr>dead = 0xA8, base = (ch CHR ''I''), result = 0xCF\<rparr>,
     \<lparr>dead = 0xA8, base = (ch CHR ''O''), result = 0xD6\<rparr>,
     \<lparr>dead = 0xA8, base = (ch CHR ''U''), result = 0xDC\<rparr>,
     \<lparr>dead = 0xB4, base = (ch CHR ''a''), result = 0xE1\<rparr>,
     \<lparr>dead = 0xB4, base = (ch CHR ''e''), result = 0xE9\<rparr>,
     \<lparr>dead = 0xB4, base = (ch CHR ''i''), result = 0xED\<rparr>,
     \<lparr>dead = 0xB4, base = (ch CHR ''o''), result = 0xF3\<rparr>,
     \<lparr>dead = 0xB4, base = (ch CHR ''u''), result = 0xFA\<rparr>,
     \<lparr>dead = 0xB4, base = (ch CHR ''A''), result = 0xC1\<rparr>,
     \<lparr>dead = 0xB4, base = (ch CHR ''E''), result = 0xC9\<rparr>,
     \<lparr>dead = 0xB4, base = (ch CHR ''I''), result = 0xCD\<rparr>,
     \<lparr>dead = 0xB4, base = (ch CHR ''O''), result = 0xD3\<rparr>,
     \<lparr>dead = 0xB4, base = (ch CHR ''U''), result = 0xDA\<rparr>,
     \<lparr>dead = 0x60, base = (ch CHR ''a''), result = 0xE0\<rparr>,
     \<lparr>dead = 0x60, base = (ch CHR ''e''), result = 0xE8\<rparr>,
     \<lparr>dead = 0x60, base = (ch CHR ''i''), result = 0xEC\<rparr>,
     \<lparr>dead = 0x60, base = (ch CHR ''o''), result = 0xF2\<rparr>,
     \<lparr>dead = 0x60, base = (ch CHR ''u''), result = 0xF9\<rparr>,
     \<lparr>dead = 0, base = 0, result = 0\<rparr>]"

definition g_layouts :: "keyboard_layout_t list" where
  "g_layouts = [layout_qwerty, layout_azerty, layout_qwertz, layout_dvorak]"

definition layout_entry :: "keyboard_layout_t \<Rightarrow> u16 \<Rightarrow> keymap_entry_t" where
  "layout_entry l k = (case map_of (entries l) k of Some e \<Rightarrow> e | None \<Rightarrow> kme 0 0 0 0 0 False)"

section \<open>State and operations\<close>

record keymap =
  g_current :: keymap_id_t
  g_active_dead :: u32

definition keymap_init :: "keymap \<Rightarrow> keymap" where
  "keymap_init st = st\<lparr>g_current := KEYMAP_QWERTY\<rparr>"

definition keymap_get_count :: int where
  "keymap_get_count = int (length g_layouts)"

definition keymap_set_current :: "keymap_id_t \<Rightarrow> keymap \<Rightarrow> keymap" where
  "keymap_set_current kid st =
     (if sint kid < 0 \<or> keymap_get_count \<le> sint kid then st else st\<lparr>g_current := kid\<rparr>)"

definition keymap_get_current :: "keymap \<Rightarrow> keymap_id_t" where
  "keymap_get_current st = g_current st"

definition keymap_get_name :: "keymap_id_t \<Rightarrow> string" where
  "keymap_get_name kid =
     (if sint kid < 0 \<or> keymap_get_count \<le> sint kid then ''Unknown''
      else layout_name (g_layouts ! unat kid))"

definition make_result :: "u32 \<Rightarrow> bool \<Rightarrow> keymap_result_t" where
  "make_result cp d = \<lparr>codepoint = cp, is_text = (cp \<noteq> 0), is_dead = d\<rparr>"

text \<open>The loop over the table stops at the entry whose \<open>dead\<close> is zero.\<close>

fun compose_scan :: "compose_entry_t list \<Rightarrow> u32 \<Rightarrow> u32 \<Rightarrow> u32" where
  "compose_scan [] d b = 0"
| "compose_scan (e # es) d b =
     (if dead e = 0 then 0
      else if dead e = d \<and> base e = b then result e
      else compose_scan es d b)"

definition keymap_compose :: "u32 \<Rightarrow> u32 \<Rightarrow> u32" where
  "keymap_compose dead_codepoint base_codepoint =
     compose_scan g_compose_table dead_codepoint base_codepoint"

text \<open>Which column of the entry the modifiers select, and the dead bit of that column.\<close>

definition select_level :: "keymap_entry_t \<Rightarrow> u32 \<Rightarrow> u32 \<times> u8" where
  "select_level e mods =
     (let shifted = (mods AND KB_MOD_SHIFT \<noteq> 0);
          caps = (mods AND KB_MOD_CAPS \<noteq> 0);
          ag = (mods AND KB_MOD_ALTGR \<noteq> 0)
      in if ag then
           (if shifted then (shift_altgr e, DEAD_SHIFT_ALTGR) else (altgr e, DEAD_ALTGR))
         else if alpha e then
           (let uppercase = (shifted \<noteq> caps)
            in (if uppercase then shift e else normal e, if uppercase then DEAD_SHIFT else DEAD_NORMAL))
         else (if shifted then shift e else normal e, if shifted then DEAD_SHIFT else DEAD_NORMAL))"

definition keymap_translate_keycode :: "u16 \<Rightarrow> u32 \<Rightarrow> keymap \<Rightarrow> keymap_result_t \<times> keymap" where
  "keymap_translate_keycode keycode mods st =
     (if keycode \<le> 0 \<or> KEY_MAX \<le> keycode then (make_result 0 False, st)
      else
        let e = layout_entry (g_layouts ! unat (g_current st)) keycode in
        if normal e = 0 \<and> shift e = 0 \<and> altgr e = 0 \<and> shift_altgr e = 0
        then (make_result 0 False, st)
        else
          let (cp, dead_mask_bit) = select_level e mods;
              dead_key = (dead_mask e AND dead_mask_bit \<noteq> 0)
          in if dead_key \<and> cp \<noteq> 0 then (make_result 0 True, st\<lparr>g_active_dead := cp\<rparr>)
             else if g_active_dead st \<noteq> 0 \<and> cp \<noteq> 0 then
               let combined = keymap_compose (g_active_dead st) cp;
                   st = st\<lparr>g_active_dead := 0\<rparr>
               in if combined \<noteq> 0 then (make_result combined False, st)
                  else (make_result cp False, st)
             else (make_result cp False, st))"

definition keymap_legacy_key :: "u16 \<Rightarrow> u32 \<Rightarrow> int" where
  "keymap_legacy_key keycode cp =
     (if cp \<noteq> 0 \<and> cp < 128 then uint cp
      else case map_of
        [(KEY_ESC, 27), (KEY_BACKSPACE, 8), (KEY_TAB, 9), (KEY_ENTER, 10), (KEY_KP_ENTER, 10),
         (KEY_ARROW_UP, 17), (KEY_ARROW_DOWN, 18), (KEY_ARROW_LEFT, 19), (KEY_ARROW_RIGHT, 20),
         (KEY_LEFT_CTRL, 21), (KEY_RIGHT_CTRL, 21), (KEY_LEFT_SHIFT, 24), (KEY_RIGHT_SHIFT, 24),
         (KEY_LEFT_ALT, 25), (KEY_RIGHT_ALT, 22), (KEY_CAPS_LOCK, 23), (KEY_DELETE, 127),
         (KEY_F1, 141), (KEY_F2, 142), (KEY_F3, 143), (KEY_F4, 144), (KEY_F5, 145), (KEY_F6, 146),
         (KEY_F7, 147), (KEY_F8, 148), (KEY_F9, 149), (KEY_F10, 150), (KEY_F11, 151), (KEY_F12, 152)]
        keycode of Some v \<Rightarrow> v | None \<Rightarrow> 0)"

section \<open>What the tables contain\<close>

definition dead_codepoints :: "u32 list" where
  "dead_codepoints = [ch CHR ''^'', 0xA8, 0xB4]"

definition dead_ok :: "keymap_entry_t \<Rightarrow> bool" where
  "dead_ok e \<longleftrightarrow>
     (dead_mask e AND DEAD_NORMAL \<noteq> 0 \<longrightarrow> normal e \<in> set dead_codepoints) \<and>
     (dead_mask e AND DEAD_SHIFT \<noteq> 0 \<longrightarrow> shift e \<in> set dead_codepoints) \<and>
     dead_mask e AND DEAD_ALTGR = 0 \<and> dead_mask e AND DEAD_SHIFT_ALTGR = 0"

lemmas layout_defs = layout_qwerty_def layout_azerty_def layout_qwertz_def layout_dvorak_def

lemma layouts_dead_ok: "list_all (\<lambda>l. list_all (\<lambda>(k, e). dead_ok e) (entries l)) g_layouts"
  by (simp add: g_layouts_def layout_defs dead_ok_def dead_codepoints_def)

lemma length_g_layouts [simp]: "length g_layouts = 4"
  by (simp add: g_layouts_def)

lemma layout_entry_all:
  assumes "list_all (\<lambda>l. list_all (\<lambda>(k, e). P e) (entries l)) g_layouts"
    and "n < 4" and "P (kme 0 0 0 0 0 False)"
  shows "P (layout_entry (g_layouts ! n) k)"
proof (cases "map_of (entries (g_layouts ! n)) k")
  case (Some e)
  then have "(k, e) \<in> set (entries (g_layouts ! n))" by (rule map_of_SomeD)
  then show ?thesis using assms(1,2) Some by (auto simp: list_all_iff layout_entry_def)
qed (use assms(3) in \<open>simp add: layout_entry_def\<close>)

lemma dead_ok_zero: "dead_ok (kme 0 0 0 0 0 False)"
  by (simp add: dead_ok_def)

lemma layout_entry_dead_ok: "n < 4 \<Longrightarrow> dead_ok (layout_entry (g_layouts ! n) k)"
  using layout_entry_all [OF layouts_dead_ok _ dead_ok_zero] .

lemma select_level_dead:
  assumes "dead_ok e" and "select_level e mods = (cp, b)" and "dead_mask e AND b \<noteq> 0"
  shows "cp \<in> set dead_codepoints"
  using assms by (auto simp: select_level_def dead_ok_def Let_def split: if_splits)

lemma dead_codepoints_nonzero: "0 \<notin> set dead_codepoints"
  by (simp add: dead_codepoints_def)

text \<open>The search of the compose table, as a lookup by dead key and base.\<close>

lemma compose_scan_lookup:
  "list_all (\<lambda>e. dead e \<noteq> 0) es \<Longrightarrow> compose_scan (es @ [\<lparr>dead = 0, base = 0, result = 0\<rparr>]) d b =
     (case map_of (map (\<lambda>e. ((dead e, base e), result e)) es) (d, b) of Some r \<Rightarrow> r | None \<Rightarrow> 0)"
  by (induction es) auto

section \<open>Invariant of the keymap state\<close>

definition keymap_ok :: "keymap \<Rightarrow> bool" where
  "keymap_ok st \<longleftrightarrow> unat (g_current st) < 4 \<and> g_active_dead st \<in> set (0 # dead_codepoints)"

lemma keymap_ok_translate:
  assumes "keymap_ok st" shows "keymap_ok (snd (keymap_translate_keycode k mods st))"
proof -
  let ?e = "layout_entry (g_layouts ! unat (g_current st)) k"
  obtain cp b where s: "select_level ?e mods = (cp, b)" by fastforce
  have "dead_mask ?e AND b \<noteq> 0 \<Longrightarrow> cp \<in> set dead_codepoints"
    using select_level_dead [OF _ s] layout_entry_dead_ok assms by (auto simp: keymap_ok_def)
  then show ?thesis
    using assms s by (auto simp: keymap_translate_keycode_def Let_def keymap_ok_def)
qed

lemma keymap_ok_init: "g_active_dead st \<in> set (0 # dead_codepoints) \<Longrightarrow> keymap_ok (keymap_init st)"
  by (simp add: keymap_ok_def keymap_init_def)

lemma keymap_ok_set_current: "keymap_ok st \<Longrightarrow> keymap_ok (keymap_set_current kid st)"
  using unat_sint_nonneg [of kid]
  by (auto simp: keymap_ok_def keymap_set_current_def keymap_get_count_def)

inductive keymap_step :: "keymap \<Rightarrow> keymap \<Rightarrow> bool" where
  step_init: "keymap_step st (keymap_init st)"
| step_set: "keymap_step st (keymap_set_current kid st)"
| step_translate: "keymap_step st (snd (keymap_translate_keycode k mods st))"

inductive_cases keymap_stepE: "keymap_step st st'"

lemma keymap_ok_step: "keymap_ok st \<Longrightarrow> keymap_step st st' \<Longrightarrow> keymap_ok st'"
  by (erule keymap_stepE)
    (auto intro: keymap_ok_set_current keymap_ok_translate keymap_ok_init simp: keymap_ok_def [of st])

interpretation keymap_sys: invariant "\<lambda>st. st = \<lparr>g_current = KEYMAP_QWERTY, g_active_dead = 0\<rparr>" keymap_step keymap_ok
  by unfold_locales (auto simp: keymap_ok_def [of "\<lparr>g_current = 0, g_active_dead = 0\<rparr>"] intro: keymap_ok_step)

section \<open>Properties of the keymap\<close>

text \<open>C8. In every reachable state the selected layout exists, so the table access is in bounds,
  and the pending dead key is none, circumflex, diaeresis or acute. The grave accent is never
  pending, so the five rows of the compose table for it are unreachable.\<close>

theorem keymap_reach_ok:
  assumes "reach (\<lambda>st. st = \<lparr>g_current = KEYMAP_QWERTY, g_active_dead = 0\<rparr>) keymap_step st"
  shows "unat (g_current st) < length g_layouts \<and> g_active_dead st \<in> {0, ch CHR ''^'', 0xA8, 0xB4} \<and>
    g_active_dead st \<noteq> 0x60"
  using keymap_sys.reach_inv [OF assms] by (auto simp: keymap_ok_def dead_codepoints_def)

theorem keymap_reach_ok_witness:
  "unat (g_current (keymap_set_current KEYMAP_AZERTY \<lparr>g_current = KEYMAP_QWERTY, g_active_dead = 0\<rparr>))
     < length g_layouts"
proof -
  have "reach (\<lambda>st. st = \<lparr>g_current = KEYMAP_QWERTY, g_active_dead = 0\<rparr>) keymap_step
      (keymap_set_current KEYMAP_AZERTY \<lparr>g_current = KEYMAP_QWERTY, g_active_dead = 0\<rparr>)"
    by (rule reach_step, rule reach_init, rule refl, rule step_set)
  from keymap_reach_ok [OF this] show ?thesis by blast
qed

text \<open>A dead key shows nothing and waits; the next key that has a character either combines
  with it, when the compose table has the pair, or shows its own character, and in both cases
  nothing stays pending.\<close>

lemma dead_key_then_base:
  assumes "keymap_ok st" and "keymap_translate_keycode k1 m1 st = (r1, st1)" and "is_dead r1"
    and "fst (keymap_translate_keycode k2 m2 (st\<lparr>g_active_dead := 0\<rparr>)) = make_result cp False" and "cp \<noteq> 0"
  shows "codepoint r1 = 0 \<and> \<not> is_text r1 \<and>
    keymap_translate_keycode k2 m2 st1 =
      (make_result (if keymap_compose (g_active_dead st1) cp \<noteq> 0 then keymap_compose (g_active_dead st1) cp else cp) False,
       st1\<lparr>g_active_dead := 0\<rparr>)"
proof -
  have r1: "codepoint r1 = 0" "\<not> is_text r1" and st1: "g_current st1 = g_current st" "g_active_dead st1 \<noteq> 0"
    using assms(2,3) by (auto simp: keymap_translate_keycode_def make_result_def Let_def split: if_splits prod.splits)
  then show ?thesis
    using assms(4,5) by (auto simp: keymap_translate_keycode_def make_result_def Let_def st1 split: if_splits prod.splits)
qed

end
