(* ===== verification/Keyboard.thy ===== *)
theory Keyboard
  imports Keymap
begin

text \<open>
  \<open>input/keyboard.c\<close> and \<open>input/keyboard.h\<close>: decoding of set 1 scan codes, tracking of the
  modifiers, and the keyboard events built from both and the keymap.
\<close>

record keyboard_event_t =
  ev_keycode :: u16
  ev_codepoint :: u32
  ev_mods :: u32
  ev_pressed :: bool
  ev_repeat :: bool
  ev_is_text :: bool

definition set1_table :: "(u8 \<times> u16) list" where
  "set1_table = [
     (0x01, KEY_ESC), (0x02, KEY_1), (0x03, KEY_2), (0x04, KEY_3),
     (0x05, KEY_4), (0x06, KEY_5), (0x07, KEY_6), (0x08, KEY_7),
     (0x09, KEY_8), (0x0A, KEY_9), (0x0B, KEY_0), (0x0C, KEY_MINUS),
     (0x0D, KEY_EQUAL), (0x0E, KEY_BACKSPACE), (0x0F, KEY_TAB), (0x10, KEY_Q),
     (0x11, KEY_W), (0x12, KEY_E), (0x13, KEY_R), (0x14, KEY_T),
     (0x15, KEY_Y), (0x16, KEY_U), (0x17, KEY_I), (0x18, KEY_O),
     (0x19, KEY_P), (0x1A, KEY_LBRACKET), (0x1B, KEY_RBRACKET), (0x1C, KEY_ENTER),
     (0x1D, KEY_LEFT_CTRL), (0x1E, KEY_A), (0x1F, KEY_S), (0x20, KEY_D),
     (0x21, KEY_F), (0x22, KEY_G), (0x23, KEY_H), (0x24, KEY_J),
     (0x25, KEY_K), (0x26, KEY_L), (0x27, KEY_SEMICOLON), (0x28, KEY_APOSTROPHE),
     (0x29, KEY_GRAVE), (0x2A, KEY_LEFT_SHIFT), (0x2B, KEY_BACKSLASH), (0x2C, KEY_Z),
     (0x2D, KEY_X), (0x2E, KEY_C), (0x2F, KEY_V), (0x30, KEY_B),
     (0x31, KEY_N), (0x32, KEY_M), (0x33, KEY_COMMA), (0x34, KEY_DOT),
     (0x35, KEY_SLASH), (0x36, KEY_RIGHT_SHIFT), (0x37, KEY_KP_STAR), (0x38, KEY_LEFT_ALT),
     (0x39, KEY_SPACE), (0x3A, KEY_CAPS_LOCK), (0x3B, KEY_F1), (0x3C, KEY_F2),
     (0x3D, KEY_F3), (0x3E, KEY_F4), (0x3F, KEY_F5), (0x40, KEY_F6),
     (0x41, KEY_F7), (0x42, KEY_F8), (0x43, KEY_F9), (0x44, KEY_F10),
     (0x45, KEY_NUM_LOCK), (0x46, KEY_SCROLL_LOCK), (0x47, KEY_KP_7), (0x48, KEY_KP_8),
     (0x49, KEY_KP_9), (0x4A, KEY_KP_MINUS), (0x4B, KEY_KP_4), (0x4C, KEY_KP_5),
     (0x4D, KEY_KP_6), (0x4E, KEY_KP_PLUS), (0x4F, KEY_KP_1), (0x50, KEY_KP_2),
     (0x51, KEY_KP_3), (0x52, KEY_KP_0), (0x53, KEY_KP_DOT), (0x57, KEY_F11),
     (0x58, KEY_F12)]"

definition set1_extended_table :: "(u8 \<times> u16) list" where
  "set1_extended_table = [
     (0x1C, KEY_KP_ENTER), (0x1D, KEY_RIGHT_CTRL), (0x35, KEY_KP_SLASH), (0x38, KEY_RIGHT_ALT),
     (0x47, KEY_HOME), (0x48, KEY_ARROW_UP), (0x49, KEY_PAGE_UP), (0x4B, KEY_ARROW_LEFT),
     (0x4D, KEY_ARROW_RIGHT), (0x4F, KEY_END), (0x50, KEY_ARROW_DOWN), (0x51, KEY_PAGE_DOWN),
     (0x52, KEY_INSERT), (0x53, KEY_DELETE)]"

text \<open>The static variables of the file: \<open>current_mods\<close>, and \<open>pending_extended\<close> of the decoder; the
  keymap state lives in \<open>keymap.c\<close>.\<close>

record keyboard =
  current_mods :: u32
  pending_extended :: bool
  kmap :: keymap

definition table_get :: "(u8 \<times> u16) list \<Rightarrow> u8 \<Rightarrow> u16" where
  "table_get t i = (case map_of t i of Some k \<Rightarrow> k | None \<Rightarrow> 0)"

definition keyboard_keycode_from_set1 :: "u8 \<Rightarrow> bool \<Rightarrow> u16" where
  "keyboard_keycode_from_set1 scancode extended =
     (let index = scancode AND 0x7F in
      if 128 \<le> index then KEY_NONE
      else if extended then table_get set1_extended_table index
      else table_get set1_table index)"

definition update_modifier :: "u16 \<Rightarrow> bool \<Rightarrow> u32 \<Rightarrow> u32" where
  "update_modifier keycode pressed m =
     (if keycode = KEY_LEFT_SHIFT \<or> keycode = KEY_RIGHT_SHIFT then
        (if pressed then m OR KB_MOD_SHIFT else m AND NOT KB_MOD_SHIFT)
      else if keycode = KEY_LEFT_CTRL \<or> keycode = KEY_RIGHT_CTRL then
        (if pressed then m OR KB_MOD_CTRL else m AND NOT KB_MOD_CTRL)
      else if keycode = KEY_LEFT_ALT then
        (if pressed then m OR KB_MOD_ALT else m AND NOT KB_MOD_ALT)
      else if keycode = KEY_RIGHT_ALT then
        (if pressed then m OR KB_MOD_ALTGR else m AND NOT KB_MOD_ALTGR)
      else if keycode = KEY_CAPS_LOCK then (if pressed then m XOR KB_MOD_CAPS else m)
      else if keycode = KEY_NUM_LOCK then (if pressed then m XOR KB_MOD_NUM else m)
      else if keycode = KEY_SCROLL_LOCK then (if pressed then m XOR KB_MOD_SCROLL else m)
      else m)"

text \<open>The event stored through \<open>ev\<close> when the function returns true, and the new state.\<close>

definition keyboard_handle_set1_scancode :: "u8 \<Rightarrow> keyboard \<Rightarrow> keyboard_event_t option \<times> keyboard" where
  "keyboard_handle_set1_scancode scancode st =
     (if scancode = 0xE0 then (None, st\<lparr>pending_extended := True\<rparr>)
      else
        let extended = pending_extended st;
            st = st\<lparr>pending_extended := False\<rparr>;
            pressed = (scancode AND 0x80 = 0);
            keycode = keyboard_keycode_from_set1 scancode extended
        in if keycode = KEY_NONE then (None, st)
           else
             let st = st\<lparr>current_mods := update_modifier keycode pressed (current_mods st)\<rparr>;
                 (translated, km) = keymap_translate_keycode keycode (current_mods st) (kmap st);
                 st = st\<lparr>kmap := km\<rparr>
             in (Some \<lparr>ev_keycode = keycode, ev_codepoint = codepoint translated, ev_mods = current_mods st,
                   ev_pressed = pressed, ev_repeat = False, ev_is_text = (is_text translated \<and> pressed)\<rparr>, st))"

definition keyboard_init :: "keyboard \<Rightarrow> keyboard" where
  "keyboard_init st = st\<lparr>current_mods := 0, kmap := keymap_init (kmap st)\<rparr>"

definition keyboard_shift_pressed :: "keyboard \<Rightarrow> bool" where
  "keyboard_shift_pressed st \<longleftrightarrow> current_mods st AND KB_MOD_SHIFT \<noteq> 0"

definition keyboard_ctrl_pressed :: "keyboard \<Rightarrow> bool" where
  "keyboard_ctrl_pressed st \<longleftrightarrow> current_mods st AND KB_MOD_CTRL \<noteq> 0"

definition keyboard_get_modifiers :: "keyboard \<Rightarrow> u32" where
  "keyboard_get_modifiers st = current_mods st"

section \<open>Decoding\<close>

text \<open>The tables list their keys in ascending order, so no key stands for two scan codes.\<close>

lemma distinct_ascending: "successively (<) xs \<Longrightarrow> distinct (xs :: 'a :: linorder list)"
  by (simp add: successively_conv_sorted_wrt strict_sorted_iff transp_on_less)

lemma set1_keys: "distinct (map snd (set1_table @ set1_extended_table))"
  by (rule distinct_ascending) (simp add: set1_table_def set1_extended_table_def)

lemma set1_codes: "distinct (map fst set1_table)" "distinct (map fst set1_extended_table)"
  by (rule distinct_ascending, simp add: set1_table_def set1_extended_table_def)+

lemma table_get_in: "table_get t i \<noteq> 0 \<Longrightarrow> (i, table_get t i) \<in> set t"
  by (auto simp: table_get_def split: option.splits dest: map_of_SomeD)

lemma distinct_snd_inj:
  "distinct (map snd xs) \<Longrightarrow> (a, k) \<in> set xs \<Longrightarrow> (b, k) \<in> set xs \<Longrightarrow> a = b"
  by (metis distinct_map inj_on_eq_iff prod.inject snd_conv)

lemma keycode_from_set1_eq:
  "keyboard_keycode_from_set1 sc e = table_get (if e then set1_extended_table else set1_table) (sc AND 0x7F)"
proof -
  have "sc AND 0x7F \<le> 0x7F" by (rule word_and_le1)
  then have "\<not> 128 \<le> sc AND 0x7F" by (simp add: word_le_nat_alt)
  then show ?thesis by (simp add: keyboard_keycode_from_set1_def Let_def)
qed

text \<open>Every byte of the decoder is unambiguous: two scan codes that decode to the same key have
  the same prefix and differ at most in the release bit. The bound check on the index never
  fires.\<close>

lemma set1_decode_injective:
  assumes "keyboard_keycode_from_set1 a e = k" "keyboard_keycode_from_set1 b f = k" "k \<noteq> KEY_NONE"
  shows "e = f \<and> a AND 0x7F = b AND 0x7F"
proof -
  have a: "(a AND 0x7F, k) \<in> set (if e then set1_extended_table else set1_table)"
    and b: "(b AND 0x7F, k) \<in> set (if f then set1_extended_table else set1_table)"
    using assms table_get_in by (metis keycode_from_set1_eq)+
  have d: "distinct (map snd set1_table)" "distinct (map snd set1_extended_table)"
    "snd ` set set1_table \<inter> snd ` set set1_extended_table = {}"
    using set1_keys by auto
  have "e = f"
    using a b d(3) by (cases e; cases f) (force simp: disjoint_iff image_iff)+
  then show ?thesis using a b d distinct_snd_inj by (cases f) fastforce+
qed

section \<open>Modifiers\<close>

lemma mod_bits:
  "m AND KB_MOD_SHIFT \<noteq> 0 \<longleftrightarrow> bit m 0" "m AND KB_MOD_CTRL \<noteq> 0 \<longleftrightarrow> bit m 1"
  "m AND KB_MOD_ALT \<noteq> 0 \<longleftrightarrow> bit m 2" "m AND KB_MOD_ALTGR \<noteq> 0 \<longleftrightarrow> bit m 3"
  "m AND KB_MOD_CAPS \<noteq> 0 \<longleftrightarrow> bit m 4"
  using and_exp_eq_0_iff_not_bit [of m 0] and_exp_eq_0_iff_not_bit [of m 1] and_exp_eq_0_iff_not_bit [of m 2]
    and_exp_eq_0_iff_not_bit [of m 3] and_exp_eq_0_iff_not_bit [of m 4] by simp_all

lemma bit_update_modifier:
  "bit (update_modifier k p m) 0 \<longleftrightarrow> (if k = KEY_LEFT_SHIFT \<or> k = KEY_RIGHT_SHIFT then p else bit m 0)"
  "bit (update_modifier k p m) 1 \<longleftrightarrow> (if k = KEY_LEFT_CTRL \<or> k = KEY_RIGHT_CTRL then p else bit m 1)"
  "bit (update_modifier k p m) 2 \<longleftrightarrow> (if k = KEY_LEFT_ALT then p else bit m 2)"
  "bit (update_modifier k p m) 3 \<longleftrightarrow> (if k = KEY_RIGHT_ALT then p else bit m 3)"
  "bit (update_modifier k p m) 4 \<longleftrightarrow> (if k = KEY_CAPS_LOCK \<and> p then \<not> bit m 4 else bit m 4)"
  by (simp_all add: update_modifier_def bit_and_iff bit_or_iff bit_xor_iff bit_not_iff)

text \<open>What the modifiers should be after a sequence of key events: held keys by their last event,
  locks by the number of presses.\<close>

fun last_pressed :: "(u16 \<Rightarrow> bool) \<Rightarrow> (u16 \<times> bool) list \<Rightarrow> bool" where
  "last_pressed K [] = False"
| "last_pressed K ((k, p) # evs) = (if K k \<and> \<not> (\<exists>e \<in> set evs. K (fst e)) then p else last_pressed K evs)"

definition run_modifiers :: "(u16 \<times> bool) list \<Rightarrow> u32 \<Rightarrow> u32" where
  "run_modifiers evs m = fold (\<lambda>(k, p). update_modifier k p) evs m"

lemma run_modifiers_simps [simp]:
  "run_modifiers [] m = m" "run_modifiers ((k, p) # evs) m = run_modifiers evs (update_modifier k p m)"
  by (simp_all add: run_modifiers_def)

lemma run_held:
  assumes "\<And>k p m. bit (update_modifier k p m) n \<longleftrightarrow> (if K k then p else bit m n)"
  shows "bit (run_modifiers evs m) n \<longleftrightarrow> (if \<exists>e \<in> set evs. K (fst e) then last_pressed K evs else bit m n)"
proof (induction evs arbitrary: m)
  case (Cons e evs)
  then show ?case by (cases e; cases "\<exists>x \<in> set evs. K (fst x)") (simp_all add: assms)
qed simp

lemma run_caps:
  "bit (run_modifiers evs m) 4 \<longleftrightarrow> bit m 4 \<noteq> odd (length (filter (\<lambda>e. e = (KEY_CAPS_LOCK, True)) evs))"
proof (induction evs arbitrary: m)
  case (Cons e evs)
  then show ?case
    by (cases e; cases "e = (KEY_CAPS_LOCK, True)"; cases "bit m 4") (simp_all add: bit_update_modifier)
qed simp

lemma last_pressed_none: "\<not> (\<exists>e \<in> set evs. K (fst e)) \<Longrightarrow> \<not> last_pressed K evs"
  by (induction evs) auto

lemma run_held_from_zero:
  assumes "\<And>k p m. bit (update_modifier k p m) n \<longleftrightarrow> (if K k then p else bit m n)"
  shows "bit (run_modifiers evs 0) n \<longleftrightarrow> last_pressed K evs"
  using run_held [of n K, OF assms, of evs 0] last_pressed_none [of evs K] by auto

text \<open>C9. After any sequence of key presses and releases from \<open>keyboard_init\<close>, the shift, control,
  alt and alt-gr bits say whether the last event of such a key was a press, and the caps lock
  bit whether caps lock was pressed an odd number of times. In particular releasing one of
  the two shift keys clears the bit even when the other is still down.\<close>

theorem modifier_trace:
  "let m = run_modifiers evs 0 in
   (m AND KB_MOD_SHIFT \<noteq> 0 \<longleftrightarrow> last_pressed (\<lambda>k. k = KEY_LEFT_SHIFT \<or> k = KEY_RIGHT_SHIFT) evs) \<and>
   (m AND KB_MOD_CTRL \<noteq> 0 \<longleftrightarrow> last_pressed (\<lambda>k. k = KEY_LEFT_CTRL \<or> k = KEY_RIGHT_CTRL) evs) \<and>
   (m AND KB_MOD_ALT \<noteq> 0 \<longleftrightarrow> last_pressed (\<lambda>k. k = KEY_LEFT_ALT) evs) \<and>
   (m AND KB_MOD_ALTGR \<noteq> 0 \<longleftrightarrow> last_pressed (\<lambda>k. k = KEY_RIGHT_ALT) evs) \<and>
   (m AND KB_MOD_CAPS \<noteq> 0 \<longleftrightarrow> odd (length (filter (\<lambda>e. e = (KEY_CAPS_LOCK, True)) evs)))"
  unfolding Let_def mod_bits
  using run_held_from_zero [OF bit_update_modifier(1)] run_held_from_zero [OF bit_update_modifier(2)]
    run_held_from_zero [OF bit_update_modifier(3)] run_held_from_zero [OF bit_update_modifier(4)]
    run_caps [of evs 0] by simp

section \<open>The characters a keyboard can produce\<close>

definition printable :: "u32 \<Rightarrow> bool" where
  "printable cp \<longleftrightarrow> cp = 0 \<or> 32 \<le> cp \<and> cp < 256 \<or> cp = 0x20AC"

definition entry_printable :: "keymap_entry_t \<Rightarrow> bool" where
  "entry_printable e \<longleftrightarrow> printable (normal e) \<and> printable (shift e) \<and> printable (altgr e) \<and> printable (shift_altgr e)"

lemma layouts_printable: "list_all (\<lambda>l. list_all (\<lambda>(k, e). entry_printable e) (entries l)) g_layouts"
  by (simp add: g_layouts_def layout_defs entry_printable_def printable_def)

lemma printable_byte:
  assumes "printable cp" "cp \<noteq> 0" shows "32 \<le> (ucast cp :: u8)"
proof -
  have "unat (ucast cp :: u8) = unat cp mod 256" by (simp add: unsigned_ucast_eq take_bit_eq_mod)
  moreover have "32 \<le> unat cp \<and> unat cp < 256 \<or> unat cp = 0x20AC"
    using assms by (auto simp: printable_def word_le_nat_alt word_less_nat_alt)
  ultimately show ?thesis by (auto simp: word_le_nat_alt)
qed

lemma compose_printable: "printable (keymap_compose d b)"
proof -
  have "list_all (\<lambda>e. printable (result e)) g_compose_table"
    by (simp add: g_compose_table_def printable_def)
  moreover have "list_all (\<lambda>e. printable (result e)) es \<Longrightarrow> printable (compose_scan es d b)" for es
    by (induction es) (auto simp: printable_def)
  ultimately show ?thesis by (simp add: keymap_compose_def)
qed

lemma translate_printable:
  assumes "keymap_ok st"
  shows "printable (codepoint (fst (keymap_translate_keycode k mods st)))"
proof -
  let ?e = "layout_entry (g_layouts ! unat (g_current st)) k"
  have "entry_printable ?e"
    using assms by (intro layout_entry_all [OF layouts_printable])
      (auto simp: keymap_ok_def entry_printable_def printable_def)
  obtain cp b where sel: "select_level ?e mods = (cp, b)" by fastforce
  have "printable cp"
    using \<open>entry_printable ?e\<close> sel by (auto simp: select_level_def entry_printable_def Let_def split: if_splits)
  moreover have "printable 0" by (simp add: printable_def)
  ultimately show ?thesis
    using compose_printable [of "g_active_dead st" cp]
    by (simp add: keymap_translate_keycode_def make_result_def Let_def sel)
qed

end
