(* ===== verification/Kbd_Buffer.thy ===== *)
theory Kbd_Buffer
  imports Prelude
begin

text \<open>
  \<open>kernel/kbd_buffer.c\<close>: the ring buffer between the keyboard interrupt and \<open>sys_read\<close>. It
  implements a bounded first-in first-out queue of 127 characters that drops what does not
  fit; the locale \<open>bounded_queue\<close> is that contract.
\<close>

definition KBD_BUF_SIZE :: u32 where
  "KBD_BUF_SIZE = 128"

record kbd_buffer =
  g_buf :: "u8 list"
  g_head :: u32
  g_tail :: u32

definition kbd_buffer_empty :: kbd_buffer where
  "kbd_buffer_empty = \<lparr>g_buf = replicate 128 0, g_head = 0, g_tail = 0\<rparr>"

definition kbd_buffer_push :: "kbd_buffer \<Rightarrow> u8 \<Rightarrow> kbd_buffer" where
  "kbd_buffer_push s c =
     (let nxt = (g_head s + 1) mod KBD_BUF_SIZE in
      if nxt = g_tail s then s
      else s\<lparr>g_buf := (g_buf s)[unat (g_head s) := c], g_head := nxt\<rparr>)"

text \<open>The result is the character stored through \<open>out\<close>, or \<open>None\<close> for \<open>false\<close>.\<close>

definition kbd_buffer_pop :: "kbd_buffer \<Rightarrow> u8 option \<times> kbd_buffer" where
  "kbd_buffer_pop s =
     (if g_tail s = g_head s then (None, s)
      else (Some (g_buf s ! unat (g_tail s)), s\<lparr>g_tail := (g_tail s + 1) mod KBD_BUF_SIZE\<rparr>))"

section \<open>The contract of a bounded queue\<close>

locale bounded_queue =
  fixes inv :: "'s \<Rightarrow> bool"
    and contents :: "'s \<Rightarrow> 'a list"
    and push :: "'s \<Rightarrow> 'a \<Rightarrow> 's"
    and pop :: "'s \<Rightarrow> 'a option \<times> 's"
    and cap :: nat
  assumes inv_push: "inv s \<Longrightarrow> inv (push s c)"
    and contents_push: "inv s \<Longrightarrow>
      contents (push s c) = (if length (contents s) < cap then contents s @ [c] else contents s)"
    and pop_empty: "inv s \<Longrightarrow> contents s = [] \<Longrightarrow> pop s = (None, s)"
    and pop_Cons: "inv s \<Longrightarrow> contents s = x # xs \<Longrightarrow>
      \<exists>s'. pop s = (Some x, s') \<and> inv s' \<and> contents s' = xs"
begin

lemma inv_fold_push: "inv s \<Longrightarrow> inv (fold (\<lambda>c q. push q c) cs s)"
  by (induction cs arbitrary: s) (auto simp: inv_push)

text \<open>A burst of pushes keeps the oldest characters and drops the rest.\<close>

lemma contents_fold_push:
  assumes "inv s" and "length (contents s) \<le> cap"
  shows "contents (fold (\<lambda>c q. push q c) cs s) = take cap (contents s @ cs)"
  using assms
proof (induction cs arbitrary: s)
  case (Cons c cs)
  then show ?case
    by (cases "length (contents s) < cap") (auto simp: contents_push inv_push Suc_diff_Suc take_Cons')
qed simp

lemma pop_inv: "inv s \<Longrightarrow> inv (snd (pop s))"
  using pop_empty [of s] pop_Cons [of s] by (cases "contents s") auto

lemma fst_pop: "inv s \<Longrightarrow> fst (pop s) = (if contents s = [] then None else Some (hd (contents s)))"
  using pop_empty [of s] pop_Cons [of s] by (cases "contents s") auto

lemma contents_pop: "inv s \<Longrightarrow> contents (snd (pop s)) = tl (contents s)"
  using pop_empty [of s] pop_Cons [of s] by (cases "contents s") auto

end

section \<open>The ring as a list\<close>

definition ring_inv :: "kbd_buffer \<Rightarrow> bool" where
  "ring_inv s \<longleftrightarrow> length (g_buf s) = 128 \<and> unat (g_head s) < 128 \<and> unat (g_tail s) < 128"

definition ring_length :: "kbd_buffer \<Rightarrow> nat" where
  "ring_length s = (unat (g_head s) + 128 - unat (g_tail s)) mod 128"

definition ring_contents :: "kbd_buffer \<Rightarrow> u8 list" where
  "ring_contents s = map (\<lambda>i. g_buf s ! ((unat (g_tail s) + i) mod 128)) [0..<ring_length s]"

lemma mod_128: "(n :: nat) < 256 \<Longrightarrow> n mod 128 = (if n < 128 then n else n - 128)"
  by (simp add: le_mod_geq)

lemma ring_length_eq:
  assumes "ring_inv s"
  shows "ring_length s = (if unat (g_tail s) \<le> unat (g_head s) then unat (g_head s) - unat (g_tail s)
    else unat (g_head s) + 128 - unat (g_tail s))"
  using assms by (auto simp: ring_inv_def ring_length_def mod_128)

lemma unat_ring_next: "unat h < 128 \<Longrightarrow> unat ((h + 1) mod KBD_BUF_SIZE) = (unat h + 1) mod 128"
  by (simp add: KBD_BUF_SIZE_def unat_mod unat_word_ariths)

lemma length_ring_contents [simp]: "length (ring_contents s) = ring_length s"
  by (simp add: ring_contents_def)

lemma ring_full_iff:
  assumes "ring_inv s"
  shows "(g_head s + 1) mod KBD_BUF_SIZE = g_tail s \<longleftrightarrow> ring_length s = 127"
proof -
  have h: "unat (g_head s) < 128" and t: "unat (g_tail s) < 128" using assms by (auto simp: ring_inv_def)
  have "(g_head s + 1) mod KBD_BUF_SIZE = g_tail s \<longleftrightarrow> (unat (g_head s) + 1) mod 128 = unat (g_tail s)"
    using unat_ring_next [OF h] by (metis unsigned_word_eqI)
  also have "\<dots> \<longleftrightarrow> ring_length s = 127" using h t by (auto simp: ring_length_eq [OF assms] mod_128)
  finally show ?thesis .
qed

lemma ring_length_push:
  assumes "ring_inv s" "ring_length s \<noteq> 127"
  shows "((unat (g_head s) + 1) mod 128 + 128 - unat (g_tail s)) mod 128 = Suc (ring_length s)"
  using assms(2) assms(1) [unfolded ring_inv_def] by (auto simp: ring_length_eq [OF assms(1)] mod_128 split: if_splits)

lemma ring_length_less: "ring_length s < 128"
  by (simp add: ring_length_def)

lemma ring_head_slot:
  assumes "ring_inv s" shows "(unat (g_tail s) + ring_length s) mod 128 = unat (g_head s)"
  using assms [unfolded ring_inv_def] by (auto simp: ring_length_eq [OF assms] mod_128)

lemma ring_slots_apart:
  assumes "ring_inv s" "i < ring_length s" shows "(unat (g_tail s) + i) mod 128 \<noteq> unat (g_head s)"
  using assms(2) assms(1) [unfolded ring_inv_def]
  by (auto simp: ring_length_eq [OF assms(1)] mod_128 split: if_splits)

lemma ring_contents_push:
  assumes inv: "ring_inv s"
  shows "ring_contents (kbd_buffer_push s c) =
    (if ring_length s < 127 then ring_contents s @ [c] else ring_contents s)"
proof (cases "ring_length s = 127")
  case True
  then show ?thesis using ring_full_iff [OF inv] by (simp add: kbd_buffer_push_def Let_def)
next
  case False
  then have "ring_length s < 127" using ring_length_less [of s] by simp
  moreover have nf: "(g_head s + 1) mod KBD_BUF_SIZE \<noteq> g_tail s" using False ring_full_iff [OF inv] by simp
  have h: "unat (g_head s) < 128" "length (g_buf s) = 128" using inv by (auto simp: ring_inv_def)
  let ?s = "s\<lparr>g_buf := (g_buf s)[unat (g_head s) := c], g_head := (g_head s + 1) mod KBD_BUF_SIZE\<rparr>"
  have "ring_length ?s = Suc (ring_length s)"
    using ring_length_push [OF inv False] unat_ring_next [OF h(1)] by (simp add: ring_length_def)
  then have "ring_contents ?s = ring_contents s @ [c]"
    using ring_head_slot [OF inv] ring_slots_apart [OF inv] h
    by (auto simp: ring_contents_def nth_list_update_neq [OF not_sym])
  ultimately show ?thesis using nf by (simp add: kbd_buffer_push_def Let_def)
qed

lemma ring_inv_push: "ring_inv s \<Longrightarrow> ring_inv (kbd_buffer_push s c)"
  by (auto simp: ring_inv_def kbd_buffer_push_def Let_def unat_ring_next)

lemma ring_empty_iff:
  assumes "ring_inv s" shows "ring_length s = 0 \<longleftrightarrow> g_tail s = g_head s"
proof -
  have "ring_length s = 0 \<longleftrightarrow> unat (g_tail s) = unat (g_head s)"
    using assms [unfolded ring_inv_def] by (auto simp: ring_length_eq [OF assms])
  then show ?thesis by (metis unsigned_word_eqI)
qed

lemma ring_pop_Cons:
  assumes inv: "ring_inv s" and c: "ring_contents s = x # xs"
  shows "\<exists>s'. kbd_buffer_pop s = (Some x, s') \<and> ring_inv s' \<and> ring_contents s' = xs"
proof -
  let ?s = "s\<lparr>g_tail := (g_tail s + 1) mod KBD_BUF_SIZE\<rparr>"
  have t: "unat (g_tail s) < 128" using inv by (auto simp: ring_inv_def)
  have len: "ring_length s = Suc (length xs)" using c length_ring_contents [of s] by simp
  have ne: "g_tail s \<noteq> g_head s" using ring_empty_iff [OF inv] len by auto
  have "ring_inv ?s" using inv by (simp add: ring_inv_def unat_ring_next)
  then have rl: "ring_length ?s = length xs"
    using inv [unfolded ring_inv_def] len ne
    by (auto simp: ring_length_eq [OF inv] ring_length_eq unat_ring_next mod_128 word_eq_iff_unsigned split: if_splits)
  have elem: "(x # xs) ! i = g_buf s ! ((unat (g_tail s) + i) mod 128)" if "i < Suc (length xs)" for i
    using that len by (simp add: ring_contents_def del: upt_Suc flip: c)
  have "x = g_buf s ! unat (g_tail s)" using elem [of 0] t by simp
  moreover have "ring_contents ?s = xs"
  proof (rule nth_equalityI)
    show "length (ring_contents ?s) = length xs" using rl by simp
    show "ring_contents ?s ! i = xs ! i" if "i < length (ring_contents ?s)" for i
    proof -
      have "((unat (g_tail s) + 1) mod 128 + i) mod 128 = (unat (g_tail s) + Suc i) mod 128"
        by (simp add: mod_simps)
      then show ?thesis
        using elem [of "Suc i"] that rl t by (simp add: ring_contents_def unat_ring_next)
    qed
  qed
  ultimately show ?thesis using ne inv by (auto simp: kbd_buffer_pop_def ring_inv_def unat_ring_next)
qed

interpretation kbd: bounded_queue ring_inv ring_contents kbd_buffer_push kbd_buffer_pop 127
proof (unfold_locales, goal_cases)
  case (3 s)
  then show ?case using ring_empty_iff [of s] by (auto simp: kbd_buffer_pop_def simp flip: length_0_conv)
qed (simp_all add: ring_inv_push ring_contents_push ring_pop_Cons)

lemma ring_inv_empty: "ring_inv kbd_buffer_empty"
  by (simp add: ring_inv_def kbd_buffer_empty_def)

lemma ring_contents_empty [simp]: "ring_contents kbd_buffer_empty = []"
  by (simp add: ring_contents_def ring_length_def kbd_buffer_empty_def)

section \<open>The keyboard buffer is a queue\<close>

datatype kbd_op = Push u8 | Pop

primrec kbd_exec :: "kbd_op \<Rightarrow> kbd_buffer \<times> u8 list \<Rightarrow> kbd_buffer \<times> u8 list" where
  "kbd_exec (Push c) st = (kbd_buffer_push (fst st) c, snd st)"
| "kbd_exec Pop st = (case kbd_buffer_pop (fst st) of
     (None, s) \<Rightarrow> (s, snd st) | (Some c, s) \<Rightarrow> (s, snd st @ [c]))"

primrec queue_exec :: "kbd_op \<Rightarrow> u8 list \<times> u8 list \<Rightarrow> u8 list \<times> u8 list" where
  "queue_exec (Push c) st = (if length (fst st) < 127 then fst st @ [c] else fst st, snd st)"
| "queue_exec Pop st = (case fst st of [] \<Rightarrow> st | c # q \<Rightarrow> (q, snd st @ [c]))"

lemma kbd_exec_refines:
  assumes "ring_inv (fst st)"
  shows "ring_inv (fst (kbd_exec op st)) \<and>
    apfst ring_contents (kbd_exec op st) = queue_exec op (apfst ring_contents st)"
proof (cases op)
  case (Push c)
  then show ?thesis using assms by (cases st) (simp add: kbd.inv_push kbd.contents_push)
next
  case Pop
  obtain s out where st: "st = (s, out)" by fastforce
  show ?thesis using assms kbd.pop_empty [of s] kbd.pop_Cons [of s] Pop
    by (cases "ring_contents s") (auto simp: st)
qed

text \<open>C7. Every interleaving of interrupt pushes and reader pops behaves as a queue of at most
  127 characters: the reader receives the accepted characters in the order they were typed,
  each once, and what the buffer holds is what was accepted and not yet read.\<close>

theorem kbd_buffer_fifo:
  "apfst ring_contents (fold kbd_exec ops (kbd_buffer_empty, [])) = fold queue_exec ops ([], [])"
proof -
  have "ring_inv (fst st) \<Longrightarrow>
    apfst ring_contents (fold kbd_exec ops st) = fold queue_exec ops (apfst ring_contents st)" for st
    using kbd_exec_refines by (induction ops arbitrary: st) auto
  then show ?thesis by (simp add: ring_inv_empty)
qed

end
