(* ===== verification/Cstring.thy ===== *)
theory Cstring
  imports Prelude
begin

text \<open>
  C strings as lists of bytes, and the string helpers the sources repeat: \<open>vfs_strcmp\<close> of
  \<open>kernel/include/vfs.h\<close>, and \<open>str_eq\<close>, \<open>str_len\<close> and \<open>str_cpy\<close> of \<open>userland/register.c\<close>,
  \<open>userland/pkg.c\<close> and \<open>drivers/hfs/hfs.c\<close>. A string ends at its first zero byte; behind the last
  byte of the list a zero follows.
\<close>

type_synonym cstring = "u8 list"

definition lit :: "string \<Rightarrow> cstring" where
  "lit s = map of_char s"

definition peek :: "cstring \<Rightarrow> u8" where
  "peek s = (case s of [] \<Rightarrow> 0 | c # _ \<Rightarrow> c)"

definition at :: "cstring \<Rightarrow> nat \<Rightarrow> u8" where
  "at s i = (if i < length s then s ! i else 0)"

definition cstr :: "cstring \<Rightarrow> cstring" where
  "cstr s = takeWhile (\<lambda>c. c \<noteq> 0) s"

lemma peek_nonzero: "peek s \<noteq> 0 \<Longrightarrow> s \<noteq> []"
  by (auto simp: peek_def)

lemma length_tl_less: "peek s \<noteq> 0 \<Longrightarrow> length (tl s) < length s"
  by (cases s) (simp_all add: peek_def)

function vfs_strcmp :: "cstring \<Rightarrow> cstring \<Rightarrow> int" where
  "vfs_strcmp s1 s2 =
     (if peek s1 \<noteq> 0 \<and> peek s1 = peek s2 then vfs_strcmp (tl s1) (tl s2)
      else uint (peek s1) - uint (peek s2))"
  by pat_completeness auto
termination
  by (relation "measure (\<lambda>(s1, _). length s1)") (auto simp: length_tl_less simp del: length_tl)

declare vfs_strcmp.simps [simp del]

function str_eq :: "cstring \<Rightarrow> cstring \<Rightarrow> bool" where
  "str_eq a b =
     (if peek a \<noteq> 0 \<and> peek b \<noteq> 0 then
        (if peek a \<noteq> peek b then False else str_eq (tl a) (tl b))
      else peek a = peek b)"
  by pat_completeness auto
termination
  by (relation "measure (\<lambda>(a, _). length a)") (simp_all add: length_tl_less del: length_tl)

declare str_eq.simps [simp del]

function str_len_loop :: "cstring \<Rightarrow> nat \<Rightarrow> nat" where
  "str_len_loop s n = (if at s n \<noteq> 0 then str_len_loop s (n + 1) else n)"
  by pat_completeness auto
termination
  by (relation "measure (\<lambda>(s, n). length s - n)") (auto simp: at_def split: if_splits)

declare str_len_loop.simps [simp del]

definition str_len :: "cstring \<Rightarrow> nat" where
  "str_len s = str_len_loop s 0"

function str_cpy_loop :: "cstring \<Rightarrow> cstring \<Rightarrow> nat \<Rightarrow> nat \<Rightarrow> cstring" where
  "str_cpy_loop dst src mx i =
     (if at src i \<noteq> 0 \<and> i < mx - 1 then str_cpy_loop (dst[i := at src i]) src mx (i + 1)
      else dst[i := 0])"
  by pat_completeness auto
termination
  by (relation "measure (\<lambda>(_, _, mx, i). mx - i)") auto

declare str_cpy_loop.simps [simp del]

definition str_cpy :: "cstring \<Rightarrow> cstring \<Rightarrow> nat \<Rightarrow> cstring" where
  "str_cpy dst src mx = str_cpy_loop dst src mx 0"

section \<open>The helpers in terms of strings\<close>

lemma cstr_Nil [simp]: "cstr [] = []"
  by (simp add: cstr_def)

lemma cstr_Cons: "cstr (c # s) = (if c = 0 then [] else c # cstr s)"
  by (simp add: cstr_def)

lemma cstr_peek: "cstr s = (if peek s = 0 then [] else peek s # cstr (tl s))"
  by (cases s) (simp_all add: peek_def cstr_Cons)

lemma cstr_nonzero: "c \<in> set (cstr s) \<Longrightarrow> c \<noteq> 0"
  by (auto simp: cstr_def dest: set_takeWhileD)

lemma cstr_cstr [simp]: "cstr (cstr s) = cstr s"
  by (simp add: cstr_def)

lemma cstr_id: "0 \<notin> set s \<Longrightarrow> cstr s = s"
  by (simp add: cstr_def takeWhile_eq_all_conv) metis

lemma cstr_append_zero: "0 \<notin> set s \<Longrightarrow> cstr (s @ 0 # t) = s"
  by (induction s) (auto simp: cstr_Cons)

lemma length_cstr: "length (cstr s) \<le> length s"
  by (simp add: cstr_def length_takeWhile_le)

lemma strcmp_eq_0: "vfs_strcmp s1 s2 = 0 \<longleftrightarrow> cstr s1 = cstr s2"
proof (induction s1 s2 rule: vfs_strcmp.induct)
  case (1 s1 s2)
  show ?case
  proof (cases "peek s1 \<noteq> 0 \<and> peek s1 = peek s2")
    case True
    with 1 show ?thesis
      by (subst vfs_strcmp.simps, subst cstr_peek [of s1], subst cstr_peek [of s2]) simp
  next
    case False
    have "uint (peek s1) - uint (peek s2) = 0 \<longleftrightarrow> peek s1 = peek s2" by (simp add: word_uint_eq_iff)
    with False show ?thesis
      by (subst vfs_strcmp.simps, subst cstr_peek [of s1], subst cstr_peek [of s2]) auto
  qed
qed

lemma str_eq_iff: "str_eq a b \<longleftrightarrow> cstr a = cstr b"
proof (induction a b rule: str_eq.induct)
  case (1 a b)
  show ?case
  proof (cases "peek a \<noteq> 0 \<and> peek b \<noteq> 0 \<and> peek a = peek b")
    case True
    with 1 show ?thesis
      by (subst str_eq.simps, subst cstr_peek [of a], subst cstr_peek [of b]) simp
  next
    case False
    then show ?thesis
      by (subst str_eq.simps, subst cstr_peek [of a], subst cstr_peek [of b]) auto
  qed
qed

lemma at_cstr: "i < length (cstr s) \<Longrightarrow> at s i = cstr s ! i \<and> at s i \<noteq> 0"
proof -
  assume i: "i < length (cstr s)"
  then have "cstr s ! i = s ! i" "i < length s"
    using length_cstr [of s] by (auto simp: cstr_def takeWhile_nth)
  moreover have "cstr s ! i \<noteq> 0" using i by (metis cstr_nonzero nth_mem)
  ultimately show ?thesis by (simp add: at_def)
qed

lemma at_end: "at s (length (cstr s)) = 0"
  using nth_length_takeWhile [of "\<lambda>c. c \<noteq> 0" s] by (auto simp: at_def cstr_def)

lemma str_len_loop_eq: "n \<le> length (cstr s) \<Longrightarrow> str_len_loop s n = length (cstr s)"
proof (induction "length (cstr s) - n" arbitrary: n)
  case 0
  then have "n = length (cstr s)" by simp
  then show ?case by (subst str_len_loop.simps) (simp add: at_end)
next
  case (Suc k)
  then have "n < length (cstr s)" by simp
  then show ?case using Suc at_cstr [of n s] by (subst str_len_loop.simps) auto
qed

lemma str_len_eq: "str_len s = length (cstr s)"
  by (simp add: str_len_def str_len_loop_eq)

lemma length_str_cpy_loop: "length (str_cpy_loop dst src mx i) = length dst"
proof (induction dst src mx i rule: str_cpy_loop.induct)
  case (1 dst src mx i)
  then show ?case by (subst str_cpy_loop.simps) simp
qed

lemma length_str_cpy [simp]: "length (str_cpy dst src mx) = length dst"
  by (simp add: str_cpy_def length_str_cpy_loop)

lemma str_cpy_loop_eq:
  assumes "i \<le> length (cstr src)" "i < mx" "mx \<le> length dst"
  shows "str_cpy_loop dst src mx i =
    take i dst @ drop i (take (mx - 1) (cstr src)) @ 0 # drop (Suc (min (mx - 1) (length (cstr src)))) dst"
  using assms
proof (induction "mx - i" arbitrary: dst i)
  case (Suc k)
  let ?n = "min (mx - 1) (length (cstr src))"
  show ?case
  proof (cases "i < ?n")
    case True
    then have i: "i < length (cstr src)" "i < mx - 1" by auto
    have dr: "drop i (take (mx - 1) (cstr src)) = cstr src ! i # drop (Suc i) (take (mx - 1) (cstr src))"
      using i by (subst Cons_nth_drop_Suc [symmetric]) auto
    have "str_cpy_loop dst src mx i = str_cpy_loop (dst[i := cstr src ! i]) src mx (i + 1)"
      using i at_cstr [of i src] by (subst str_cpy_loop.simps) auto
    also have "\<dots> = take (i + 1) (dst[i := cstr src ! i]) @ drop (i + 1) (take (mx - 1) (cstr src)) @
        0 # drop (Suc ?n) (dst[i := cstr src ! i])"
      using Suc i by (intro Suc.hyps(1)) auto
    finally show ?thesis using Suc.prems True dr by (simp add: take_Suc_conv_app_nth)
  next
    case False
    then have n: "i = ?n" using Suc.prems by auto
    then have "\<not> (at src i \<noteq> 0 \<and> i < mx - 1)" using at_end [of src] by (auto simp: min_def split: if_splits)
    then have "str_cpy_loop dst src mx i = dst[i := 0]" by (subst str_cpy_loop.simps) auto
    also have "\<dots> = take i dst @ 0 # drop (Suc i) dst" using Suc.prems by (intro upd_conv_take_nth_drop) auto
    finally show ?thesis using n by simp
  qed
qed simp

text \<open>What \<open>str_cpy\<close> leaves in the array, and the string it holds afterwards.\<close>

lemma str_cpy_eq:
  assumes "0 < mx" "mx \<le> length dst"
  shows "str_cpy dst src mx =
    take (mx - 1) (cstr src) @ 0 # drop (Suc (min (mx - 1) (length (cstr src)))) dst"
  using str_cpy_loop_eq [of 0 src mx dst] assms by (simp add: str_cpy_def)

lemma cstr_str_cpy:
  assumes "0 < mx" "mx \<le> length dst"
  shows "cstr (str_cpy dst src mx) = take (mx - 1) (cstr src)"
proof -
  have "0 \<notin> set (take (mx - 1) (cstr src))" by (metis cstr_nonzero in_set_takeD)
  then show ?thesis by (simp add: str_cpy_eq [OF assms] cstr_append_zero)
qed

section \<open>Little-endian images of integers\<close>

definition le16 :: "u16 \<Rightarrow> u8 list" where
  "le16 v = [ucast v, ucast (drop_bit 8 v)]"

definition le16_word :: "u8 list \<Rightarrow> u16" where
  "le16_word bs = ucast (at bs 0) OR push_bit 8 (ucast (at bs 1))"

definition le_bytes :: "u32 \<Rightarrow> u8 list" where
  "le_bytes v = [ucast v, ucast (drop_bit 8 v), ucast (drop_bit 16 v), ucast (drop_bit 24 v)]"

definition le_word :: "u8 list \<Rightarrow> u32" where
  "le_word bs = ucast (at bs 0) OR push_bit 8 (ucast (at bs 1)) OR push_bit 16 (ucast (at bs 2)) OR push_bit 24 (ucast (at bs 3))"

lemma le16_word_bytes: "le16_word (le16 v) = v"
proof (rule bit_word_eqI)
  fix n assume n: "n < LENGTH(16)"
  consider "n < 8" | "8 \<le> n" by linarith
  then show "bit (le16_word (le16 v)) n = bit v n"
    using n by cases (auto simp: le16_word_def le16_def at_def bit_simps)
qed

lemma le_word_bytes: "le_word (le_bytes v) = v"
proof (rule bit_word_eqI)
  fix n assume "n < LENGTH(32)"
  then consider "n < 8" | "8 \<le> n \<and> n < 16" | "16 \<le> n \<and> n < 24" | "24 \<le> n \<and> n < 32" by fastforce
  then show "bit (le_word (le_bytes v)) n = bit v n"
    by cases (auto simp: le_word_def le_bytes_def at_def bit_simps)
qed

end
