(* ===== verification/Port_Io.thy ===== *)
theory Port_Io
  imports Cstring "HOL-Library.Monad_Syntax"
begin

text \<open>
  \<open>kernel/include/io.h\<close> and \<open>kernel/include/serial.h\<close>: port input and output and the serial
  line on COM1. The machine keeps the log of everything the processor did to its ports; a
  device is any function from that log to the byte a port shows, so it may answer
  differently at every read. \<open>kernel/write_override.c\<close> sends buffers to the same line.
\<close>

datatype io_event = Out8 u16 u8 | In8 u16 u8 | Out16 u16 u16 | In16 u16 u16 | Cli | Hlt

record io =
  io_log :: "io_event list"
  dev8 :: "io_event list \<Rightarrow> u16 \<Rightarrow> u8"
  dev16 :: "io_event list \<Rightarrow> u16 \<Rightarrow> u16"

definition emit :: "io_event \<Rightarrow> io \<Rightarrow> io" where
  "emit e s = s\<lparr>io_log := io_log s @ [e]\<rparr>"

definition outb :: "u16 \<Rightarrow> u8 \<Rightarrow> io \<Rightarrow> io" where
  "outb port val s = emit (Out8 port val) s"

definition inb :: "u16 \<Rightarrow> io \<Rightarrow> u8 \<times> io" where
  "inb port s = (let v = dev8 s (io_log s) port in (v, emit (In8 port v) s))"

definition outw :: "u16 \<Rightarrow> u16 \<Rightarrow> io \<Rightarrow> io" where
  "outw port val s = emit (Out16 port val) s"

definition inw :: "u16 \<Rightarrow> io \<Rightarrow> u16 \<times> io" where
  "inw port s = (let v = dev16 s (io_log s) port in (v, emit (In16 port v) s))"

definition io_wait :: "io \<Rightarrow> io" where
  "io_wait s = outb 0x80 0 s"

section \<open>The serial line\<close>

definition COM1 :: u16 where
  "COM1 = 0x3F8"

definition serial_init :: "io \<Rightarrow> io" where
  "serial_init s =
     (let s = outb (COM1 + 1) 0x00 s;
          s = outb (COM1 + 3) 0x80 s;
          s = outb (COM1 + 0) 0x03 s;
          s = outb (COM1 + 1) 0x00 s;
          s = outb (COM1 + 3) 0x03 s;
          s = outb (COM1 + 2) 0xC7 s;
          s = outb (COM1 + 4) 0x0B s
      in s)"

definition serial_transmit_empty :: "io \<Rightarrow> u8 \<times> io" where
  "serial_transmit_empty s = (let (v, s) = inb (COM1 + 5) s in (v AND 0x20, s))"

partial_function (option) serial_wait :: "io \<Rightarrow> io option" where
  "serial_wait s =
     (let (v, s) = serial_transmit_empty s in if v = 0 then serial_wait s else Some s)"

definition serial_write :: "u8 \<Rightarrow> io \<Rightarrow> io option" where
  "serial_write c s = do { s \<leftarrow> serial_wait s; Some (outb COM1 c s) }"

fun serial_puts :: "cstring \<Rightarrow> io \<Rightarrow> io option" where
  "serial_puts [] st = Some st"
| "serial_puts (c # cs) st =
     (if c = 0 then Some st
      else if c = of_char CHR ''/'' \<and> peek cs = of_char CHR ''n'' then do { st \<leftarrow> serial_write 10 st; serial_puts (tl cs) st }
      else if c = of_char CHR ''/'' \<and> peek cs = of_char CHR ''f'' then do { st \<leftarrow> serial_write 12 st; serial_puts (tl cs) st }
      else do { st \<leftarrow> serial_write c st; serial_puts cs st })"

text \<open>\<open>write\<close> of \<open>kernel/write_override.c\<close>, with the buffer as the list of its \<open>count\<close> bytes.\<close>

fun write_loop :: "cstring \<Rightarrow> io \<Rightarrow> io option" where
  "write_loop [] st = Some st"
| "write_loop (c # cs) st = do { st \<leftarrow> serial_write c st; write_loop cs st }"

definition serial_fd_write :: "int \<Rightarrow> cstring \<Rightarrow> io \<Rightarrow> (int \<times> io) option" where
  "serial_fd_write fd buf st = do { st \<leftarrow> write_loop buf st; Some (sint (of_nat (length buf) :: u32), st) }"

section \<open>Lemmas on port operations\<close>

lemma emit_sel [simp]:
  "io_log (emit e s) = io_log s @ [e]" "dev8 (emit e s) = dev8 s" "dev16 (emit e s) = dev16 s"
  by (simp_all add: emit_def)

lemma port_sel [simp]:
  "io_log (outb p v s) = io_log s @ [Out8 p v]" "dev8 (outb p v s) = dev8 s"
  "io_log (outw p w s) = io_log s @ [Out16 p w]" "dev8 (outw p w s) = dev8 s"
  by (simp_all add: outb_def outw_def)

lemma inb_eq: "inb p s = (dev8 s (io_log s) p, emit (In8 p (dev8 s (io_log s) p)) s)"
  by (simp add: inb_def Let_def)

text \<open>Polls of the line status register until the transmitter is empty.\<close>

definition poll_log :: "(io_event list \<Rightarrow> u16 \<Rightarrow> u8) \<Rightarrow> io_event list \<Rightarrow> io_event list" where
  "poll_log d log = log @ [In8 0x3FD (d log 0x3FD)]"

definition uart_live :: "(io_event list \<Rightarrow> u16 \<Rightarrow> u8) \<Rightarrow> bool" where
  "uart_live d \<longleftrightarrow> (\<forall>log. \<exists>n. d ((poll_log d ^^ n) log) 0x3FD AND 0x20 \<noteq> 0)"

text \<open>The bytes a log puts on the line.\<close>

fun line_byte :: "io_event \<Rightarrow> u8 list" where
  "line_byte (Out8 p v) = (if p = 0x3F8 then [v] else [])"
| "line_byte _ = []"

definition line_out :: "io_event list \<Rightarrow> u8 list" where
  "line_out log = concat (map line_byte log)"

lemma line_out_simps [simp]:
  "line_out [] = []" "line_out (xs @ ys) = line_out xs @ line_out ys" "line_out (e # xs) = line_byte e @ line_out xs"
  by (simp_all add: line_out_def)

lemma serial_wait_unfold:
  "serial_wait s =
     (if dev8 s (io_log s) 0x3FD AND 0x20 = 0 then serial_wait (emit (In8 0x3FD (dev8 s (io_log s) 0x3FD)) s)
      else Some (emit (In8 0x3FD (dev8 s (io_log s) 0x3FD)) s))"
  by (subst serial_wait.simps) (simp add: serial_transmit_empty_def inb_eq COM1_def Let_def)

text \<open>An operation prints \<open>t\<close> when, on a live transmitter, it returns, does not touch the device,
  only appends to the log, and puts exactly \<open>t\<close> on the line.\<close>

definition prints :: "cstring \<Rightarrow> (io \<Rightarrow> io option) \<Rightarrow> bool" where
  "prints t f \<longleftrightarrow> (\<forall>s. uart_live (dev8 s) \<longrightarrow>
     (\<exists>s' new. f s = Some s' \<and> dev8 s' = dev8 s \<and> io_log s' = io_log s @ new \<and> line_out new = t))"

named_theorems prints_intro

lemma prints_return [prints_intro]: "prints [] Some"
  by (simp add: prints_def)

lemma prints_bind [prints_intro]:
  assumes f: "prints t f" and g: "prints u g"
  shows "prints (t @ u) (\<lambda>s. f s \<bind> g)"
  unfolding prints_def
proof (intro allI impI)
  fix s :: io assume live: "uart_live (dev8 s)"
  obtain s1 n1 where 1: "f s = Some s1" "dev8 s1 = dev8 s" "io_log s1 = io_log s @ n1" "line_out n1 = t"
    using f live unfolding prints_def by blast
  then obtain s2 n2 where 2: "g s1 = Some s2" "dev8 s2 = dev8 s1" "io_log s2 = io_log s1 @ n2" "line_out n2 = u"
    using g live unfolding prints_def by metis
  show "\<exists>s' new. f s \<bind> g = Some s' \<and> dev8 s' = dev8 s \<and> io_log s' = io_log s @ new \<and> line_out new = t @ u"
    using 1 2 by (intro exI [of _ s2] exI [of _ "n1 @ n2"]) simp
qed

lemma prints_eq: "prints t f \<Longrightarrow> t = u \<Longrightarrow> prints u f"
  by simp

lemma serial_wait_returns:
  assumes "dev8 s ((poll_log (dev8 s) ^^ n) (io_log s)) 0x3FD AND 0x20 \<noteq> 0"
  shows "\<exists>s' new. serial_wait s = Some s' \<and> dev8 s' = dev8 s \<and> io_log s' = io_log s @ new \<and> line_out new = []"
  using assms
proof (induction n arbitrary: s)
  case 0
  then show ?case by (simp add: serial_wait_unfold)
next
  case (Suc n)
  let ?e = "In8 0x3FD (dev8 s (io_log s) 0x3FD)"
  let ?s = "emit ?e s"
  show ?case
  proof (cases "dev8 s (io_log s) 0x3FD AND 0x20 = 0")
    case True
    have "(poll_log (dev8 s) ^^ Suc n) (io_log s) = (poll_log (dev8 ?s) ^^ n) (io_log ?s)"
      by (simp add: poll_log_def funpow_Suc_right del: funpow.simps)
    then obtain s' new where "serial_wait ?s = Some s'" "dev8 s' = dev8 s" "io_log s' = io_log ?s @ new" "line_out new = []"
      using Suc.IH [of ?s] Suc.prems by auto
    then show ?thesis using True by (subst serial_wait_unfold) (intro exI [of _ s'] exI [of _ "?e # new"], simp)
  next
    case False
    then show ?thesis by (subst serial_wait_unfold) simp
  qed
qed

lemma prints_serial_write [prints_intro]: "prints [c] (serial_write c)"
  unfolding prints_def
proof (intro allI impI)
  fix s :: io assume "uart_live (dev8 s)"
  then obtain n where "dev8 s ((poll_log (dev8 s) ^^ n) (io_log s)) 0x3FD AND 0x20 \<noteq> 0"
    by (auto simp: uart_live_def)
  from serial_wait_returns [OF this] show
    "\<exists>s' new. serial_write c s = Some s' \<and> dev8 s' = dev8 s \<and> io_log s' = io_log s @ new \<and> line_out new = [c]"
    by (auto simp: serial_write_def COM1_def)
qed

text \<open>What a string looks like on the line: up to its end, with \<open>/n\<close> and \<open>/f\<close> replaced.\<close>

fun expand :: "cstring \<Rightarrow> cstring" where
  "expand [] = []"
| "expand (c # cs) =
     (if c = 0 then []
      else if c = of_char CHR ''/'' \<and> peek cs = of_char CHR ''n'' then 10 # expand (tl cs)
      else if c = of_char CHR ''/'' \<and> peek cs = of_char CHR ''f'' then 12 # expand (tl cs)
      else c # expand cs)"

lemma serial_puts_fun:
  "serial_puts [] = Some"
  "serial_puts (c # cs) =
     (if c = 0 then Some
      else if c = of_char CHR ''/'' \<and> peek cs = of_char CHR ''n'' then (\<lambda>st. serial_write 10 st \<bind> serial_puts (tl cs))
      else if c = of_char CHR ''/'' \<and> peek cs = of_char CHR ''f'' then (\<lambda>st. serial_write 12 st \<bind> serial_puts (tl cs))
      else (\<lambda>st. serial_write c st \<bind> serial_puts cs))"
  by (auto simp: fun_eq_iff)

lemma prints_Cons: "prints t f \<Longrightarrow> prints (c # t) (\<lambda>st. serial_write c st \<bind> f)"
  using prints_bind [OF prints_serial_write] by simp

lemma prints_serial_puts [prints_intro]: "prints (expand cs) (serial_puts cs)"
  by (induction cs rule: expand.induct) (auto simp: serial_puts_fun prints_return intro: prints_Cons)

lemma write_loop_fun: "write_loop [] = Some" "write_loop (c # cs) = (\<lambda>st. serial_write c st \<bind> write_loop cs)"
  by (auto simp: fun_eq_iff)

lemma prints_write_loop [prints_intro]: "prints cs (write_loop cs)"
  by (induction cs) (auto simp: write_loop_fun prints_return intro: prints_Cons)



end
