(* ===== verification/Pic.thy ===== *)
theory Pic
  imports Port_Io
begin

text \<open>
  \<open>kernel/pic.c\<close>: programming of the two 8259 interrupt controllers. The controllers are not
  part of the code; \<open>pic8259\<close> is what their data sheet says of the initialisation sequence, as
  an automaton that reads the log of port writes.
\<close>

abbreviation (input) PIC1_CMD :: u16 where "PIC1_CMD \<equiv> 0x20"
abbreviation (input) PIC1_DATA :: u16 where "PIC1_DATA \<equiv> 0x21"
abbreviation (input) PIC2_CMD :: u16 where "PIC2_CMD \<equiv> 0xA0"
abbreviation (input) PIC2_DATA :: u16 where "PIC2_DATA \<equiv> 0xA1"
abbreviation (input) PIC_EOI :: u8 where "PIC_EOI \<equiv> 0x20"

definition pic_remap :: "io \<Rightarrow> io" where
  "pic_remap s =
     (let (mask1, s) = inb PIC1_DATA s;
          (mask2, s) = inb PIC2_DATA s;
          s = outb PIC1_CMD 0x11 s;
          s = outb PIC2_CMD 0x11 s;
          s = outb PIC1_DATA 0x20 s;
          s = outb PIC2_DATA 0x28 s;
          s = outb PIC1_DATA 0x04 s;
          s = outb PIC2_DATA 0x02 s;
          s = outb PIC1_DATA 0x01 s;
          s = outb PIC2_DATA 0x01 s;
          s = outb PIC1_DATA mask1 s;
          s = outb PIC2_DATA mask2 s
      in s)"

definition pic_send_eoi :: "u8 \<Rightarrow> io \<Rightarrow> io" where
  "pic_send_eoi irq s =
     (let s = (if 8 \<le> irq then outb PIC2_CMD PIC_EOI s else s)
      in outb PIC1_CMD PIC_EOI s)"

definition pic_port :: "u8 \<Rightarrow> u16" where
  "pic_port irq = (if irq < 8 then PIC1_DATA else PIC2_DATA)"

definition pic_bit :: "u8 \<Rightarrow> u8" where
  "pic_bit irq = (if irq < 8 then irq else irq - 8)"

definition pic_set_mask :: "u8 \<Rightarrow> io \<Rightarrow> io" where
  "pic_set_mask irq s =
     (let port = pic_port irq;
          b = pic_bit irq;
          (v, s) = inb port s;
          val = v OR push_bit (unat b) 1
      in outb port val s)"

definition pic_clear_mask :: "u8 \<Rightarrow> io \<Rightarrow> io" where
  "pic_clear_mask irq s =
     (let port = pic_port irq;
          b = pic_bit irq;
          (v, s) = inb port s;
          val = v AND NOT (push_bit (unat b) 1)
      in outb port val s)"

section \<open>The controllers\<close>

text \<open>\<open>phase\<close> counts the initialisation words still expected on the data port; with none
  expected a data write sets the interrupt mask. End of interrupt is the command 0x20.\<close>

record pic8259 =
  phase :: nat
  vector :: u8
  cascade :: u8
  mode :: u8
  imr :: u8
  eois :: nat

definition pic_write_cmd :: "u8 \<Rightarrow> pic8259 \<Rightarrow> pic8259" where
  "pic_write_cmd v p =
     (if v AND 0x10 \<noteq> 0 then p\<lparr>phase := 3, imr := 0\<rparr>
      else if v = 0x20 then p\<lparr>eois := eois p + 1\<rparr> else p)"

definition pic_write_data :: "u8 \<Rightarrow> pic8259 \<Rightarrow> pic8259" where
  "pic_write_data v p =
     (if phase p = 3 then p\<lparr>phase := 2, vector := v\<rparr>
      else if phase p = 2 then p\<lparr>phase := 1, cascade := v\<rparr>
      else if phase p = 1 then p\<lparr>phase := 0, mode := v\<rparr>
      else p\<lparr>imr := v\<rparr>)"

fun pic_event :: "u16 \<Rightarrow> io_event \<Rightarrow> pic8259 \<Rightarrow> pic8259" where
  "pic_event c (Out8 p v) x =
     (if p = c then pic_write_cmd v x else if p = c + 1 then pic_write_data v x else x)"
| "pic_event c _ x = x"

definition pic_run :: "u16 \<Rightarrow> io_event list \<Rightarrow> pic8259 \<Rightarrow> pic8259" where
  "pic_run c log x = fold (pic_event c) log x"

text \<open>A machine whose two controllers started in states \<open>m\<close> and \<open>w\<close>: reading a data port shows
  the mask.\<close>

definition pic_device :: "pic8259 \<Rightarrow> pic8259 \<Rightarrow> (io_event list \<Rightarrow> u16 \<Rightarrow> u8) \<Rightarrow> bool" where
  "pic_device m w d \<longleftrightarrow>
     (\<forall>log. d log PIC1_DATA = imr (pic_run PIC1_CMD log m) \<and> d log PIC2_DATA = imr (pic_run PIC2_CMD log w))"

lemma pic_run_append [simp]: "pic_run c (xs @ ys) x = pic_run c ys (pic_run c xs x)"
  by (simp add: pic_run_def)

lemma pic_run_Cons [simp]: "pic_run c (e # xs) x = pic_run c xs (pic_event c e x)"
  by (simp add: pic_run_def)

lemma pic_run_Nil [simp]: "pic_run c [] x = x"
  by (simp add: pic_run_def)

lemmas pic_defs = pic_write_cmd_def pic_write_data_def inb_eq Let_def

text \<open>C11. After \<open>pic_remap\<close>, from any state of the controllers, interrupts 0-7 and 8-15 arrive at
  vectors 0x20 and 0x28, out of the way of the processor exceptions, the slave hangs on line
  2, both run in 8086 mode, and both masks are what they were before.\<close>

theorem pic_remap_correct:
  assumes "pic_device m w (dev8 s)"
  shows "let m1 = pic_run PIC1_CMD (io_log s) m; m2 = pic_run PIC1_CMD (io_log (pic_remap s)) m;
             w1 = pic_run PIC2_CMD (io_log s) w; w2 = pic_run PIC2_CMD (io_log (pic_remap s)) w
         in m2 = m1\<lparr>phase := 0, vector := 0x20, cascade := 4, mode := 1\<rparr> \<and>
            w2 = w1\<lparr>phase := 0, vector := 0x28, cascade := 2, mode := 1\<rparr>"
proof -
  have d: "dev8 s log PIC1_DATA = imr (pic_run PIC1_CMD log m)" "dev8 s log PIC2_DATA = imr (pic_run PIC2_CMD log w)" for log
    using assms by (auto simp: pic_device_def)
  show ?thesis by (simp add: pic_remap_def pic_defs d)
qed

definition pic_reset :: pic8259 where
  "pic_reset = \<lparr>phase = 0, vector = 8, cascade = 0, mode = 0, imr = 0xB8, eois = 0\<rparr>"

definition pic_example :: "io_event list \<Rightarrow> u16 \<Rightarrow> u8" where
  "pic_example log p =
     (if p = PIC1_DATA then imr (pic_run PIC1_CMD log pic_reset)
      else if p = PIC2_DATA then imr (pic_run PIC2_CMD log pic_reset) else 0)"

lemma pic_example_device: "pic_device pic_reset pic_reset pic_example"
  by (simp add: pic_device_def pic_example_def)

theorem pic_remap_correct_witness:
  "imr (pic_run PIC1_CMD (io_log (pic_remap \<lparr>io_log = [], dev8 = pic_example, dev16 = (\<lambda>_ _. 0)\<rparr>)) pic_reset) = 0xB8"
  using pic_remap_correct [of pic_reset pic_reset "\<lparr>io_log = [], dev8 = pic_example, dev16 = (\<lambda>_ _. 0)\<rparr>"]
    pic_example_device
  by (simp add: Let_def pic_reset_def)

text \<open>Masking and unmasking a line of an initialised controller changes exactly the bit of
  that line, in the controller that owns it, and leaves the other controller alone.\<close>

lemma pic_mask_bits:
  assumes dev: "pic_device m w (dev8 s)" and irq: "irq < 16"
    and "phase (pic_run PIC1_CMD (io_log s) m) = 0" "phase (pic_run PIC2_CMD (io_log s) w) = 0"
  shows "let set = io_log (pic_set_mask irq s); clr = io_log (pic_clear_mask irq s);
             m1 = pic_run PIC1_CMD (io_log s) m; w1 = pic_run PIC2_CMD (io_log s) w
         in if irq < 8
            then pic_run PIC1_CMD set m = m1\<lparr>imr := imr m1 OR push_bit (unat irq) 1\<rparr> \<and>
                 pic_run PIC1_CMD clr m = m1\<lparr>imr := imr m1 AND NOT (push_bit (unat irq) 1)\<rparr> \<and>
                 pic_run PIC2_CMD set w = w1 \<and> pic_run PIC2_CMD clr w = w1
            else pic_run PIC2_CMD set w = w1\<lparr>imr := imr w1 OR push_bit (unat irq - 8) 1\<rparr> \<and>
                 pic_run PIC2_CMD clr w = w1\<lparr>imr := imr w1 AND NOT (push_bit (unat irq - 8) 1)\<rparr> \<and>
                 pic_run PIC1_CMD set m = m1 \<and> pic_run PIC1_CMD clr m = m1"
proof -
  have d: "dev8 s log PIC1_DATA = imr (pic_run PIC1_CMD log m)" "dev8 s log PIC2_DATA = imr (pic_run PIC2_CMD log w)" for log
    using dev by (auto simp: pic_device_def)
  have "unat (irq - 8) = unat irq - 8" if "\<not> irq < 8"
    using that by (simp add: unat_sub word_less_nat_alt word_le_nat_alt)
  then show ?thesis
    using assms(3,4) by (simp add: pic_set_mask_def pic_clear_mask_def pic_port_def pic_bit_def pic_defs d)
qed

end
