(* ===== verification/Kernel_Input.thy ===== *)
theory Kernel_Input
  imports Keyboard Kbd_Buffer Pic
begin

text \<open>
  The path of a key from the interrupt to a reader: \<open>irq1_handler\<close> of
  \<open>kernel/keyboard_irq.c\<close> and \<open>sys_read\<close> of \<open>kernel/syscall.c\<close>. \<open>ps2_read_data\<close> and \<open>sys_yield\<close> are
  declared but not defined there; they are parameters, and nothing is assumed of them beyond
  what a theorem names.
\<close>

record kernel_input =
  kb :: keyboard
  kbuf :: kbd_buffer
  kio :: io

definition irq1_handler :: "(io \<Rightarrow> u8 \<times> io) \<Rightarrow> kernel_input \<Rightarrow> kernel_input" where
  "irq1_handler ps2_read_data st =
     (let (scancode, i) = ps2_read_data (kio st);
          (ev, k) = keyboard_handle_set1_scancode scancode (kb st);
          b = (case ev of
                 Some e \<Rightarrow> if ev_pressed e \<and> ev_is_text e then kbd_buffer_push (kbuf st) (ucast (ev_codepoint e))
                           else kbuf st
               | None \<Rightarrow> kbuf st);
          i = pic_send_eoi 1 i
      in \<lparr>kb = k, kbuf = b, kio = i\<rparr>)"

partial_function (option) read_wait :: "(kernel_input \<Rightarrow> kernel_input) \<Rightarrow> kernel_input \<Rightarrow> (u8 \<times> kernel_input) option" where
  "read_wait sys_yield st =
     (case kbd_buffer_pop (kbuf st) of
        (None, b) \<Rightarrow> read_wait sys_yield (sys_yield st)
      | (Some c, b) \<Rightarrow> Some (c, st\<lparr>kbuf := b\<rparr>))"

text \<open>The result is the return value, the bytes stored at \<open>buf\<close> and the state.\<close>

partial_function (option) sys_read_loop ::
  "(kernel_input \<Rightarrow> kernel_input) \<Rightarrow> u32 \<Rightarrow> u32 \<Rightarrow> u8 list \<Rightarrow> kernel_input \<Rightarrow> (u32 \<times> u8 list \<times> kernel_input) option" where
  "sys_read_loop sys_yield count i out st =
     (if i < count then do {
        (c, st) \<leftarrow> read_wait sys_yield st;
        let out = out @ [c];
        let i = i + 1;
        if 1 \<le> i then Some (i, out, st) else sys_read_loop sys_yield count i out st
      } else Some (i, out, st))"

definition sys_read :: "(kernel_input \<Rightarrow> kernel_input) \<Rightarrow> int \<Rightarrow> u32 \<Rightarrow> kernel_input \<Rightarrow> (int \<times> u8 list \<times> kernel_input) option" where
  "sys_read sys_yield fd count st =
     map_option (\<lambda>(i, out, st). (sint i, out, st)) (sys_read_loop sys_yield count 0 [] st)"

section \<open>One interrupt\<close>

definition typed :: "keyboard_event_t option \<Rightarrow> u8 list" where
  "typed ev = (case ev of Some e \<Rightarrow> if ev_pressed e \<and> ev_is_text e then [ucast (ev_codepoint e)] else [] | None \<Rightarrow> [])"

lemma irq1_handler_eq:
  assumes "ps2 (kio st) = (sc, i)" and "keyboard_handle_set1_scancode sc (kb st) = (ev, k)"
  shows "irq1_handler ps2 st =
    \<lparr>kb = k, kbuf = fold (\<lambda>c b. kbd_buffer_push b c) (typed ev) (kbuf st), kio = pic_send_eoi 1 i\<rparr>"
  using assms by (auto simp: irq1_handler_def typed_def split: option.splits)

lemma ring_inv_irq1: "ring_inv (kbuf st) \<Longrightarrow> ring_inv (kbuf (irq1_handler ps2 st))"
  by (auto simp: irq1_handler_def kbd.inv_push split: prod.splits option.splits)

text \<open>The keyboard keeps the keymap in order and only produces printable characters.\<close>

lemma handle_scancode_ok:
  assumes "keymap_ok (kmap k)"
  shows "keymap_ok (kmap (snd (keyboard_handle_set1_scancode sc k))) \<and>
    (\<forall>c \<in> set (typed (fst (keyboard_handle_set1_scancode sc k))). 32 \<le> c)"
proof -
  let ?kc = "keyboard_keycode_from_set1 sc (pending_extended k)"
  let ?m = "update_modifier ?kc (sc AND 0x80 = 0) (current_mods k)"
  obtain r km where t: "keymap_translate_keycode ?kc ?m (kmap k) = (r, km)" by fastforce
  have km: "keymap_ok km" using keymap_ok_translate [OF assms, of ?kc ?m] t by simp
  have "printable (codepoint r)" using translate_printable [OF assms, of ?kc ?m] t by simp
  moreover have "is_text r \<longleftrightarrow> codepoint r \<noteq> 0"
    using t by (auto simp: keymap_translate_keycode_def make_result_def Let_def split: if_splits prod.splits)
  ultimately have "is_text r \<Longrightarrow> 32 \<le> (ucast (codepoint r) :: u8)" by (simp add: printable_byte)
  then show ?thesis
    using assms km t by (simp add: keyboard_handle_set1_scancode_def Let_def typed_def)
qed

section \<open>Runs of the input path\<close>

text \<open>Interrupts with whatever bytes the controller delivers, readers, and layout changes.\<close>

inductive input_step :: "kernel_input \<Rightarrow> kernel_input \<Rightarrow> bool" where
  step_irq: "input_step st (irq1_handler ps2 st)"
| step_pop: "input_step st (st\<lparr>kbuf := snd (kbd_buffer_pop (kbuf st))\<rparr>)"
| step_layout: "input_step st (st\<lparr>kb := (kb st)\<lparr>kmap := keymap_set_current kid (kmap (kb st))\<rparr>\<rparr>)"
| step_device: "input_step st (st\<lparr>kio := i\<rparr>)"

inductive_cases input_stepE: "input_step st st'"

definition input_ok :: "kernel_input \<Rightarrow> bool" where
  "input_ok st \<longleftrightarrow> ring_inv (kbuf st) \<and> keymap_ok (kmap (kb st)) \<and> (\<forall>c \<in> set (ring_contents (kbuf st)). 32 \<le> c)"

definition input_boot :: "kernel_input \<Rightarrow> bool" where
  "input_boot st \<longleftrightarrow> kbuf st = kbd_buffer_empty \<and>
     kb st = \<lparr>current_mods = 0, pending_extended = False, kmap = \<lparr>g_current = KEYMAP_QWERTY, g_active_dead = 0\<rparr>\<rparr>"

lemma input_ok_irq:
  assumes "input_ok st" shows "input_ok (irq1_handler ps2 st)"
proof -
  obtain sc i where p: "ps2 (kio st) = (sc, i)" by fastforce
  obtain ev k where h: "keyboard_handle_set1_scancode sc (kb st) = (ev, k)" by fastforce
  have inv: "ring_inv (kbuf st)" and le: "length (ring_contents (kbuf st)) \<le> 127"
    using assms ring_length_less [of "kbuf st"] by (auto simp: input_ok_def)
  note c = kbd.contents_fold_push [OF inv le, of "typed ev"]
  have "set (ring_contents (kbuf (irq1_handler ps2 st))) \<subseteq> set (ring_contents (kbuf st)) \<union> set (typed ev)"
    unfolding irq1_handler_eq [of ps2 st sc i ev k, OF p h] using c set_take_subset [of 127 "ring_contents (kbuf st) @ typed ev"] by simp
  then show ?thesis
    using assms handle_scancode_ok [of "kb st" sc] h ring_inv_irq1 [OF inv, of ps2] irq1_handler_eq [of ps2 st sc i ev k, OF p h]
    by (auto simp: input_ok_def)
qed

lemma input_ok_pop: "input_ok st \<Longrightarrow> input_ok (st\<lparr>kbuf := snd (kbd_buffer_pop (kbuf st))\<rparr>)"
  by (cases "ring_contents (kbuf st)") (auto simp: input_ok_def kbd.pop_inv kbd.contents_pop)

interpretation input_sys: invariant input_boot input_step input_ok
proof
  fix s s' assume "input_ok s" and "input_step s s'"
  then show "input_ok s'"
    by (elim input_stepE)
      (auto simp: input_ok_irq input_ok_pop, auto simp: input_ok_def keymap_ok_set_current)
qed (simp add: input_boot_def input_ok_def ring_inv_empty keymap_ok_def)

section \<open>Properties of the input path\<close>

text \<open>One interrupt appends at most one character: the low byte of the code point of a text key
  that was pressed, if there is room. Whatever the scan code, the interrupt is acknowledged to
  the master controller exactly once, as the last thing done.\<close>

lemma irq1_pushes_typed:
  assumes "ring_inv (kbuf st)" and "ps2 (kio st) = (sc, i)" and "keyboard_handle_set1_scancode sc (kb st) = (ev, k)"
  shows "ring_contents (kbuf (irq1_handler ps2 st)) = take 127 (ring_contents (kbuf st) @ typed ev) \<and>
    kb (irq1_handler ps2 st) = k \<and> io_log (kio (irq1_handler ps2 st)) = io_log i @ [Out8 PIC1_CMD PIC_EOI]"
proof -
  have "length (ring_contents (kbuf st)) \<le> 127" using ring_length_less [of "kbuf st"] by simp
  moreover have "\<not> (8 :: u8) \<le> 1" by (simp add: word_le_nat_alt)
  ultimately show ?thesis
    using kbd.contents_fold_push [OF assms(1)] unfolding irq1_handler_eq [of ps2 st sc i ev k, OF assms(2,3)]
    by (simp add: pic_send_eoi_def)
qed

text \<open>C13. No sequence of keys, layout changes and reads ever puts a control character into the
  buffer: Enter, Backspace and Tab have no layout entry, so a reader of the keyboard never
  sees a line feed, and every byte it gets is at least 32.\<close>

theorem no_control_characters:
  assumes "reach input_boot input_step st"
  shows "(\<forall>c \<in> set (ring_contents (kbuf st)). 32 \<le> c) \<and> 10 \<notin> set (ring_contents (kbuf st))"
  using input_sys.reach_inv [OF assms] by (auto simp: input_ok_def)

theorem no_control_characters_witness:
  "\<exists>st. 10 \<notin> set (ring_contents (kbuf (irq1_handler (\<lambda>i. (0x1C, i)) st)))"
proof -
  let ?k = "\<lparr>current_mods = 0, pending_extended = False, kmap = \<lparr>g_current = KEYMAP_QWERTY, g_active_dead = 0\<rparr>\<rparr>"
  let ?st = "\<lparr>kb = ?k, kbuf = kbd_buffer_empty, kio = \<lparr>io_log = [], dev8 = (\<lambda>_ _. 0), dev16 = (\<lambda>_ _. 0)\<rparr>\<rparr>"
  have "reach input_boot input_step ?st" by (rule reach_init) (simp add: input_boot_def)
  then have "reach input_boot input_step (irq1_handler (\<lambda>i. (0x1C, i)) ?st)"
    using step_irq by (rule reach_step)
  from no_control_characters [OF this] show ?thesis by blast
qed

lemma read_wait_unfold:
  assumes "ring_inv (kbuf st)"
  shows "read_wait y st =
    (if ring_contents (kbuf st) = [] then read_wait y (y st)
     else Some (hd (ring_contents (kbuf st)), st\<lparr>kbuf := snd (kbd_buffer_pop (kbuf st))\<rparr>))"
  using kbd.pop_empty [OF assms] kbd.pop_Cons [OF assms]
  by (subst read_wait.simps) (cases "ring_contents (kbuf st)"; auto)

lemma read_wait_after:
  assumes "\<And>k. k \<le> n \<Longrightarrow> ring_inv (kbuf ((y ^^ k) st))"
    and "\<And>k. k < n \<Longrightarrow> ring_contents (kbuf ((y ^^ k) st)) = []"
    and "ring_contents (kbuf ((y ^^ n) st)) = c # cs"
  shows "read_wait y st = Some (c, ((y ^^ n) st)\<lparr>kbuf := snd (kbd_buffer_pop (kbuf ((y ^^ n) st)))\<rparr>)"
  using assms
proof (induction n arbitrary: st)
  case 0
  then show ?case using read_wait_unfold [of st y] by simp
next
  case (Suc n)
  have "read_wait y (y st) = Some (c, ((y ^^ n) (y st))\<lparr>kbuf := snd (kbd_buffer_pop (kbuf ((y ^^ n) (y st))))\<rparr>)"
    using Suc.prems(1) [of "Suc _"] Suc.prems(2) [of "Suc _"] Suc.prems(3)
    by (intro Suc.IH) (simp_all add: funpow_swap1)
  then show ?case
    using read_wait_unfold [of st y] Suc.prems(1) [of 0] Suc.prems(2) [of 0] by (simp add: funpow_swap1)
qed

text \<open>C14. \<open>sys_read\<close> of at least one byte returns as soon as some yield leaves a character in the
  buffer: it returns 1, stores the oldest character and removes exactly that one. A read of
  zero bytes returns 0 at once.\<close>

theorem sys_read_oldest:
  assumes "\<And>k. k \<le> n \<Longrightarrow> ring_inv (kbuf ((y ^^ k) st))"
    and "\<And>k. k < n \<Longrightarrow> ring_contents (kbuf ((y ^^ k) st)) = []"
    and "ring_contents (kbuf ((y ^^ n) st)) = c # cs" and "count \<noteq> 0"
  shows "sys_read y fd 0 st = Some (0, [], st) \<and>
    (\<exists>st'. sys_read y fd count st = Some (1, [c], st') \<and> ring_contents (kbuf st') = cs)"
proof -
  have "ring_contents (snd (kbd_buffer_pop (kbuf ((y ^^ n) st)))) = cs"
    using kbd.contents_pop assms(1) [of n] assms(3) by simp
  moreover have "0 < count" using assms(4) by (simp add: word_gt_0)
  ultimately show ?thesis
    using read_wait_after [OF assms(1-3)]
    by (simp add: sys_read_def sys_read_loop.simps [of _ 0] sys_read_loop.simps [of _ count] Let_def)
qed

theorem sys_read_oldest_witness:
  "\<exists>st st'. sys_read (\<lambda>s. s\<lparr>kbuf := kbd_buffer_push (kbuf s) 65\<rparr>) 0 5 st = Some (1, [65], st')"
proof -
  let ?y = "\<lambda>s. s\<lparr>kbuf := kbd_buffer_push (kbuf s) 65\<rparr>"
  let ?k = "\<lparr>current_mods = 0, pending_extended = False, kmap = \<lparr>g_current = KEYMAP_QWERTY, g_active_dead = 0\<rparr>\<rparr>"
  let ?st = "\<lparr>kb = ?k, kbuf = kbd_buffer_empty, kio = \<lparr>io_log = [], dev8 = (\<lambda>_ _. 0), dev16 = (\<lambda>_ _. 0)\<rparr>\<rparr>"
  have "ring_inv (kbuf ((?y ^^ k) ?st))" for k
    by (induction k) (simp_all add: ring_inv_empty kbd.inv_push)
  moreover have "ring_contents (kbuf ((?y ^^ 1) ?st)) = [65]"
    using kbd.contents_push [OF ring_inv_empty] by simp
  ultimately show ?thesis using sys_read_oldest [of 1 ?y ?st 65 "[]" 5 0] by auto
qed

end
