(* ===== verification/Panic.thy ===== *)
theory Panic
  imports Port_Io
begin

text \<open>
  \<open>core/panic.c\<close>, \<open>core/restart.c\<close> and \<open>core/shutdown.c\<close>: the ways the kernel stops. The functions do
  not return; their models give the machine as it enters the final halt loop, whose first
  \<open>hlt\<close> is the last event of the log.
\<close>

datatype panic_cause_t =
    PANIC_GENERAL_PROTECTION_FAULT
  | PANIC_INIT_DIED
  | PANIC_VFS_NO_BLOCKDEV
  | PANIC_ROOTFS_NOT_MOUNTED
  | PANIC_INIT_MISSING
  | PANIC_CANNOT_EXEC_INIT
  | PANIC_KERNEL_DIED
  | PANIC_UNKNOWN

record panic_regs_t =
  eax :: u32
  ebx :: u32
  ecx :: u32
  edx :: u32
  esi :: u32
  edi :: u32
  ebp :: u32
  esp :: u32
  eip :: u32
  err_code :: u32

fun panic_cause_str :: "panic_cause_t \<Rightarrow> cstring" where
  "panic_cause_str PANIC_GENERAL_PROTECTION_FAULT = lit ''General Protection Fault''"
| "panic_cause_str PANIC_INIT_DIED = lit ''init died''"
| "panic_cause_str PANIC_VFS_NO_BLOCKDEV = lit ''VFS: could not find blockdev 0,0''"
| "panic_cause_str PANIC_ROOTFS_NOT_MOUNTED = lit ''rootfs not mounted''"
| "panic_cause_str PANIC_INIT_MISSING = lit ''init missing''"
| "panic_cause_str PANIC_CANNOT_EXEC_INIT = lit ''kernel could not run init''"
| "panic_cause_str PANIC_KERNEL_DIED = lit ''kernel died''"
| "panic_cause_str PANIC_UNKNOWN = lit ''unknown panic''"

definition hex_digits :: cstring where
  "hex_digits = lit ''0123456789abcdef''"

function hex_loop :: "nat \<Rightarrow> u32 \<Rightarrow> cstring \<Rightarrow> cstring" where
  "hex_loop i val buf =
     (if i < 8 then hex_loop (i + 1) (drop_bit 4 val) (buf[9 - i := hex_digits ! unat (val AND 0xF)])
      else buf)"
  by pat_completeness auto
termination by (relation "measure (\<lambda>(i, _). 8 - i)") auto

declare hex_loop.simps [simp del]

definition hex_string :: "u32 \<Rightarrow> cstring" where
  "hex_string val =
     (let buf = replicate 11 0;
          buf = buf[0 := of_char CHR ''0''];
          buf = buf[1 := of_char CHR ''x''];
          buf = hex_loop 0 val buf;
          buf = buf[10 := 0]
      in buf)"

definition serial_puts_hex :: "u32 \<Rightarrow> io \<Rightarrow> io option" where
  "serial_puts_hex val s = serial_puts (hex_string val) s"

definition dump_regs :: "panic_regs_t option \<Rightarrow> io \<Rightarrow> io option" where
  "dump_regs regs s = (case regs of None \<Rightarrow> Some s | Some r \<Rightarrow> do {
     s \<leftarrow> serial_puts (lit ''eax='') s; s \<leftarrow> serial_puts_hex (eax r) s;
     s \<leftarrow> serial_puts (lit '' ebx='') s; s \<leftarrow> serial_puts_hex (ebx r) s;
     s \<leftarrow> serial_puts (lit '' ecx='') s; s \<leftarrow> serial_puts_hex (ecx r) s;
     s \<leftarrow> serial_puts (lit '' edx='') s; s \<leftarrow> serial_puts_hex (edx r) s;
     s \<leftarrow> serial_puts (lit ''/n'') s;
     s \<leftarrow> serial_puts (lit ''esi='') s; s \<leftarrow> serial_puts_hex (esi r) s;
     s \<leftarrow> serial_puts (lit '' edi='') s; s \<leftarrow> serial_puts_hex (edi r) s;
     s \<leftarrow> serial_puts (lit '' ebp='') s; s \<leftarrow> serial_puts_hex (ebp r) s;
     s \<leftarrow> serial_puts (lit '' esp='') s; s \<leftarrow> serial_puts_hex (esp r) s;
     s \<leftarrow> serial_puts (lit ''/n'') s;
     s \<leftarrow> serial_puts (lit ''eip='') s; s \<leftarrow> serial_puts_hex (eip r) s;
     s \<leftarrow> serial_puts (lit '' err='') s; s \<leftarrow> serial_puts_hex (err_code r) s;
     serial_puts (lit ''/n'') s })"

definition panic :: "panic_cause_t \<Rightarrow> cstring option \<Rightarrow> panic_regs_t option \<Rightarrow> io \<Rightarrow> io option" where
  "panic cause extra regs s = do {
     let s = emit Cli s;
     s \<leftarrow> serial_puts (lit ''/n*** KERNEL PANIC ['') s;
     s \<leftarrow> serial_puts (lit ''panic'') s;
     s \<leftarrow> serial_puts (lit ''] ***/n'') s;
     s \<leftarrow> serial_puts (lit ''cause: '') s;
     s \<leftarrow> serial_puts (panic_cause_str cause) s;
     s \<leftarrow> serial_puts (lit ''/n'') s;
     s \<leftarrow> (case extra of None \<Rightarrow> Some s | Some x \<Rightarrow> do {
       s \<leftarrow> serial_puts (lit ''info: '') s;
       s \<leftarrow> serial_puts x s;
       serial_puts (lit ''/n'') s });
     s \<leftarrow> dump_regs regs s;
     s \<leftarrow> serial_puts (lit ''system halted./n'') s;
     Some (emit Hlt s) }"

partial_function (option) restart_wait :: "io \<Rightarrow> io option" where
  "restart_wait s = (let (status, s) = inb 0x64 s in if status AND 2 \<noteq> 0 then restart_wait s else Some s)"

definition restart :: "io \<Rightarrow> io option" where
  "restart s = do {
     s \<leftarrow> restart_wait s;
     let s = outb 0x64 0xFE s;
     let s = emit Cli s;
     Some (emit Hlt s) }"

definition shutdown :: "io \<Rightarrow> io" where
  "shutdown s =
     (let s = outw 0x604 0x2000 s;
          s = outw 0xB004 0x2000 s;
          s = outw 0x4004 0x3400 s;
          s = emit Cli s
      in emit Hlt s)"

section \<open>Hexadecimal output\<close>

definition nibble :: "u32 \<Rightarrow> nat \<Rightarrow> nat" where
  "nibble val k = unat val div 16 ^ k mod 16"

lemma unat_and_15: "unat ((x :: u32) AND 0xF) = unat x mod 16"
proof -
  have "(0xF :: u32) = mask 4" by (simp add: mask_eq_exp_minus_1)
  then have "x AND 0xF = take_bit 4 x" by (simp only: take_bit_eq_mask)
  then show ?thesis by (simp add: take_bit_eq_mod unat_mod)
qed

lemma nibble_eq: "unat (drop_bit (4 * k) val AND 0xF) = nibble val k"
proof -
  have "take_bit 32 (unat val) = unat val" by (simp add: take_bit_nat_eq_self)
  then show ?thesis
    by (simp only: unat_and_15 nibble_def unsigned_drop_bit_eq)
      (simp add: drop_bit_eq_div power_mult)
qed

lemma list_update_Cons_numeral: "(x # xs)[numeral v := y] = x # xs[pred_numeral v := y]"
  by (simp add: numeral_eq_Suc)

lemma hex_string_eq:
  "hex_string val = of_char CHR ''0'' # of_char CHR ''x'' #
     map (\<lambda>k. hex_digits ! nibble val k) [7, 6, 5, 4, 3, 2, 1, 0] @ [0]"
proof -
  have n: "unat (drop_bit 4 val AND 0xF) = nibble val 1" "unat (drop_bit 8 val AND 0xF) = nibble val 2"
    "unat (drop_bit 12 val AND 0xF) = nibble val 3" "unat (drop_bit 16 val AND 0xF) = nibble val 4"
    "unat (drop_bit 20 val AND 0xF) = nibble val 5" "unat (drop_bit 24 val AND 0xF) = nibble val 6"
    "unat (drop_bit 28 val AND 0xF) = nibble val 7" "unat (val AND 0xF) = nibble val 0"
    using nibble_eq [of 0 val] nibble_eq [of 1 val] nibble_eq [of 2 val] nibble_eq [of 3 val] nibble_eq [of 4 val]
      nibble_eq [of 5 val] nibble_eq [of 6 val] nibble_eq [of 7 val] by simp_all
  have "replicate 11 (0 :: u8) = [0, 0, 0, 0, 0, 0, 0, 0, 0, 0, 0]" by (simp add: eval_nat_numeral)
  then show ?thesis
    by (simp add: hex_string_def Let_def hex_loop.simps list_update_Cons_numeral n)
qed

definition hex_digit_value :: "u8 \<Rightarrow> nat" where
  "hex_digit_value c = (if c < 58 then unat c - 48 else unat c - 87)"

lemma hex_digit_value_nth:
  assumes "k < 16" shows "hex_digit_value (hex_digits ! k) = k"
proof -
  have "list_all (\<lambda>k. hex_digit_value (hex_digits ! k) = k) [0..<16]" by code_simp
  then show ?thesis using assms by (simp add: list_all_iff)
qed

lemma horner_step: "unat val div 16 ^ Suc k * 16 + nibble val k = unat val div 16 ^ k"
proof -
  have "unat val div 16 ^ Suc k = unat val div 16 ^ k div 16"
    by (metis div_mult2_eq mult.commute power_Suc)
  then show ?thesis by (simp add: nibble_def)
qed

lemma nibble_less [simp]: "nibble val k < 16"
  by (simp add: nibble_def)

text \<open>The text \<open>serial_puts_hex\<close> prints for a register is \<open>0x\<close> and eight hexadecimal digits, and
  reading those digits back gives the value.\<close>

lemma hex_string_roundtrip:
  "\<exists>ds. hex_string val = lit ''0x'' @ ds @ [0] \<and> length ds = 8 \<and> set ds \<subseteq> set hex_digits \<and>
     foldl (\<lambda>n c. n * 16 + hex_digit_value c) 0 ds = unat val"
proof -
  let ?ds = "map (\<lambda>k. hex_digits ! nibble val k) [7, 6, 5, 4, 3, 2, 1, 0]"
  have "length hex_digits = 16" by (simp add: hex_digits_def lit_def)
  then have "set ?ds \<subseteq> set hex_digits" by auto
  moreover have "foldl (\<lambda>n c. n * 16 + hex_digit_value c) 0 ?ds = unat val"
  proof -
    have f: "foldl (\<lambda>n c. n * 16 + hex_digit_value c) 0 ?ds =
        268435456 * nibble val 7 + 16777216 * nibble val 6 + 1048576 * nibble val 5 + 65536 * nibble val 4 +
        4096 * nibble val 3 + 256 * nibble val 2 + 16 * nibble val 1 + nibble val 0"
      by (simp add: hex_digit_value_nth)
    have "unat val div 16 ^ 8 = 0" using unat_u32_less [of val] by (simp add: div_less)
    then show ?thesis
      using horner_step [of val 7] horner_step [of val 6] horner_step [of val 5] horner_step [of val 4]
        horner_step [of val 3] horner_step [of val 2] horner_step [of val 1] horner_step [of val 0]
      unfolding f by simp
  qed
  ultimately show ?thesis by (intro exI [of _ ?ds]) (simp add: hex_string_eq lit_def)
qed

section \<open>The panic message\<close>

definition reg_text :: "panic_regs_t option \<Rightarrow> cstring" where
  "reg_text regs = (case regs of None \<Rightarrow> [] | Some r \<Rightarrow>
     lit ''eax='' @ expand (hex_string (eax r)) @ lit '' ebx='' @ expand (hex_string (ebx r)) @
     lit '' ecx='' @ expand (hex_string (ecx r)) @ lit '' edx='' @ expand (hex_string (edx r)) @ [10] @
     lit ''esi='' @ expand (hex_string (esi r)) @ lit '' edi='' @ expand (hex_string (edi r)) @
     lit '' ebp='' @ expand (hex_string (ebp r)) @ lit '' esp='' @ expand (hex_string (esp r)) @ [10] @
     lit ''eip='' @ expand (hex_string (eip r)) @ lit '' err='' @ expand (hex_string (err_code r)) @ [10])"

definition panic_text :: "panic_cause_t \<Rightarrow> cstring option \<Rightarrow> panic_regs_t option \<Rightarrow> cstring" where
  "panic_text cause extra regs =
     [10] @ lit ''*** KERNEL PANIC [panic] ***'' @ [10] @ lit ''cause: '' @ panic_cause_str cause @ [10] @
     (case extra of None \<Rightarrow> [] | Some x \<Rightarrow> lit ''info: '' @ expand x @ [10]) @
     reg_text regs @ lit ''system halted.'' @ [10]"

lemma expand_cause: "expand (panic_cause_str c) = panic_cause_str c"
  by (cases c) (simp_all add: lit_def peek_def)

lemma prints_hex [prints_intro]: "prints (expand (hex_string v)) (serial_puts_hex v)"
  unfolding serial_puts_hex_def [abs_def] by (rule prints_serial_puts)

lemma prints_dump_regs [prints_intro]: "prints (reg_text regs) (dump_regs regs)"
proof (cases regs)
  case None
  then show ?thesis by (simp add: dump_regs_def [abs_def] reg_text_def prints_return)
next
  case (Some r)
  show ?thesis unfolding dump_regs_def [abs_def] Some option.case
    by (rule prints_eq, (rule prints_intro)+) (simp add: reg_text_def lit_def peek_def)
qed

definition panic_body :: "panic_cause_t \<Rightarrow> cstring option \<Rightarrow> panic_regs_t option \<Rightarrow> io \<Rightarrow> io option" where
  "panic_body cause extra regs s = do {
     s \<leftarrow> serial_puts (lit ''/n*** KERNEL PANIC ['') s;
     s \<leftarrow> serial_puts (lit ''panic'') s;
     s \<leftarrow> serial_puts (lit ''] ***/n'') s;
     s \<leftarrow> serial_puts (lit ''cause: '') s;
     s \<leftarrow> serial_puts (panic_cause_str cause) s;
     s \<leftarrow> serial_puts (lit ''/n'') s;
     s \<leftarrow> (case extra of None \<Rightarrow> Some s | Some x \<Rightarrow> do {
       s \<leftarrow> serial_puts (lit ''info: '') s;
       s \<leftarrow> serial_puts x s;
       serial_puts (lit ''/n'') s });
     s \<leftarrow> dump_regs regs s;
     serial_puts (lit ''system halted./n'') s }"

lemma panic_eq: "panic cause extra regs s = map_option (emit Hlt) (panic_body cause extra regs (emit Cli s))"
  by (simp add: panic_def panic_body_def map_option_bind map_conv_bind_option comp_def)

lemma prints_panic_body: "prints (panic_text cause extra regs) (panic_body cause extra regs)"
proof (cases extra)
  case None
  show ?thesis unfolding panic_body_def [abs_def] None option.case
    by (rule prints_eq, (rule prints_intro)+) (simp add: panic_text_def lit_def peek_def expand_cause [unfolded lit_def])
next
  case (Some x)
  show ?thesis unfolding panic_body_def [abs_def] Some option.case
    by (rule prints_eq, (rule prints_intro)+) (simp add: panic_text_def lit_def peek_def expand_cause [unfolded lit_def])
qed



section \<open>Restart and shutdown\<close>

definition kbc_poll :: "(io_event list \<Rightarrow> u16 \<Rightarrow> u8) \<Rightarrow> io_event list \<Rightarrow> io_event list" where
  "kbc_poll d log = log @ [In8 0x64 (d log 0x64)]"

lemma restart_wait_unfold:
  "restart_wait s =
     (if dev8 s (io_log s) 0x64 AND 2 \<noteq> 0 then restart_wait (emit (In8 0x64 (dev8 s (io_log s) 0x64)) s)
      else Some (emit (In8 0x64 (dev8 s (io_log s) 0x64)) s))"
  by (subst restart_wait.simps) (simp add: inb_eq)

text \<open>\<open>restart\<close> polls the keyboard controller until its input buffer is empty, and only then sends
  the reset pulse, turns interrupts off and halts: if the buffer is first seen empty at poll
  number \<open>n\<close>, the log is exactly those polls followed by the three final steps.\<close>

lemma restart_waits_then_resets:
  assumes "dev8 s ((kbc_poll (dev8 s) ^^ n) (io_log s)) 0x64 AND 2 = 0"
    and "\<And>k. k < n \<Longrightarrow> dev8 s ((kbc_poll (dev8 s) ^^ k) (io_log s)) 0x64 AND 2 \<noteq> 0"
  shows "restart s = Some (s\<lparr>io_log := (kbc_poll (dev8 s) ^^ Suc n) (io_log s) @ [Out8 0x64 0xFE, Cli, Hlt]\<rparr>)"
proof -
  have "restart_wait s = Some (s\<lparr>io_log := (kbc_poll (dev8 s) ^^ Suc n) (io_log s)\<rparr>)"
    using assms
  proof (induction n arbitrary: s)
    case 0
    then show ?case by (subst restart_wait_unfold) (simp add: kbc_poll_def emit_def)
  next
    case (Suc n)
    let ?s = "emit (In8 0x64 (dev8 s (io_log s) 0x64)) s"
    have "restart_wait ?s = Some (?s\<lparr>io_log := (kbc_poll (dev8 ?s) ^^ Suc n) (io_log ?s)\<rparr>)"
    proof (rule Suc.IH)
      show "dev8 ?s ((kbc_poll (dev8 ?s) ^^ n) (io_log ?s)) 0x64 AND 2 = 0"
        using Suc.prems(1) by (simp add: funpow_swap1 kbc_poll_def [of _ "io_log s"])
      show "dev8 ?s ((kbc_poll (dev8 ?s) ^^ k) (io_log ?s)) 0x64 AND 2 \<noteq> 0" if "k < n" for k
        using Suc.prems(2) [of "Suc k"] that by (simp add: funpow_swap1 kbc_poll_def [of _ "io_log s"])
    qed
    then show ?case using Suc.prems(2) [of 0] by (subst restart_wait_unfold) (simp add: funpow_swap1 kbc_poll_def [of _ "io_log s"] emit_def)
  qed
  then show ?thesis by (simp add: restart_def outb_def emit_def)
qed

lemma shutdown_log:
  "io_log (shutdown s) = io_log s @ [Out16 0x604 0x2000, Out16 0xB004 0x2000, Out16 0x4004 0x3400, Cli, Hlt]"
  by (simp add: shutdown_def Let_def)

end
