(* ===== verification/Vfs.thy ===== *)
theory Vfs
  imports Cstring
begin

text \<open>
  \<open>kernel/vfs.c\<close> and \<open>kernel/include/vfs.h\<close>: the node table, lookup, and open, read and write on
  top of the operations a node carries. Those operations are function pointers of code that
  is not in the tree; the table \<open>ops\<close> that resolves a pointer to its functions is a parameter.
  An operation sees the node, the offset and the size or the bytes, and may change the node
  and the device state \<open>'d\<close>.
\<close>

abbreviation (input) VFS_MAX_PATH :: nat where "VFS_MAX_PATH \<equiv> 256"
abbreviation (input) VFS_MAX_NODES :: u32 where "VFS_MAX_NODES \<equiv> 128"

abbreviation (input) VFS_OK :: int where "VFS_OK \<equiv> 0"
abbreviation (input) VFS_ERROR :: int where "VFS_ERROR \<equiv> - 1"
abbreviation (input) VFS_ENOENT :: int where "VFS_ENOENT \<equiv> - 2"
abbreviation (input) VFS_ENOMEM :: int where "VFS_ENOMEM \<equiv> - 3"

abbreviation (input) VFS_FILE :: u32 where "VFS_FILE \<equiv> 1"
abbreviation (input) VFS_DIRECTORY :: u32 where "VFS_DIRECTORY \<equiv> 2"
abbreviation (input) VFS_BLOCKDEV :: u32 where "VFS_BLOCKDEV \<equiv> 4"

record vfs_node_t =
  node_name :: cstring
  node_size :: u32
  node_flags :: u32
  inode_id :: u32
  priv_data :: u32
  node_ops :: u32

record 'd vfs_ops_t =
  op_read :: "(vfs_node_t \<Rightarrow> u32 \<Rightarrow> u32 \<Rightarrow> 'd \<Rightarrow> int \<times> cstring \<times> vfs_node_t \<times> 'd) option"
  op_write :: "(vfs_node_t \<Rightarrow> u32 \<Rightarrow> cstring \<Rightarrow> 'd \<Rightarrow> int \<times> vfs_node_t \<times> 'd) option"

text \<open>A \<open>vfs_node_t *\<close> points into the node table; the model has the index, \<open>None\<close> is null.\<close>

record vfs_file_t =
  file_node :: "nat option"
  file_offset :: u32
  file_flags :: u32

record 'd vfs =
  vfs_nodes :: "vfs_node_t list"
  vfs_node_count :: u32
  vfs_device :: 'd

definition vfs_init :: "'d vfs \<Rightarrow> 'd vfs" where
  "vfs_init s = s\<lparr>vfs_node_count := 0\<rparr>"

definition vfs_register_node :: "vfs_node_t \<Rightarrow> 'd vfs \<Rightarrow> int \<times> 'd vfs" where
  "vfs_register_node node s =
     (if VFS_MAX_NODES \<le> vfs_node_count s then (VFS_ENOMEM, s)
      else (VFS_OK, s\<lparr>vfs_nodes := (vfs_nodes s)[unat (vfs_node_count s) := node],
                      vfs_node_count := vfs_node_count s + 1\<rparr>))"

function lookup_loop :: "vfs_node_t list \<Rightarrow> nat \<Rightarrow> cstring \<Rightarrow> nat \<Rightarrow> nat option" where
  "lookup_loop nodes count path index =
     (if index < count then
        if vfs_strcmp (node_name (nodes ! index)) path = 0 then Some index
        else lookup_loop nodes count path (index + 1)
      else None)"
  by pat_completeness auto
termination by (relation "measure (\<lambda>(_, count, _, index). count - index)") auto

declare lookup_loop.simps [simp del]

definition vfs_lookup :: "cstring option \<Rightarrow> 'd vfs \<Rightarrow> nat option" where
  "vfs_lookup path s = (case path of None \<Rightarrow> None
     | Some p \<Rightarrow> lookup_loop (vfs_nodes s) (unat (vfs_node_count s)) p 0)"

definition vfs_exists :: "cstring option \<Rightarrow> 'd vfs \<Rightarrow> bool" where
  "vfs_exists path s \<longleftrightarrow> vfs_lookup path s \<noteq> None"

function mkdir_name :: "cstring \<Rightarrow> cstring \<Rightarrow> nat \<Rightarrow> cstring" where
  "mkdir_name path name index =
     (if at path index \<noteq> 0 \<and> index < VFS_MAX_PATH - 1
      then mkdir_name path (name[index := at path index]) (index + 1) else name)"
  by pat_completeness auto
termination by (relation "measure (\<lambda>(_, _, index). VFS_MAX_PATH - index)") auto

declare mkdir_name.simps [simp del]

definition vfs_mkdir :: "cstring option \<Rightarrow> 'd vfs \<Rightarrow> int \<times> 'd vfs" where
  "vfs_mkdir path s = (case path of None \<Rightarrow> (VFS_ERROR, s)
     | Some p \<Rightarrow>
         if vfs_exists path s then (VFS_ERROR, s)
         else vfs_register_node
           \<lparr>node_name = mkdir_name p (replicate VFS_MAX_PATH 0) 0, node_size = 0, node_flags = VFS_DIRECTORY,
            inode_id = 0, priv_data = 0, node_ops = 0\<rparr> s)"

definition vfs_list_dir :: "cstring option \<Rightarrow> 'd vfs \<Rightarrow> 'd vfs" where
  "vfs_list_dir path s = s"

definition vfs_open :: "cstring option \<Rightarrow> vfs_file_t \<Rightarrow> 'd vfs \<Rightarrow> int \<times> vfs_file_t" where
  "vfs_open path f s = (case vfs_lookup path s of
     None \<Rightarrow> (VFS_ENOENT, f)
   | Some n \<Rightarrow> (VFS_OK, \<lparr>file_node = Some n, file_offset = 0, file_flags = 0\<rparr>))"

text \<open>The size a read asks of the driver.\<close>

definition read_request :: "u32 \<Rightarrow> u32 \<Rightarrow> u32 \<Rightarrow> u32" where
  "read_request node_sz off sz = (if node_sz < off + sz then node_sz - off else sz)"

definition vfs_read ::
  "(u32 \<Rightarrow> 'd vfs_ops_t) \<Rightarrow> vfs_file_t \<Rightarrow> u32 \<Rightarrow> 'd vfs \<Rightarrow> int \<times> cstring \<times> vfs_file_t \<times> 'd vfs" where
  "vfs_read ops f sz s = (case file_node f of None \<Rightarrow> (VFS_ERROR, [], f, s)
     | Some n \<Rightarrow>
         let node = vfs_nodes s ! n in
         if node_ops node = 0 then (VFS_ERROR, [], f, s)
         else case op_read (ops (node_ops node)) of None \<Rightarrow> (VFS_ERROR, [], f, s)
         | Some rd \<Rightarrow>
             if node_size node \<le> file_offset f then (0, [], f, s)
             else
               let sz = read_request (node_size node) (file_offset f) sz;
                   (bytes_read, data, node, d) = rd node (file_offset f) sz (vfs_device s);
                   f = (if 0 < bytes_read then f\<lparr>file_offset := file_offset f + of_int bytes_read\<rparr> else f)
               in (bytes_read, data, f, s\<lparr>vfs_nodes := (vfs_nodes s)[n := node], vfs_device := d\<rparr>))"

definition vfs_write ::
  "(u32 \<Rightarrow> 'd vfs_ops_t) \<Rightarrow> vfs_file_t \<Rightarrow> cstring \<Rightarrow> 'd vfs \<Rightarrow> int \<times> vfs_file_t \<times> 'd vfs" where
  "vfs_write ops f data s = (case file_node f of None \<Rightarrow> (VFS_ERROR, f, s)
     | Some n \<Rightarrow>
         let node = vfs_nodes s ! n in
         if node_ops node = 0 then (VFS_ERROR, f, s)
         else case op_write (ops (node_ops node)) of None \<Rightarrow> (VFS_ERROR, f, s)
         | Some wr \<Rightarrow>
             let (bytes_written, node, d) = wr node (file_offset f) data (vfs_device s);
                 f' = (if 0 < bytes_written then f\<lparr>file_offset := file_offset f + of_int bytes_written\<rparr> else f);
                 node = (if 0 < bytes_written \<and> node_size node < file_offset f'
                         then node\<lparr>node_size := file_offset f'\<rparr> else node)
             in (bytes_written, f', s\<lparr>vfs_nodes := (vfs_nodes s)[n := node], vfs_device := d\<rparr>))"

section \<open>The contract of a directory of names\<close>

definition first_index :: "'a \<Rightarrow> 'a list \<Rightarrow> nat option" where
  "first_index k ks = (if k \<in> set ks then Some (length (takeWhile (\<lambda>x. x \<noteq> k) ks)) else None)"

lemma first_index_None [simp]: "first_index k ks = None \<longleftrightarrow> k \<notin> set ks"
  by (simp add: first_index_def)

lemma first_index_Some: "first_index k ks = Some i \<Longrightarrow> i < length ks \<and> ks ! i = k \<and> k \<notin> set (take i ks)"
proof -
  assume a: "first_index k ks = Some i"
  then have k: "k \<in> set ks" and i: "i = length (takeWhile (\<lambda>x. x \<noteq> k) ks)"
    by (auto simp: first_index_def split: if_splits)
  have "dropWhile (\<lambda>x. x \<noteq> k) ks \<noteq> []" using k by (auto simp: dropWhile_eq_Nil_conv)
  moreover have "length ks = i + length (dropWhile (\<lambda>x. x \<noteq> k) ks)"
    unfolding i by (metis length_append takeWhile_dropWhile_id)
  ultimately have lt: "i < length ks" by simp
  have kth: "ks ! i = k" using nth_length_takeWhile [of "\<lambda>x. x \<noteq> k" ks] lt i by simp
  have "take i ks = takeWhile (\<lambda>x. x \<noteq> k) ks" unfolding i by (simp add: takeWhile_eq_take [symmetric])
  then show ?thesis using lt kth by (auto dest: set_takeWhileD)
qed

lemma first_index_append:
  "first_index k (xs @ ys) = (case first_index k xs of Some i \<Rightarrow> Some i
     | None \<Rightarrow> map_option ((+) (length xs)) (first_index k ys))"
  by (auto simp: first_index_def takeWhile_append split: option.splits)

locale directory =
  fixes inv :: "'s \<Rightarrow> bool"
    and names :: "'s \<Rightarrow> 'k list"
    and find :: "'k \<Rightarrow> 's \<Rightarrow> nat option"
    and add :: "'v \<Rightarrow> 's \<Rightarrow> int \<times> 's"
    and key :: "'v \<Rightarrow> 'k"
    and cap :: nat
  assumes find_first: "inv s \<Longrightarrow> find k s = first_index k (names s)"
    and add_ok: "inv s \<Longrightarrow> length (names s) < cap \<Longrightarrow>
      fst (add v s) = 0 \<and> inv (snd (add v s)) \<and> names (snd (add v s)) = names s @ [key v]"
    and add_full: "inv s \<Longrightarrow> cap \<le> length (names s) \<Longrightarrow> fst (add v s) \<noteq> 0 \<and> snd (add v s) = s"
begin

text \<open>A name that was found keeps its index; a new name is found at the end.\<close>

lemma find_stable: "inv s \<Longrightarrow> find k s = Some i \<Longrightarrow> find k (snd (add v s)) = Some i"
  using add_ok [of s v] add_full [of s v]
  by (cases "length (names s) < cap") (auto simp: find_first first_index_append)

lemma find_added:
  "inv s \<Longrightarrow> length (names s) < cap \<Longrightarrow> find (key v) s = None \<Longrightarrow> find (key v) (snd (add v s)) = Some (length (names s))"
  using add_ok [of s v] by (simp add: find_first first_index_append) (simp add: first_index_def)

lemma find_other: "inv s \<Longrightarrow> k \<noteq> key v \<Longrightarrow> find k (snd (add v s)) = find k s"
  using add_ok [of s v] add_full [of s v]
  by (cases "length (names s) < cap") (auto simp: find_first first_index_append first_index_def)

lemma add_inv: "inv s \<Longrightarrow> inv (snd (add v s))"
  using add_ok [of s v] add_full [of s v] by (cases "length (names s) < cap") auto

end

section \<open>The node table is a directory\<close>

definition vfs_ok :: "'d vfs \<Rightarrow> bool" where
  "vfs_ok s \<longleftrightarrow> length (vfs_nodes s) = 128 \<and> unat (vfs_node_count s) \<le> 128"

definition vfs_names :: "'d vfs \<Rightarrow> cstring list" where
  "vfs_names s = map (\<lambda>n. cstr (node_name n)) (take (unat (vfs_node_count s)) (vfs_nodes s))"

definition vfs_find :: "cstring \<Rightarrow> 'd vfs \<Rightarrow> nat option" where
  "vfs_find k s = (if 0 \<in> set k then None else vfs_lookup (Some k) s)"

lemma lookup_loop_eq:
  assumes "count \<le> length nodes" "i \<le> count"
  shows "lookup_loop nodes count path i =
    map_option ((+) i) (first_index (cstr path) (map (\<lambda>n. cstr (node_name n)) (drop i (take count nodes))))"
  using assms(2)
proof (induction "count - i" arbitrary: i)
  case 0
  then show ?case by (subst lookup_loop.simps) (simp add: first_index_def)
next
  case (Suc k)
  then have i: "i < count" by simp
  let ?ns = "\<lambda>i. map (\<lambda>n. cstr (node_name n)) (drop i (take count nodes))"
  have ns: "?ns i = cstr (node_name (nodes ! i)) # ?ns (Suc i)"
    using i assms(1) by (subst Cons_nth_drop_Suc [symmetric]) auto
  have IH: "lookup_loop nodes count path (Suc i) = map_option ((+) (Suc i)) (first_index (cstr path) (?ns (Suc i)))"
    using Suc by (intro Suc.hyps(1)) auto
  show ?case
    using i IH unfolding ns
    by (subst lookup_loop.simps) (auto simp: strcmp_eq_0 first_index_def)
qed

lemma map_option_add_0 [simp]: "map_option ((+) (0 :: nat)) x = x"
  by (cases x) simp_all

lemma vfs_lookup_eq: "vfs_ok s \<Longrightarrow> vfs_lookup (Some p) s = first_index (cstr p) (vfs_names s)"
  by (simp add: vfs_lookup_def lookup_loop_eq vfs_ok_def vfs_names_def)

lemma vfs_names_register:
  assumes "vfs_ok s" "\<not> 128 \<le> vfs_node_count s"
  shows "vfs_ok (snd (vfs_register_node n s)) \<and> fst (vfs_register_node n s) = 0 \<and>
    vfs_names (snd (vfs_register_node n s)) = vfs_names s @ [cstr (node_name n)]"
proof -
  have c: "unat (vfs_node_count s) < 128" using assms(2) by (simp add: word_le_nat_alt)
  then have "unat (vfs_node_count s + 1) = Suc (unat (vfs_node_count s))" by (simp add: unat_word_ariths)
  then show ?thesis
    using assms c by (simp add: vfs_register_node_def vfs_ok_def vfs_names_def take_Suc_conv_app_nth)
qed

lemma length_vfs_names: "vfs_ok s \<Longrightarrow> length (vfs_names s) = unat (vfs_node_count s)"
  by (simp add: vfs_names_def vfs_ok_def)

lemma cstr_no_zero: "cstr k = k \<longleftrightarrow> 0 \<notin> set k"
  by (metis cstr_id cstr_nonzero)

lemma vfs_names_no_zero: "k \<in> set (vfs_names s) \<Longrightarrow> 0 \<notin> set k"
  by (auto simp: vfs_names_def dest: cstr_nonzero)

interpretation vfs_dir: directory vfs_ok vfs_names vfs_find vfs_register_node "\<lambda>n. cstr (node_name n)" 128
proof (unfold_locales, goal_cases)
  case (1 s k)
  then show ?case
    using vfs_names_no_zero [of k s] by (auto simp: vfs_find_def vfs_lookup_eq cstr_id first_index_def)
next
  case (2 s v)
  then show ?case using vfs_names_register [of s v] by (simp add: length_vfs_names word_le_nat_alt)
next
  case (3 s v)
  then show ?case by (simp add: length_vfs_names word_le_nat_alt vfs_register_node_def)
qed

lemma mkdir_name_eq:
  assumes "i \<le> min 255 (length (cstr path))" "length name = 256"
  shows "mkdir_name path name i =
    take i name @ drop i (take 255 (cstr path)) @ drop (min 255 (length (cstr path))) name"
  using assms
proof (induction "255 - i" arbitrary: i name)
  case 0
  then have "i = 255" "255 \<le> length (cstr path)" by auto
  then show ?case by (subst mkdir_name.simps) simp
next
  case (Suc k)
  let ?n = "min 255 (length (cstr path))"
  show ?case
  proof (cases "i < ?n")
    case True
    then have i: "i < length (cstr path)" "i < 255" by auto
    have dr: "drop i (take 255 (cstr path)) = cstr path ! i # drop (Suc i) (take 255 (cstr path))"
      using i by (subst Cons_nth_drop_Suc [symmetric]) auto
    have "mkdir_name path name i = mkdir_name path (name[i := cstr path ! i]) (i + 1)"
      using i at_cstr [of i path] by (subst mkdir_name.simps) auto
    also have "\<dots> = take (i + 1) (name[i := cstr path ! i]) @ drop (i + 1) (take 255 (cstr path)) @
        drop ?n (name[i := cstr path ! i])"
      using Suc i by (intro Suc.hyps(1)) auto
    finally show ?thesis using Suc.prems True dr by (simp add: take_Suc_conv_app_nth)
  next
    case False
    then have n: "i = ?n" using Suc.prems by auto
    then have "\<not> (at path i \<noteq> 0 \<and> i < 255)" using at_end [of path] by (auto simp: min_def split: if_splits)
    then have "mkdir_name path name i = name" by (subst mkdir_name.simps) auto
    then show ?thesis using n by simp
  qed
qed

lemma cstr_mkdir_name: "cstr (mkdir_name path (replicate 256 0) 0) = take 255 (cstr path)"
proof -
  let ?n = "min 255 (length (cstr path))"
  have "256 - ?n = Suc (255 - ?n)" by simp
  then have "drop ?n (replicate 256 (0 :: u8)) = 0 # replicate (255 - ?n) 0"
    by (simp only: drop_replicate replicate_Suc)
  then have "mkdir_name path (replicate 256 0) 0 = take 255 (cstr path) @ 0 # replicate (255 - ?n) 0"
    by (simp add: mkdir_name_eq)
  moreover have "0 \<notin> set (take 255 (cstr path))" by (metis cstr_nonzero in_set_takeD)
  ultimately show ?thesis by (simp add: cstr_append_zero)
qed

section \<open>Properties of the VFS\<close>

text \<open>\<open>vfs_mkdir\<close> fails without effect when the path is taken (\<open>VFS_ERROR\<close>) or the table is full
  (\<open>VFS_ENOMEM\<close>); otherwise it appends one name, the path cut at 255 bytes, and leaves every
  other lookup as it was. The new directory can be found under its path exactly when the path
  was not cut.\<close>

lemma vfs_mkdir_correct:
  assumes ok: "vfs_ok s"
  shows "let (r, s') = vfs_mkdir (Some p) s in
    (if cstr p \<in> set (vfs_names s) then r = VFS_ERROR \<and> s' = s
     else if length (vfs_names s) = 128 then r = VFS_ENOMEM \<and> s' = s
     else r = VFS_OK \<and> vfs_ok s' \<and> vfs_names s' = vfs_names s @ [take 255 (cstr p)] \<and>
          (\<forall>q. cstr q \<noteq> take 255 (cstr p) \<longrightarrow> vfs_lookup (Some q) s' = vfs_lookup (Some q) s) \<and>
          (vfs_exists (Some p) s' \<longleftrightarrow> length (cstr p) \<le> 255))"
proof -
  let ?n = "\<lparr>node_name = mkdir_name p (replicate 256 0) 0, node_size = 0, node_flags = VFS_DIRECTORY,
    inode_id = 0, priv_data = 0, node_ops = 0\<rparr>"
  have ex: "vfs_exists (Some p) s \<longleftrightarrow> cstr p \<in> set (vfs_names s)"
    using ok by (auto simp: vfs_exists_def vfs_lookup_eq)
  have full: "128 \<le> vfs_node_count s \<longleftrightarrow> length (vfs_names s) = 128"
    using ok by (auto simp: length_vfs_names word_le_nat_alt vfs_ok_def)
  show ?thesis
  proof (cases "cstr p \<in> set (vfs_names s) \<or> length (vfs_names s) = 128")
    case True
    then show ?thesis by (auto simp: vfs_mkdir_def ex vfs_register_node_def full)
  next
    case False
    let ?s' = "snd (vfs_register_node ?n s)"
    have reg: "vfs_ok ?s'" "fst (vfs_register_node ?n s) = 0" "vfs_names ?s' = vfs_names s @ [take 255 (cstr p)]"
      using vfs_names_register [OF ok, of ?n] False full by (simp_all add: cstr_mkdir_name)
    have mk: "vfs_mkdir (Some p) s = (0, ?s')"
      using False reg(2) by (simp add: vfs_mkdir_def ex prod_eq_iff)
    have "vfs_lookup (Some q) ?s' = vfs_lookup (Some q) s" if "cstr q \<noteq> take 255 (cstr p)" for q
      using that ok reg by (simp add: vfs_lookup_eq first_index_append) (simp add: first_index_def split: option.splits)
    moreover have "vfs_exists (Some p) ?s' \<longleftrightarrow> length (cstr p) \<le> 255"
    proof -
      have "cstr p = take 255 (cstr p) \<longleftrightarrow> length (cstr p) \<le> 255" by (metis take_all_iff)
      then show ?thesis using False reg by (simp add: vfs_exists_def vfs_lookup_eq)
    qed
    ultimately show ?thesis using False mk reg by simp
  qed
qed

definition vfs_boot :: "unit vfs" where
  "vfs_boot = \<lparr>vfs_nodes = replicate 128 \<lparr>node_name = replicate 256 0, node_size = 0, node_flags = 0, inode_id = 0,
     priv_data = 0, node_ops = 0\<rparr>, vfs_node_count = 0, vfs_device = ()\<rparr>"

lemma vfs_read_calls:
  assumes "file_node f = Some n" "node_ops (vfs_nodes s ! n) \<noteq> 0"
    "op_read (ops (node_ops (vfs_nodes s ! n))) = Some rd" "file_offset f < node_size (vfs_nodes s ! n)"
    "rd (vfs_nodes s ! n) (file_offset f) (read_request (node_size (vfs_nodes s ! n)) (file_offset f) sz) (vfs_device s)
       = (r, data, node, d)"
  shows "vfs_read ops f sz s =
    (r, data, if 0 < r then f\<lparr>file_offset := file_offset f + of_int r\<rparr> else f,
     s\<lparr>vfs_nodes := (vfs_nodes s)[n := node], vfs_device := d\<rparr>)"
  using assms assms(4) [folded not_le] by (simp add: vfs_read_def Let_def)

text \<open>A read asks the driver for at most the bytes between the offset and the end of the file,
  except when offset plus size wraps around 2^32: then the full size goes to the driver, past
  the end of the file.\<close>

lemma vfs_read_request_bound:
  assumes "off < node_sz"
  shows "if unat off + unat sz < 2 ^ 32
    then unat (read_request node_sz off sz) = min (unat sz) (unat node_sz - unat off)
    else read_request node_sz off sz = sz \<and> unat node_sz < unat off + unat (read_request node_sz off sz)"
proof (cases "unat off + unat sz < 2 ^ 32")
  case True
  have "unat (off + sz) = unat off + unat sz" using True by (simp add: unat_add_nowrap)
  moreover have "unat (node_sz - off) = unat node_sz - unat off"
    using assms by (simp add: unat_sub word_less_nat_alt word_le_nat_alt)
  ultimately show ?thesis using True assms by (auto simp: read_request_def word_less_nat_alt)
next
  case False
  have "unat (off + sz) = (unat off + unat sz - 4294967296) mod 4294967296"
    using False by (simp add: unat_word_ariths le_mod_geq)
  also have "\<dots> \<le> unat off + unat sz - 4294967296" by (rule mod_less_eq_dividend)
  finally have "unat (off + sz) \<le> unat off" using unat_u32_less [of sz] by linarith
  then have "\<not> node_sz < off + sz" using assms by (simp add: word_less_nat_alt)
  then show ?thesis using False by (auto simp: read_request_def intro: less_le_trans [OF unat_u32_less])
qed

section \<open>Drivers that store bytes\<close>

text \<open>What a file driver promises: a read returns the bytes at the offset, a write at or before the
  end of the file replaces them, and files do not affect each other.\<close>

definition overwrite :: "nat \<Rightarrow> cstring \<Rightarrow> cstring \<Rightarrow> cstring" where
  "overwrite off data c = take off c @ data @ drop (off + length data) c"

definition stores :: "'d vfs_ops_t \<Rightarrow> ('d \<Rightarrow> u32 \<Rightarrow> cstring) \<Rightarrow> bool" where
  "stores drv content \<longleftrightarrow> (\<exists>rd wr. op_read drv = Some rd \<and> op_write drv = Some wr \<and>
     (\<forall>node off n d. let bytes = take (unat n) (drop (unat off) (content d (inode_id node)))
        in rd node off n d = (int (length bytes), bytes, node, d)) \<and>
     (\<forall>node off data d. unat off \<le> length (content d (inode_id node)) \<longrightarrow> (\<exists>d'. wr node off data d = (int (length data), node, d') \<and>
        content d' (inode_id node) = overwrite (unat off) data (content d (inode_id node)) \<and>
        (\<forall>i. i \<noteq> inode_id node \<longrightarrow> content d' i = content d i))))"

lemma stores_read:
  assumes "stores (ops (node_ops (vfs_nodes s ! n))) content" "file_node f = Some n" "node_ops (vfs_nodes s ! n) \<noteq> 0"
    "file_offset f < node_size (vfs_nodes s ! n)" "n < length (vfs_nodes s)"
    and "bytes = take (unat (read_request (node_size (vfs_nodes s ! n)) (file_offset f) sz))
      (drop (unat (file_offset f)) (content (vfs_device s) (inode_id (vfs_nodes s ! n))))"
  shows "vfs_read ops f sz s =
    (int (length bytes), bytes, f\<lparr>file_offset := file_offset f + of_nat (length bytes)\<rparr>, s)"
proof -
  obtain rd where rd: "op_read (ops (node_ops (vfs_nodes s ! n))) = Some rd"
    "rd (vfs_nodes s ! n) (file_offset f) (read_request (node_size (vfs_nodes s ! n)) (file_offset f) sz) (vfs_device s) =
      (int (length bytes), bytes, vfs_nodes s ! n, vfs_device s)"
    using assms(1,6) unfolding stores_def Let_def by blast
  show ?thesis using vfs_read_calls [of f n s ops rd, OF assms(2,3) rd(1) assms(4) rd(2)] by simp
qed

lemma stores_write:
  assumes "stores (ops (node_ops (vfs_nodes s ! n))) content" "file_node f = Some n" "node_ops (vfs_nodes s ! n) \<noteq> 0"
    "n < length (vfs_nodes s)" "unat (file_offset f) + length data < 2 ^ 31" "data \<noteq> []"
    "unat (file_offset f) \<le> length (content (vfs_device s) (inode_id (vfs_nodes s ! n)))"
  defines "sz \<equiv> max (unat (node_size (vfs_nodes s ! n))) (unat (file_offset f) + length data)"
  shows "\<exists>d'. vfs_write ops f data s =
      (int (length data), f\<lparr>file_offset := of_nat (unat (file_offset f) + length data)\<rparr>,
       s\<lparr>vfs_nodes := (vfs_nodes s)[n := (vfs_nodes s ! n)\<lparr>node_size := of_nat sz\<rparr>], vfs_device := d'\<rparr>) \<and>
    content d' (inode_id (vfs_nodes s ! n)) =
      overwrite (unat (file_offset f)) data (content (vfs_device s) (inode_id (vfs_nodes s ! n))) \<and>
    (\<forall>i. i \<noteq> inode_id (vfs_nodes s ! n) \<longrightarrow> content d' i = content (vfs_device s) i)"
proof -
  let ?node = "vfs_nodes s ! n"
  obtain wr d' where wr: "op_write (ops (node_ops ?node)) = Some wr"
    "wr ?node (file_offset f) data (vfs_device s) = (int (length data), ?node, d')"
    and c: "content d' (inode_id ?node) = overwrite (unat (file_offset f)) data (content (vfs_device s) (inode_id ?node))"
      "\<forall>i. i \<noteq> inode_id ?node \<longrightarrow> content d' i = content (vfs_device s) i"
    using assms(1,7) unfolding stores_def by blast
  have off: "file_offset f + of_nat (length data) = of_nat (unat (file_offset f) + length data)" by simp
  have u: "unat (of_nat (unat (file_offset f) + length data) :: u32) = unat (file_offset f) + length data"
    using assms(5) by (intro unat_of_nat_u32) simp
  have node: "(if node_size ?node < of_nat (unat (file_offset f) + length data)
      then ?node\<lparr>node_size := of_nat (unat (file_offset f) + length data)\<rparr> else ?node) = ?node\<lparr>node_size := of_nat sz\<rparr>"
    using u by (auto simp: sz_def max_def word_less_nat_alt)
  show ?thesis
    using assms(2,3,6) wr c off
    by (intro exI [of _ d']) (simp add: vfs_write_def Let_def node cong: if_cong del: of_nat_add split del: if_split)
qed

text \<open>Changing the size of a node and the device affects no lookup.\<close>

lemma vfs_lookup_node_size:
  assumes "vfs_ok s" "n < 128"
  shows "vfs_lookup (Some p) (s\<lparr>vfs_nodes := (vfs_nodes s)[n := (vfs_nodes s ! n)\<lparr>node_size := z\<rparr>], vfs_device := d\<rparr>) =
    vfs_lookup (Some p) s"
proof -
  let ?s = "s\<lparr>vfs_nodes := (vfs_nodes s)[n := (vfs_nodes s ! n)\<lparr>node_size := z\<rparr>], vfs_device := d\<rparr>"
  have "vfs_names ?s = vfs_names s" using assms by (auto simp: vfs_names_def vfs_ok_def list_eq_iff_nth_eq nth_list_update)
  moreover have "vfs_ok ?s" using assms(1) by (simp add: vfs_ok_def)
  ultimately show ?thesis using assms(1) by (simp add: vfs_lookup_eq)
qed

text \<open>C15. On a driver that stores bytes, what is written to a fresh file through \<open>vfs_open\<close> and
  \<open>vfs_write\<close> is what a later \<open>vfs_open\<close> and \<open>vfs_read\<close> return, whatever the size of the read buffer
  as long as it is big enough.\<close>

theorem vfs_write_read_roundtrip:
  assumes ok: "vfs_ok s" and path: "vfs_lookup (Some p) s = Some n" "n < 128"
    and drv: "stores (ops (node_ops (vfs_nodes s ! n))) content" "node_ops (vfs_nodes s ! n) \<noteq> 0"
    and fresh: "node_size (vfs_nodes s ! n) = 0" "content (vfs_device s) (inode_id (vfs_nodes s ! n)) = []"
    and data: "data \<noteq> []" "length data < 2 ^ 31" and sz: "length data \<le> unat sz"
  shows "\<exists>f s' f'. vfs_open (Some p) f0 s = (VFS_OK, f) \<and>
    vfs_write ops f data s = (int (length data), f', s') \<and>
    vfs_open (Some p) f0 s' = (VFS_OK, f) \<and>
    fst (vfs_read ops f sz s') = int (length data) \<and> fst (snd (vfs_read ops f sz s')) = data"
proof -
  let ?f = "\<lparr>file_node = Some n, file_offset = 0, file_flags = 0\<rparr>" and ?node = "vfs_nodes s ! n"
  have len: "length (vfs_nodes s) = 128" using ok by (simp add: vfs_ok_def)
  obtain d' f' where w: "vfs_write ops ?f data s = (int (length data), f',
      s\<lparr>vfs_nodes := (vfs_nodes s)[n := ?node\<lparr>node_size := of_nat (length data)\<rparr>], vfs_device := d'\<rparr>)"
    and c: "content d' (inode_id ?node) = data"
    using stores_write [of ops s n content ?f data] drv(1) drv(2) data len path(2) fresh by (auto simp: overwrite_def)
  let ?s = "s\<lparr>vfs_nodes := (vfs_nodes s)[n := ?node\<lparr>node_size := of_nat (length data)\<rparr>], vfs_device := d'\<rparr>"
  have u: "unat (of_nat (length data) :: u32) = length data" using data by (intro unat_of_nat_u32) simp
  have lk: "vfs_lookup (Some p) ?s = Some n" using path ok by (simp add: vfs_lookup_node_size)
  have "vfs_read ops ?f sz ?s = (int (length data), data, ?f\<lparr>file_offset := 0 + of_nat (length data)\<rparr>, ?s)"
    using stores_read [of ops ?s n content ?f data sz] drv c len path(2) data sz u
    by (simp add: read_request_def word_less_nat_alt)
  then show ?thesis using w path(1) lk by (auto simp: vfs_open_def)
qed

text \<open>A driver that keeps the files in memory, by inode.\<close>

definition ram_read :: "vfs_node_t \<Rightarrow> u32 \<Rightarrow> u32 \<Rightarrow> (u32 \<Rightarrow> cstring) \<Rightarrow> int \<times> cstring \<times> vfs_node_t \<times> (u32 \<Rightarrow> cstring)" where
  "ram_read node off n d =
     (let bytes = take (unat n) (drop (unat off) (d (inode_id node))) in (int (length bytes), bytes, node, d))"

definition ram_write :: "vfs_node_t \<Rightarrow> u32 \<Rightarrow> cstring \<Rightarrow> (u32 \<Rightarrow> cstring) \<Rightarrow> int \<times> vfs_node_t \<times> (u32 \<Rightarrow> cstring)" where
  "ram_write node off data d =
     (int (length data), node, d(inode_id node := overwrite (unat off) data (d (inode_id node))))"

definition ram_ops :: "u32 \<Rightarrow> (u32 \<Rightarrow> cstring) vfs_ops_t" where
  "ram_ops p = \<lparr>op_read = Some ram_read, op_write = Some ram_write\<rparr>"

lemma stores_ram: "stores (ram_ops p) (\<lambda>d. d)"
  by (simp add: stores_def ram_ops_def ram_read_def ram_write_def Let_def)

definition ram_vfs :: "cstring \<Rightarrow> (u32 \<Rightarrow> cstring) vfs" where
  "ram_vfs name = snd (vfs_register_node
     \<lparr>node_name = name, node_size = 0, node_flags = VFS_FILE, inode_id = 7, priv_data = 0, node_ops = 1\<rparr>
     \<lparr>vfs_nodes = vfs_nodes vfs_boot, vfs_node_count = 0, vfs_device = (\<lambda>_. [])\<rparr>)"

theorem vfs_write_read_roundtrip_witness:
  "let s = ram_vfs (lit ''/log''); f = snd (vfs_open (Some (lit ''/log'')) \<lparr>file_node = None, file_offset = 0, file_flags = 0\<rparr> s);
       s' = snd (snd (vfs_write ram_ops f [1, 2, 3] s))
   in fst (snd (vfs_read ram_ops f 16 s')) = [1, 2, 3]"
proof -
  let ?s = "ram_vfs (lit ''/log'')"
  have ok: "vfs_ok ?s" by (simp add: vfs_ok_def ram_vfs_def vfs_register_node_def vfs_boot_def)
  have lk: "vfs_lookup (Some (lit ''/log'')) ?s = Some 0"
    by (simp add: vfs_lookup_def ram_vfs_def vfs_register_node_def vfs_boot_def lookup_loop.simps strcmp_eq_0)
  have node: "node_ops (vfs_nodes ?s ! 0) \<noteq> 0" "node_size (vfs_nodes ?s ! 0) = 0" "vfs_device ?s = (\<lambda>_. [])"
    by (simp_all add: ram_vfs_def vfs_register_node_def vfs_boot_def)
  show ?thesis
    using vfs_write_read_roundtrip [of ?s "lit ''/log''" 0 ram_ops "\<lambda>d. d" "[1, 2, 3]" 16
      "\<lparr>file_node = None, file_offset = 0, file_flags = 0\<rparr>"]
      ok lk node stores_ram [of "node_ops (vfs_nodes ?s ! 0)"] by (auto simp: Let_def)
qed

end
