(* ===== verification/Elf_Loader.thy ===== *)
theory Elf_Loader
  imports Memory
begin

text \<open>
  \<open>drivers/elf.h\<close> and \<open>drivers/loader.c\<close>: the ELF32 loader. The image lies in memory at \<open>buf\<close>;
  headers are read from memory at each use, as the source does through its pointers, because
  copying a segment may overwrite them. The logger of \<open>loader.c\<close> discards its arguments and
  has no counterpart here.
\<close>

section \<open>Headers\<close>

text \<open>The constants of \<open>elf.h\<close> that the loader uses.\<close>

abbreviation (input) EI_MAG0 :: nat where "EI_MAG0 \<equiv> 0"
abbreviation (input) EI_MAG1 :: nat where "EI_MAG1 \<equiv> 1"
abbreviation (input) EI_MAG2 :: nat where "EI_MAG2 \<equiv> 2"
abbreviation (input) EI_MAG3 :: nat where "EI_MAG3 \<equiv> 3"
abbreviation (input) EI_CLASS :: nat where "EI_CLASS \<equiv> 4"
abbreviation (input) EI_DATA :: nat where "EI_DATA \<equiv> 5"
abbreviation (input) ELFMAG0 :: u8 where "ELFMAG0 \<equiv> 0x7F"
abbreviation (input) ELFMAG1 :: u8 where "ELFMAG1 \<equiv> 0x45"
abbreviation (input) ELFMAG2 :: u8 where "ELFMAG2 \<equiv> 0x4C"
abbreviation (input) ELFMAG3 :: u8 where "ELFMAG3 \<equiv> 0x46"
abbreviation (input) ELFCLASS32 :: u8 where "ELFCLASS32 \<equiv> 1"
abbreviation (input) ELFDATA2LSB :: u8 where "ELFDATA2LSB \<equiv> 1"
abbreviation (input) ET_EXEC :: u16 where "ET_EXEC \<equiv> 2"
abbreviation (input) EM_386 :: u16 where "EM_386 \<equiv> 3"
abbreviation (input) PT_LOAD :: u32 where "PT_LOAD \<equiv> 1"

record Elf32_Ehdr =
  e_ident :: "u8 list"
  e_type :: u16
  e_machine :: u16
  e_version :: u32
  e_entry :: u32
  e_phoff :: u32
  e_shoff :: u32
  e_flags :: u32
  e_ehsize :: u16
  e_phentsize :: u16
  e_phnum :: u16
  e_shentsize :: u16
  e_shnum :: u16
  e_shstrndx :: u16

record Elf32_Phdr =
  p_type :: u32
  p_offset :: u32
  p_vaddr :: u32
  p_paddr :: u32
  p_filesz :: u32
  p_memsz :: u32
  p_flags :: u32
  p_align :: u32

record elf_load_result_t =
  entry :: u32
  load_min :: u32
  load_max :: u32

abbreviation (input) sizeof_Ehdr :: u32 where "sizeof_Ehdr \<equiv> 52"
abbreviation (input) sizeof_Phdr :: u32 where "sizeof_Phdr \<equiv> 32"

definition load_ehdr :: "mem \<Rightarrow> u32 \<Rightarrow> Elf32_Ehdr" where
  "load_ehdr m a =
     \<lparr>e_ident = map (\<lambda>k. m (a + of_nat k)) [0..<16], e_type = rd16 m (a + 16), e_machine = rd16 m (a + 18),
      e_version = rd32 m (a + 20), e_entry = rd32 m (a + 24), e_phoff = rd32 m (a + 28), e_shoff = rd32 m (a + 32),
      e_flags = rd32 m (a + 36), e_ehsize = rd16 m (a + 40), e_phentsize = rd16 m (a + 42), e_phnum = rd16 m (a + 44),
      e_shentsize = rd16 m (a + 46), e_shnum = rd16 m (a + 48), e_shstrndx = rd16 m (a + 50)\<rparr>"

definition load_phdr :: "mem \<Rightarrow> u32 \<Rightarrow> Elf32_Phdr" where
  "load_phdr m a =
     \<lparr>p_type = rd32 m a, p_offset = rd32 m (a + 4), p_vaddr = rd32 m (a + 8), p_paddr = rd32 m (a + 12),
      p_filesz = rd32 m (a + 16), p_memsz = rd32 m (a + 20), p_flags = rd32 m (a + 24), p_align = rd32 m (a + 28)\<rparr>"

section \<open>The loader\<close>

definition loader_memcpy :: "mem \<Rightarrow> u32 \<Rightarrow> u32 \<Rightarrow> u32 \<Rightarrow> mem" where
  "loader_memcpy m destination source sz = copy_up (unat sz) m destination source"

definition loader_memset :: "mem \<Rightarrow> u32 \<Rightarrow> u32 \<Rightarrow> u32 \<Rightarrow> mem" where
  "loader_memset m destination value sz = fill_up (unat sz) m destination (ucast value)"

definition elf_check_header :: "Elf32_Ehdr \<Rightarrow> int" where
  "elf_check_header eh =
     (if e_ident eh ! EI_MAG0 \<noteq> ELFMAG0 \<or> e_ident eh ! EI_MAG1 \<noteq> ELFMAG1 \<or>
         e_ident eh ! EI_MAG2 \<noteq> ELFMAG2 \<or> e_ident eh ! EI_MAG3 \<noteq> ELFMAG3 then - 1
      else if e_ident eh ! EI_CLASS \<noteq> ELFCLASS32 then - 1
      else if e_ident eh ! EI_DATA \<noteq> ELFDATA2LSB then - 1
      else if e_machine eh \<noteq> EM_386 then - 1
      else if e_type eh \<noteq> ET_EXEC then - 1
      else if e_phoff eh = 0 \<or> e_phnum eh = 0 then - 1
      else 0)"

text \<open>The body of the loop for one \<open>PT_LOAD\<close> header at address \<open>ph\<close>: \<open>None\<close> is the early return.\<close>

definition elf_segment :: "u32 \<Rightarrow> u32 \<Rightarrow> u32 \<Rightarrow> mem \<Rightarrow> mem option" where
  "elf_segment buf buf_size ph m =
     (if buf_size < p_offset (load_phdr m ph) + p_filesz (load_phdr m ph) then None
      else if p_memsz (load_phdr m ph) < p_filesz (load_phdr m ph) then None
      else
        let dst = p_vaddr (load_phdr m ph);
            src = buf + p_offset (load_phdr m ph);
            m = loader_memcpy m dst src (p_filesz (load_phdr m ph))
        in Some (if p_filesz (load_phdr m ph) < p_memsz (load_phdr m ph)
             then loader_memset m (dst + p_filesz (load_phdr m ph)) 0
               (p_memsz (load_phdr m ph) - p_filesz (load_phdr m ph))
             else m))"

lemma u16_index_step:
  fixes i e :: u16
  assumes "i < e"
  shows "unat (i + 1) = unat i + 1" and "unat i < 65535"
proof -
  show "unat i < 65535" using assms unat_u16_less [of e] unfolding word_less_nat_alt by linarith
  then show "unat (i + 1) = unat i + 1" by (simp add: unat_word_ariths)
qed

lemma u16_index_measure: "i < e \<Longrightarrow> 65535 - unat (i + 1) < 65535 - unat i" for i e :: u16
  using u16_index_step [of i e] by linarith

function elf_loop ::
  "u32 \<Rightarrow> u32 \<Rightarrow> u32 \<Rightarrow> u16 \<Rightarrow> mem \<Rightarrow> u32 \<Rightarrow> u32 \<Rightarrow> bool \<Rightarrow> mem \<times> (u32 \<times> u32 \<times> bool) option" where
  "elf_loop buf buf_size phdrs i m lo hi loaded_any =
     (if i < e_phnum (load_ehdr m buf) then
        let ph = phdrs + ucast i * sizeof_Phdr in
        if p_type (load_phdr m ph) \<noteq> PT_LOAD
        then elf_loop buf buf_size phdrs (i + 1) m lo hi loaded_any
        else case elf_segment buf buf_size ph m of
          None \<Rightarrow> (m, None)
        | Some m \<Rightarrow>
            let seg_start = p_vaddr (load_phdr m ph);
                seg_end = p_vaddr (load_phdr m ph) + p_memsz (load_phdr m ph)
            in elf_loop buf buf_size phdrs (i + 1) m
                 (if seg_start < lo then seg_start else lo)
                 (if hi < seg_end then seg_end else hi) True
      else (m, Some (lo, hi, loaded_any)))"
  by pat_completeness auto
termination
  by (relation "measure (\<lambda>(_, _, _, i, _). 65535 - unat i)") (simp_all add: u16_index_measure)

declare elf_loop.simps [simp del]

definition elf_load :: "u32 \<Rightarrow> u32 \<Rightarrow> elf_load_result_t \<Rightarrow> mem \<Rightarrow> int \<times> elf_load_result_t \<times> mem" where
  "elf_load buf buf_size out m =
     (if buf_size < sizeof_Ehdr then (- 1, out, m)
      else if elf_check_header (load_ehdr m buf) \<noteq> 0 then (- 1, out, m)
      else if buf_size < e_phoff (load_ehdr m buf) + ucast (e_phnum (load_ehdr m buf)) * ucast (e_phentsize (load_ehdr m buf))
      then (- 1, out, m)
      else
        let phdrs = buf + e_phoff (load_ehdr m buf) in
        case elf_loop buf buf_size phdrs 0 m 0xFFFFFFFF 0 False of
          (m, None) \<Rightarrow> (- 1, out, m)
        | (m, Some (lo, hi, loaded_any)) \<Rightarrow>
            if \<not> loaded_any then (- 1, out, m)
            else (0, \<lparr>entry = e_entry (load_ehdr m buf), load_min = lo, load_max = hi\<rparr>, m))"

section \<open>The contract: an image as a list of segments\<close>

text \<open>The file as bytes, its program headers, and the effect of placing one segment.\<close>

definition file_bytes :: "mem \<Rightarrow> u32 \<Rightarrow> u32 \<Rightarrow> u8 list" where
  "file_bytes m buf sz = map (\<lambda>k. m (buf + of_nat k)) [0..<unat sz]"

definition phdr_list :: "mem \<Rightarrow> u32 \<Rightarrow> Elf32_Phdr list" where
  "phdr_list m buf = map (\<lambda>k. load_phdr m (buf + e_phoff (load_ehdr m buf) + of_nat k * 32))
     [0..<unat (e_phnum (load_ehdr m buf))]"

definition loadable :: "Elf32_Phdr list \<Rightarrow> Elf32_Phdr list" where
  "loadable phs = filter (\<lambda>ph. p_type ph = 1) phs"

definition segment_ok :: "u32 \<Rightarrow> Elf32_Phdr \<Rightarrow> bool" where
  "segment_ok sz ph \<longleftrightarrow> unat (p_offset ph) + unat (p_filesz ph) \<le> unat sz \<and> p_filesz ph \<le> p_memsz ph"

definition segment_bytes :: "u8 list \<Rightarrow> Elf32_Phdr \<Rightarrow> u8 list" where
  "segment_bytes file ph = take (unat (p_filesz ph)) (drop (unat (p_offset ph)) file) @
     replicate (unat (p_memsz ph) - unat (p_filesz ph)) 0"

definition place :: "u8 list \<Rightarrow> Elf32_Phdr \<Rightarrow> mem \<Rightarrow> mem" where
  "place file ph = store_bytes (p_vaddr ph) (segment_bytes file ph)"

definition elf_valid :: "mem \<Rightarrow> u32 \<Rightarrow> u32 \<Rightarrow> bool" where
  "elf_valid m buf sz \<longleftrightarrow> 52 \<le> unat sz \<and> elf_check_header (load_ehdr m buf) = 0 \<and>
     unat (e_phoff (load_ehdr m buf)) + unat (e_phnum (load_ehdr m buf)) * 32 \<le> unat sz \<and>
     (\<forall>ph \<in> set (loadable (phdr_list m buf)). segment_ok sz ph) \<and> loadable (phdr_list m buf) \<noteq> []"

text \<open>Two memories that agree on the image have the same headers.\<close>

definition same_image :: "u32 \<Rightarrow> u32 \<Rightarrow> mem \<Rightarrow> mem \<Rightarrow> bool" where
  "same_image buf sz m m' \<longleftrightarrow> (\<forall>x. in_region buf (unat sz) x \<longrightarrow> m x = m' x)"

lemma in_region_sub:
  assumes "in_region (buf + k) n x" "unat k + n \<le> N"
  shows "in_region buf N x"
proof -
  have "x - buf = k + (x - (buf + k))" by simp
  then have "unat (x - buf) \<le> unat k + unat (x - (buf + k))" by (metis unat_plus_if' le_add_diff_inverse2 linear diff_le_self order_refl)
  then show ?thesis using assms by (simp add: in_region_def)
qed

lemma rd_same:
  assumes "same_image buf sz m m'"
  shows "unat k + 2 \<le> unat sz \<Longrightarrow> rd16 m (buf + k) = rd16 m' (buf + k)"
    and "unat k + 4 \<le> unat sz \<Longrightarrow> rd32 m (buf + k) = rd32 m' (buf + k)"
  using assms unfolding same_image_def by (blast intro: rd16_cong rd32_cong in_region_sub)+

lemma load_ehdr_same:
  assumes "same_image buf sz m m'" "52 \<le> unat sz"
  shows "load_ehdr m buf = load_ehdr m' buf"
proof -
  have "m (buf + of_nat k) = m' (buf + of_nat k)" if "k < 16" for k
    using assms that by (simp add: same_image_def in_region_def unat_of_nat_u32)
  then show ?thesis using assms(2) by (simp add: load_ehdr_def rd_same [OF assms(1)])
qed

lemma load_phdr_same:
  assumes "same_image buf sz m m'" "unat k + 32 \<le> unat sz"
  shows "load_phdr m (buf + k) = load_phdr m' (buf + k)"
proof -
  have u: "unat (k + of_nat j) = unat k + j" if "j < 32" for j
    using assms(2) that unat_u32_less [of sz] by (subst unat_add_nowrap) (simp_all add: unat_of_nat_u32 del: unat_u32_less)
  have "rd32 m (buf + (k + of_nat j)) = rd32 m' (buf + (k + of_nat j))" if "j + 4 \<le> 32" for j
    using assms(2) u [of j] that by (intro rd_same(2) [OF assms(1)]) simp
  from this [of 0] this [of 4] this [of 8] this [of 12] this [of 16] this [of 20] this [of 24] this [of 28]
  show ?thesis by (simp add: load_phdr_def add.assoc)
qed

section \<open>One segment\<close>

lemma in_region_tail:
  assumes "f \<le> t" "t \<le> 4294967296" "f < 4294967296"
  shows "in_region (d + of_nat f) (t - f) x \<longleftrightarrow> f \<le> unat (x - d) \<and> unat (x - d) < t"
proof -
  have sub: "x - (d + of_nat f) = (x - d) - of_nat f" by simp
  have f: "unat (of_nat f :: u32) = f" using assms by (simp add: unat_of_nat_u32)
  show ?thesis
  proof (cases "f \<le> unat (x - d)")
    case True
    then have "unat (x - d - of_nat f) = unat (x - d) - f" using f by (subst unat_sub) (simp_all add: word_le_nat_alt)
    then show ?thesis using True assms unfolding in_region_def sub by auto
  next
    case False
    moreover have "unat (z - of_nat f) = unat z + (4294967296 - f)" if "unat z < f" for z :: u32
      using that f assms(3) by (simp add: unat_sub_if_size word_size)
    ultimately have "unat (x - d - of_nat f) = unat (x - d) + (4294967296 - f)" by (simp add: not_le)
    then show ?thesis using False assms unfolding in_region_def sub by auto
  qed
qed

text \<open>A header whose segment stays clear of the image, with sizes that do not wrap.\<close>

definition clear_of :: "u32 \<Rightarrow> u32 \<Rightarrow> Elf32_Phdr \<Rightarrow> bool" where
  "clear_of buf sz ph \<longleftrightarrow> unat (p_offset ph) + unat (p_filesz ph) < 2 ^ 32 \<and>
     (\<forall>x. in_region (p_vaddr ph) (unat (p_memsz ph)) x \<longrightarrow> \<not> in_region buf (unat sz) x)"

lemma place_same_image:
  assumes "clear_of buf sz ph" "segment_ok sz ph" "length file = unat sz"
  shows "same_image buf sz (place file ph m) m"
proof -
  have "length (segment_bytes file ph) = unat (p_memsz ph)"
    using assms(2,3) by (auto simp: segment_bytes_def segment_ok_def word_le_nat_alt)
  then show ?thesis using assms(1) by (auto simp: same_image_def place_def store_bytes_def clear_of_def)
qed

lemma same_image_trans: "same_image buf sz m m' \<Longrightarrow> same_image buf sz m' m'' \<Longrightarrow> same_image buf sz m m''"
  by (simp add: same_image_def)

lemma copy_then_fill:
  assumes clear: "clear_of buf sz ph" and ok: "segment_ok sz ph" and same: "same_image buf sz m m0"
  shows "fill_up (unat (p_memsz ph) - unat (p_filesz ph))
      (copy_up (unat (p_filesz ph)) m (p_vaddr ph) (buf + p_offset ph)) (p_vaddr ph + p_filesz ph) 0
    = place (file_bytes m0 buf sz) ph m" (is "?l = ?r")
proof
  fix x
  let ?f = "unat (p_filesz ph)" and ?t = "unat (p_memsz ph)" and ?o = "unat (p_offset ph)" and ?d = "p_vaddr ph"
  have le: "?f \<le> ?t" "?o + ?f \<le> unat sz" using ok by (auto simp: segment_ok_def word_le_nat_alt)
  have src: "in_region buf (unat sz) y" if "in_region (buf + p_offset ph) ?f y" for y
    using that le(2) by (rule in_region_sub)
  have tail: "in_region (?d + p_filesz ph) (?t - ?f) x \<longleftrightarrow> ?f \<le> unat (x - ?d) \<and> unat (x - ?d) < ?t"
    using in_region_tail [of ?f ?t ?d x] le(1) by (simp add: less_imp_le)
  have cp: "copy_up ?f m ?d (buf + p_offset ph) x =
      (if in_region ?d ?f x then m (buf + p_offset ph + (x - ?d)) else m x)"
  proof (rule copy_up_apply)
    show "\<not> in_region (buf + p_offset ph) ?f y" if "in_region ?d ?f y" for y
      using that clear le(1) src [of y] by (auto simp: clear_of_def in_region_def intro: less_le_trans)
  qed (simp add: less_imp_le)
  have len: "length (segment_bytes (file_bytes m0 buf sz) ph) = ?t"
    using le by (simp add: segment_bytes_def file_bytes_def)
  have byte: "m (buf + p_offset ph + (x - ?d)) = segment_bytes (file_bytes m0 buf sz) ph ! unat (x - ?d)"
    if "unat (x - ?d) < ?f"
  proof -
    have "of_nat (?o + unat (x - ?d)) = p_offset ph + (x - ?d)" by simp
    then have "segment_bytes (file_bytes m0 buf sz) ph ! unat (x - ?d) = m0 (buf + (p_offset ph + (x - ?d)))"
      using that le by (simp add: segment_bytes_def file_bytes_def nth_append del: of_nat_add)
    moreover have "in_region buf (unat sz) (buf + p_offset ph + (x - ?d))"
      using that by (intro src) (simp add: in_region_def)
    ultimately show ?thesis using same by (simp add: same_image_def add.assoc)
  qed
  have "?t - ?f \<le> 4294967296" using unat_u32_less [of "p_memsz ph"] by linarith
  then show "?l x = ?r x"
    using cp byte tail le len fill_up_apply [of "?t - ?f" "copy_up ?f m ?d (buf + p_offset ph)" "?d + p_filesz ph" 0 x]
    by (auto simp: place_def store_bytes_def in_region_def segment_bytes_def file_bytes_def nth_append less_imp_le)
qed

lemma elf_segment_place:
  assumes same: "same_image buf sz m m0" and k: "unat k + 32 \<le> unat sz" and ph: "ph = load_phdr m0 (buf + k)"
    and clear: "clear_of buf sz ph"
  shows "elf_segment buf sz (buf + k) m =
    (if segment_ok sz ph then Some (place (file_bytes m0 buf sz) ph m) else None)"
proof -
  have hd: "load_phdr m (buf + k) = ph" using load_phdr_same [OF same k] ph by simp
  have "unat (p_offset ph + p_filesz ph) = unat (p_offset ph) + unat (p_filesz ph)"
    using clear by (intro unat_add_nowrap) (simp add: clear_of_def)
  then have guard: "segment_ok sz ph \<longleftrightarrow> \<not> sz < p_offset ph + p_filesz ph \<and> \<not> p_memsz ph < p_filesz ph"
    by (auto simp: segment_ok_def word_less_nat_alt word_le_nat_alt)
  show ?thesis
  proof (cases "segment_ok sz ph")
    case False
    then show ?thesis using guard by (auto simp: elf_segment_def hd)
  next
    case True
    let ?m = "loader_memcpy m (p_vaddr ph) (buf + p_offset ph) (p_filesz ph)"
    have le: "unat (p_filesz ph) \<le> unat (p_memsz ph)" using True by (simp add: segment_ok_def word_le_nat_alt)
    have "?m x = m x" if "in_region buf (unat sz) x" for x
    proof -
      have "\<not> in_region (p_vaddr ph) (unat (p_filesz ph)) x"
        using that clear le by (auto simp: clear_of_def in_region_def intro: less_le_trans)
      then show ?thesis by (simp add: loader_memcpy_def copy_up_outside less_imp_le)
    qed
    then have "same_image buf sz ?m m0" using same by (simp add: same_image_def)
    then have hd': "load_phdr ?m (buf + k) = ph" using load_phdr_same [OF _ k] ph by simp
    have "unat (p_memsz ph - p_filesz ph) = unat (p_memsz ph) - unat (p_filesz ph)"
      using le by (simp add: unat_sub word_le_nat_alt)
    then show ?thesis
      using True guard le copy_then_fill [OF clear True same]
      by (auto simp: elf_segment_def hd hd' [unfolded loader_memcpy_def] Let_def loader_memset_def loader_memcpy_def
          word_less_nat_alt)
  qed
qed

section \<open>All segments\<close>

lemma unat_phdr_offset:
  fixes off sz :: u32
  assumes "unat off + n * 32 \<le> unat sz" "i < n"
  shows "unat (off + of_nat i * 32) = unat off + i * 32" and "unat (off + of_nat i * 32) + 32 \<le> unat sz"
proof -
  have b: "unat off + i * 32 + 32 \<le> unat sz" using assms by simp
  have lt: "unat off + i * 32 < 4294967296" using b unat_u32_less [of sz] by linarith
  then have u: "unat (of_nat (i * 32) :: u32) = i * 32" by (intro unat_of_nat_u32) linarith
  have "unat (off + of_nat (i * 32)) = unat off + i * 32" using u lt by (subst unat_add_nowrap) simp_all
  then show "unat (off + of_nat i * 32) = unat off + i * 32" by simp
  then show "unat (off + of_nat i * 32) + 32 \<le> unat sz" using b by simp
qed

definition span_min :: "Elf32_Phdr list \<Rightarrow> u32 \<Rightarrow> u32" where
  "span_min phs lo = fold (\<lambda>ph lo. min (p_vaddr ph) lo) phs lo"

definition span_max :: "Elf32_Phdr list \<Rightarrow> u32 \<Rightarrow> u32" where
  "span_max phs hi = fold (\<lambda>ph hi. max (p_vaddr ph + p_memsz ph) hi) phs hi"

lemma loadable_Cons: "loadable (ph # phs) = (if p_type ph = 1 then ph # loadable phs else loadable phs)"
  by (simp add: loadable_def)

text \<open>What the loop returns for the loadable headers \<open>phs\<close> that are still ahead.\<close>

definition loop_spec ::
  "u32 \<Rightarrow> u32 \<Rightarrow> mem \<Rightarrow> Elf32_Phdr list \<Rightarrow> mem \<Rightarrow> u32 \<Rightarrow> u32 \<Rightarrow> bool \<Rightarrow> mem \<times> (u32 \<times> u32 \<times> bool) option \<Rightarrow> bool" where
  "loop_spec buf sz m0 phs m lo hi any r \<longleftrightarrow>
     (if \<forall>ph \<in> set phs. segment_ok sz ph
      then r = (fold (place (file_bytes m0 buf sz)) phs m, Some (span_min phs lo, span_max phs hi, any \<or> phs \<noteq> [])) \<and>
        same_image buf sz (fst r) m0
      else snd r = None)"

lemma loop_spec_Cons:
  assumes "segment_ok sz ph"
  shows "loop_spec buf sz m0 (ph # phs) m lo hi any r \<longleftrightarrow>
    loop_spec buf sz m0 phs (place (file_bytes m0 buf sz) ph m) (if p_vaddr ph < lo then p_vaddr ph else lo)
      (if hi < p_vaddr ph + p_memsz ph then p_vaddr ph + p_memsz ph else hi) True r"
  using assms by (simp add: loop_spec_def span_min_def span_max_def min_def max_def less_le_not_le)
    (auto simp: le_less not_le)

lemma elf_loop_eq:
  assumes sz: "52 \<le> unat sz" and off: "off = e_phoff (load_ehdr m0 buf)"
    and n: "n = unat (e_phnum (load_ehdr m0 buf))" and table: "unat off + n * 32 \<le> unat sz"
    and clear: "\<forall>ph \<in> set (loadable (phdr_list m0 buf)). clear_of buf sz ph"
    and same: "same_image buf sz m m0" and i: "unat i \<le> n"
  shows "loop_spec buf sz m0 (loadable (drop (unat i) (phdr_list m0 buf))) m lo hi any
    (elf_loop buf sz (buf + off) i m lo hi any)"
  using same i
proof (induction "n - unat i" arbitrary: i m lo hi any)
  case 0
  have "load_ehdr m buf = load_ehdr m0 buf" by (rule load_ehdr_same [OF 0(2) sz])
  then have "\<not> i < e_phnum (load_ehdr m buf)" using 0 n by (simp add: word_less_nat_alt)
  then show ?case
    using 0 n by (subst elf_loop.simps) (simp add: phdr_list_def loadable_def loop_spec_def span_min_def span_max_def)
next
  case (Suc j)
  have eh: "load_ehdr m buf = load_ehdr m0 buf" by (rule load_ehdr_same [OF Suc.prems(1) sz])
  have lt: "unat i < n" "i < e_phnum (load_ehdr m0 buf)" using Suc.hyps(2) n by (auto simp: word_less_nat_alt)
  then have i1: "unat (i + 1) = Suc (unat i)" using u16_index_step(1) by fastforce
  let ?F = "file_bytes m0 buf sz"
  define k where "k = off + of_nat (unat i) * 32"
  define ph where "ph = load_phdr m0 (buf + k)"
  have k: "unat k + 32 \<le> unat sz" using unat_phdr_offset(2) [OF table lt(1)] by (simp add: k_def)
  have addr: "buf + off + ucast i * 32 = buf + k" by (simp add: add.assoc k_def)
  have dr: "drop (unat i) (phdr_list m0 buf) = ph # drop (unat (i + 1)) (phdr_list m0 buf)"
    using lt n i1 by (subst Cons_nth_drop_Suc [symmetric]) (simp_all add: phdr_list_def ph_def k_def off add.assoc)
  have ty: "p_type (load_phdr m (buf + k)) = p_type ph" using load_phdr_same [OF Suc.prems(1) k] by (simp add: ph_def)
  have IH: "j = n - unat (i + 1)" "unat (i + 1) \<le> n" using Suc.hyps(2) i1 lt by auto
  have step: "elf_loop buf sz (buf + off) i m lo hi any =
      (if p_type ph \<noteq> 1 then elf_loop buf sz (buf + off) (i + 1) m lo hi any
       else case elf_segment buf sz (buf + k) m of None \<Rightarrow> (m, None)
         | Some m \<Rightarrow> elf_loop buf sz (buf + off) (i + 1) m
             (if p_vaddr (load_phdr m (buf + k)) < lo then p_vaddr (load_phdr m (buf + k)) else lo)
             (if hi < p_vaddr (load_phdr m (buf + k)) + p_memsz (load_phdr m (buf + k))
              then p_vaddr (load_phdr m (buf + k)) + p_memsz (load_phdr m (buf + k)) else hi) True)"
    using lt by (subst elf_loop.simps) (simp only: eh Let_def addr ty if_True)
  show ?case
  proof (cases "p_type ph = 1")
    case False
    then show ?thesis using Suc.hyps(1) [OF IH(1) Suc.prems(1) IH(2)] step by (simp add: dr loadable_Cons)
  next
    case True
    have "ph \<in> set (drop (unat i) (phdr_list m0 buf))" by (simp add: dr)
    then have cl: "clear_of buf sz ph" using clear True by (auto simp: loadable_def dest: in_set_dropD)
    note seg = elf_segment_place [OF Suc.prems(1) k ph_def cl]
    show ?thesis
    proof (cases "segment_ok sz ph")
      case False
      then show ?thesis using step seg True by (simp add: dr loadable_Cons loop_spec_def)
    next
      case ok: True
      have same': "same_image buf sz (place ?F ph m) m0"
        by (rule same_image_trans [OF place_same_image [OF cl ok] Suc.prems(1)]) (simp add: file_bytes_def)
      then have "load_phdr (place ?F ph m) (buf + k) = ph" using load_phdr_same [OF _ k] by (simp add: ph_def)
      then have "elf_loop buf sz (buf + off) i m lo hi any = elf_loop buf sz (buf + off) (i + 1) (place ?F ph m)
          (if p_vaddr ph < lo then p_vaddr ph else lo) (if hi < p_vaddr ph + p_memsz ph then p_vaddr ph + p_memsz ph else hi) True"
        unfolding step seg using True ok by simp
      then show ?thesis
        using Suc.hyps(1) [OF IH(1) same' IH(2)] True by (simp only: dr loadable_Cons loop_spec_Cons [OF ok] simp_thms if_True)
    qed
  qed
qed

section \<open>Properties of the loader\<close>

lemma unat_ucast_times_32: "unat (ucast (x :: u16) * (32 :: u32)) = unat x * 32"
proof -
  have x: "unat x < 65536" by simp
  then have "unat (ucast x :: u32) = unat x" by (simp add: unsigned_ucast_eq take_bit_nat_eq_self_iff del: unat_u16_less)
  then show ?thesis using x by (simp add: unat_word_ariths del: unat_u16_less)
qed


text \<open>An image with one segment: headers of 84 bytes and the file bytes behind them.\<close>

definition bytes32 :: "u32 \<Rightarrow> u8 list" where
  "bytes32 v = [ucast v, ucast (drop_bit 8 v), ucast (drop_bit 16 v), ucast (drop_bit 24 v)]"

definition one_segment :: "u32 \<Rightarrow> u32 \<Rightarrow> u32 \<Rightarrow> u8 list" where
  "one_segment offset filesz memsz =
     [0x7F, 0x45, 0x4C, 0x46, 1, 1, 1, 0, 0, 0, 0, 0, 0, 0, 0, 0, 2, 0, 3, 0] @ bytes32 1 @ bytes32 0x1000 @ bytes32 52 @
     bytes32 0 @ bytes32 0 @ [52, 0, 32, 0, 1, 0, 0, 0, 0, 0, 0, 0] @
     bytes32 1 @ bytes32 offset @ bytes32 0x1000 @ bytes32 0x1000 @ bytes32 filesz @ bytes32 memsz @ bytes32 5 @ bytes32 0x1000"

lemma one_segment_ehdr:
  "load_ehdr (store_bytes 0x2000 (one_segment offset filesz memsz @ data) m) 0x2000 =
   \<lparr>e_ident = [0x7F, 0x45, 0x4C, 0x46, 1, 1, 1, 0, 0, 0, 0, 0, 0, 0, 0, 0], e_type = 2, e_machine = 3, e_version = 1,
    e_entry = 0x1000, e_phoff = 52, e_shoff = 0, e_flags = 0, e_ehsize = 52, e_phentsize = 32, e_phnum = 1,
    e_shentsize = 0, e_shnum = 0, e_shstrndx = 0\<rparr>"
  by (simp add: load_ehdr_def store_bytes_def one_segment_def bytes32_def in_region_def rd16_def rd32_def upt_rec)

lemma one_segment_phdrs:
  "phdr_list (store_bytes 0x2000 (one_segment offset filesz memsz @ data) m) 0x2000 =
   [\<lparr>p_type = 1, p_offset = offset, p_vaddr = 0x1000, p_paddr = 0x1000, p_filesz = filesz, p_memsz = memsz, p_flags = 5,
     p_align = 0x1000\<rparr>]"
  by (simp add: phdr_list_def one_segment_ehdr)
    (simp add: load_phdr_def store_bytes_def one_segment_def bytes32_def in_region_def rd32_def bytes_u32)


text \<open>C17. The bound on a segment is computed in 32 bits: an image with offset 0xFFFFFFF0 and size 16
  passes it, and \<open>elf_load\<close> reports success after copying the sixteen bytes in front of the
  buffer, whatever they are, to the address the image chose.\<close>

theorem elf_load_copies_outside:
  "let m0 = store_bytes 0x2000 (one_segment 0xFFFFFFF0 16 16) m; (r, out', m') = elf_load 0x2000 84 out m0
   in r = 0 \<and> map (\<lambda>k. m' (0x1000 + of_nat k)) [0..<16] = map (\<lambda>k. m (0x1FF0 + of_nat k)) [0..<16]"
proof -
  let ?m = "store_bytes 0x2000 (one_segment 0xFFFFFFF0 16 16) m" and ?buf = "0x2000 :: u32"
  let ?m' = "copy_up 16 ?m 0x1000 0x1FF0"
  note eh = one_segment_ehdr [of "0xFFFFFFF0" 16 16 "[]" m, simplified]
  have "load_phdr ?m (?buf + 52) = hd (phdr_list ?m ?buf)" by (simp add: phdr_list_def eh)
  then have ph: "load_phdr ?m 0x2034 = \<lparr>p_type = 1, p_offset = 0xFFFFFFF0, p_vaddr = 0x1000, p_paddr = 0x1000,
      p_filesz = 16, p_memsz = 16, p_flags = 5, p_align = 0x1000\<rparr>"
    using one_segment_phdrs [of "0xFFFFFFF0" 16 16 "[]" m] by simp
  have cp: "?m' x = (if in_region 0x1000 16 x then ?m (0x1FF0 + (x - 0x1000)) else ?m x)" for x
    by (rule copy_up_apply) (simp_all add: in_region_flat)
  have same: "same_image ?buf 84 ?m' ?m" by (simp add: same_image_def cp in_region_flat)
  have eh': "load_ehdr ?m' ?buf = load_ehdr ?m ?buf" using same by (rule load_ehdr_same) simp
  have ph': "load_phdr ?m' 0x2034 = load_phdr ?m 0x2034" using load_phdr_same [OF same, of 52] by simp
  have wrap: "(4294975472 :: u32) = 0x1FF0" by (simp add: word_unat_eq_iff)
  have seg: "elf_segment ?buf 84 0x2034 ?m = Some ?m'"
    by (simp add: elf_segment_def ph Let_def loader_memcpy_def wrap ph')
  have "elf_loop ?buf 84 0x2034 0 ?m lo hi any =
      elf_loop ?buf 84 0x2034 1 ?m' (if 0x1000 < lo then 0x1000 else lo) (if hi < 0x1010 then 0x1010 else hi) True" for lo hi any
    by (subst elf_loop.simps) (simp add: eh ph ph' seg)
  moreover have "elf_loop ?buf 84 0x2034 1 ?m' lo hi True = (?m', Some (lo, hi, True))" for lo hi
    by (subst elf_loop.simps) (simp add: eh eh')
  moreover have "?m' (0x1000 + of_nat k) = m (0x1FF0 + of_nat k)" if "k < 16" for k
  proof -
    have "unat (0x1FF0 + of_nat k :: u32) = 0x1FF0 + k"
      using that by (subst unat_add_nowrap) (simp_all add: unat_of_nat_u32)
    then have "\<not> in_region 0x2000 84 (0x1FF0 + of_nat k)" using that by (simp add: in_region_flat)
    moreover have "length (one_segment 0xFFFFFFF0 16 16) = 84" by (simp add: one_segment_def bytes32_def)
    ultimately show ?thesis using that unfolding cp by (simp add: in_region_def unat_of_nat_u32 store_bytes_def)
  qed
  ultimately show ?thesis by (simp add: elf_load_def eh elf_check_header_def)
qed

end
