(* ===== verification/Boot.thy ===== *)
theory Boot
  imports Mm_Heap Port_Io Vfs Elf_Loader
begin

text \<open>
  \<open>kernel/main.c\<close> and the tags of \<open>kernel/include/timesubsys.h\<close>: the kernel log, loading
  \<open>/init.elf\<close> through the VFS, the heap and the ELF loader, and \<open>main\<close>. The state is the
  three components it drives. Parameters: the drivers behind the VFS nodes, the code of the
  loaded program (\<open>call\<close>, \<open>None\<close> when it never returns) and the contents \<open>res0\<close> that the
  local variable \<open>res\<close> happens to have before \<open>elf_load\<close> fills it.
\<close>

record 'd kernel =
  k_io :: io
  k_heap :: heap
  k_vfs :: "'d vfs"

definition LOG_BASE :: cstring where "LOG_BASE = lit ''base''"
definition LOG_SERIO :: cstring where "LOG_SERIO = lit ''serio''"
definition LOG_INPUT :: cstring where "LOG_INPUT = lit ''input''"
definition LOG_RTC :: cstring where "LOG_RTC = lit ''rtc_cmos''"
definition LOG_CLOCK :: cstring where "LOG_CLOCK = lit ''clocksource''"
definition LOG_NET :: cstring where "LOG_NET = lit ''NET''"
definition LOG_DISK :: cstring where "LOG_DISK = lit ''disk''"

definition KERN_WARNING :: cstring where "KERN_WARNING = lit ''<4>''"
definition KERN_INFO :: cstring where "KERN_INFO = lit ''<6>''"

definition INIT_PATH :: cstring where "INIT_PATH = lit ''/init.elf''"
definition INIT_MAXSZ :: u32 where "INIT_MAXSZ = 1 * 1024 * 1024"

definition klog :: "cstring \<Rightarrow> cstring \<Rightarrow> cstring \<Rightarrow> io \<Rightarrow> io option" where
  "klog tag level msg s = do {
     s \<leftarrow> serial_write (of_char CHR ''['') s;
     s \<leftarrow> serial_puts tag s;
     s \<leftarrow> serial_puts (lit ''] '') s;
     s \<leftarrow> serial_puts level s;
     s \<leftarrow> serial_write (of_char CHR '' '') s;
     serial_puts msg s
   }"

text \<open>\<open>klog\<close> on the kernel state, followed by the given result.\<close>

definition log_and_return :: "bool \<Rightarrow> cstring \<Rightarrow> cstring \<Rightarrow> 'd kernel \<Rightarrow> (bool \<times> 'd kernel) option" where
  "log_and_return r level msg k = do { s \<leftarrow> klog LOG_BASE level msg (k_io k); Some (r, k\<lparr>k_io := s\<rparr>) }"

definition boot_init ::
  "(u32 \<Rightarrow> 'd vfs_ops_t) \<Rightarrow> (u32 \<Rightarrow> 'd kernel \<Rightarrow> 'd kernel option) \<Rightarrow> elf_load_result_t \<Rightarrow> 'd kernel \<Rightarrow> (bool \<times> 'd kernel) option" where
  "boot_init ops call res0 k =
     (case vfs_open (Some INIT_PATH) \<lparr>file_node = None, file_offset = 0, file_flags = 0\<rparr> (k_vfs k) of (r, file) \<Rightarrow>
      if r \<noteq> VFS_OK then log_and_return False KERN_WARNING (lit ''init.elf not found on vfs/n'') k
      else
        let node = the (file_node file); sz = node_size (vfs_nodes (k_vfs k) ! node) in
        if sz = 0 \<or> INIT_MAXSZ < sz then log_and_return False KERN_WARNING (lit ''init.elf size out of range/n'') k
        else do {
          (h, buf) \<leftarrow> kmalloc (k_heap k) sz;
          let k = k\<lparr>k_heap := h\<rparr>;
          if buf = 0 then log_and_return False KERN_WARNING (lit ''kmalloc failed for init.elf buffer/n'') k
          else do {
            let (n, data, file, v) = vfs_read ops file sz (k_vfs k);
            let k = k\<lparr>k_vfs := v, k_heap := h\<lparr>mem := store_bytes buf data (mem h)\<rparr>\<rparr>;
            let sz = node_size (vfs_nodes v ! node);
            if n \<noteq> sint sz then do {
              (b, k) \<leftarrow> log_and_return False KERN_WARNING (lit ''short read on init.elf/n'') k;
              h \<leftarrow> kfree (k_heap k) buf;
              Some (b, k\<lparr>k_heap := h\<rparr>)
            } else do {
              let (r, res, m) = elf_load buf sz res0 (mem (k_heap k));
              let k = k\<lparr>k_heap := (k_heap k)\<lparr>mem := m\<rparr>\<rparr>;
              if r = 0 then do {
                (b, k) \<leftarrow> log_and_return False KERN_WARNING (lit ''elf_load rejected init.elf/n'') k;
                h \<leftarrow> kfree (k_heap k) buf;
                Some (b, k\<lparr>k_heap := h\<rparr>)
              } else do {
                (b, k) \<leftarrow> log_and_return True KERN_INFO (lit ''init.elf loaded, jumping to entry/n'') k;
                k \<leftarrow> call (entry res) k;
                Some (b, k)
              }
            }
          }
        })"

text \<open>The lines \<open>main\<close> prints before it looks for init, in order. \<open>main\<close> ends in one of its two
  idle loops; its result is the state it idles in.\<close>

definition banner :: "io \<Rightarrow> io option" where
  "banner s = do {
     s \<leftarrow> klog LOG_BASE KERN_INFO (lit ''base subsystem online'' @ [10]) s;
     s \<leftarrow> klog LOG_CLOCK KERN_INFO (lit ''clocksource calibrated, tick rate locked/n'') s;
     s \<leftarrow> klog LOG_SERIO KERN_INFO (lit ''serial line stable, echo confirmed'' @ [10]) s;
     s \<leftarrow> klog LOG_RTC KERN_INFO (lit ''real-time clock synced'' @ [10]) s;
     s \<leftarrow> klog LOG_INPUT KERN_INFO (lit ''input subsystem standing by'' @ [10]) s;
     s \<leftarrow> klog LOG_DISK KERN_WARNING (lit ''disk controller not yet initialized'' @ [10]) s;
     s \<leftarrow> klog LOG_NET KERN_WARNING (lit ''network stack not yet initialized'' @ [10]) s;
     serial_puts (lit ''/nkernel core online. all early subsystems reporting.'' @ [10]) s
   }"

definition main ::
  "(u32 \<Rightarrow> 'd vfs_ops_t) \<Rightarrow> (u32 \<Rightarrow> 'd kernel \<Rightarrow> 'd kernel option) \<Rightarrow> elf_load_result_t \<Rightarrow> 'd kernel \<Rightarrow> 'd kernel option" where
  "main ops call res0 k = do {
     let s = serial_init (k_io k);
     s \<leftarrow> serial_puts (lit ''launching kernel..'' @ [10, 10]) s;
     let k = k\<lparr>k_heap := mem_init (k_heap k) 0\<rparr>;
     s \<leftarrow> banner s;
     (booted, k) \<leftarrow> boot_init ops call res0 (k\<lparr>k_io := s\<rparr>);
     if \<not> booted then do {
       s \<leftarrow> serial_puts (lit ''failed to boot init '' @ [0xE2, 0x80, 0x94] @ lit '' halting in idle loop/n'') (k_io k);
       Some (k\<lparr>k_io := s\<rparr>)
     } else do {
       s \<leftarrow> serial_puts (lit ''init returned unexpectedly '' @ [0xE2, 0x80, 0x94] @ lit '' halting/n'') (k_io k);
       Some (k\<lparr>k_io := s\<rparr>)
     }
   }"

section \<open>What the log looks like\<close>

definition klog_text :: "cstring \<Rightarrow> cstring \<Rightarrow> cstring \<Rightarrow> cstring" where
  "klog_text tag level msg = lit ''['' @ expand tag @ lit ''] '' @ expand level @ lit '' '' @ expand msg"

lemma prints_klog [prints_intro]: "prints (klog_text tag level msg) (klog tag level msg)"
  unfolding klog_def [abs_def]
  by (rule prints_eq, (rule prints_intro)+) (simp add: klog_text_def lit_def peek_def)

lemma log_and_return_eq:
  assumes "uart_live (dev8 (k_io k))"
  shows "\<exists>s. log_and_return r level msg k = Some (r, k\<lparr>k_io := s\<rparr>) \<and> dev8 s = dev8 (k_io k) \<and>
    line_out (io_log s) = line_out (io_log (k_io k)) @ klog_text LOG_BASE level msg"
  using prints_klog [of LOG_BASE level msg] assms unfolding prints_def log_and_return_def by fastforce

definition banner_text :: cstring where
  "banner_text =
     lit ''[base] <6> base subsystem online'' @ [10] @
     lit ''[clocksource] <6> clocksource calibrated, tick rate locked'' @ [10] @
     lit ''[serio] <6> serial line stable, echo confirmed'' @ [10] @
     lit ''[rtc_cmos] <6> real-time clock synced'' @ [10] @
     lit ''[input] <6> input subsystem standing by'' @ [10] @
     lit ''[disk] <4> disk controller not yet initialized'' @ [10] @
     lit ''[NET] <4> network stack not yet initialized'' @ [10, 10] @
     lit ''kernel core online. all early subsystems reporting.'' @ [10]"

lemmas log_tags = LOG_BASE_def LOG_SERIO_def LOG_INPUT_def LOG_RTC_def LOG_CLOCK_def LOG_NET_def LOG_DISK_def
  KERN_WARNING_def KERN_INFO_def

lemma prints_banner [prints_intro]: "prints banner_text banner"
  unfolding banner_def [abs_def]
  by (rule prints_eq, (rule prints_intro)+) (simp add: klog_text_def banner_text_def log_tags lit_def peek_def)

section \<open>Booting\<close>

text \<open>C18. Nothing in the kernel registers a file before \<open>main\<close> looks for \<open>/init.elf\<close>, so with a live
  serial line \<open>main\<close> always ends in its idle loop, whatever drivers and programs there are, with
  an initialised heap and exactly this text on the line.\<close>

theorem main_idles:
  fixes k :: "'d kernel"
  assumes live: "uart_live (dev8 (k_io k))" and empty: "vfs_node_count (k_vfs k) = 0"
  shows "\<exists>k'. main ops call res0 k = Some k' \<and> k_heap k' = mem_init (k_heap k) 0 \<and> k_vfs k' = k_vfs k \<and>
    line_out (io_log (k_io k')) = line_out (io_log (serial_init (k_io k))) @ lit ''launching kernel..'' @ [10, 10] @
      banner_text @ lit ''[base] <4> init.elf not found on vfs'' @ [10] @
      lit ''failed to boot init '' @ [0xE2, 0x80, 0x94] @ lit '' halting in idle loop'' @ [10]"
proof -
  let ?fail = "lit ''failed to boot init '' @ [0xE2, 0x80, 0x94] @ lit '' halting in idle loop/n''"
  let ?log = "klog LOG_BASE KERN_WARNING (lit ''init.elf not found on vfs/n'')"
  let ?body = "\<lambda>s. serial_puts (lit ''launching kernel..'' @ [10, 10]) s \<bind> (\<lambda>s. banner s \<bind> (\<lambda>s. ?log s \<bind> serial_puts ?fail))"
  have no_file: "fst (vfs_open (Some INIT_PATH) f (k_vfs k)) = VFS_ENOENT" for f
    using empty by (simp add: vfs_open_def vfs_lookup_def lookup_loop.simps)
  have main: "main ops call res0 k = ?body (serial_init (k_io k)) \<bind> (\<lambda>s. Some (k\<lparr>k_heap := mem_init (k_heap k) 0, k_io := s\<rparr>))"
    using no_file by (simp add: main_def boot_init_def log_and_return_def case_prod_beta Let_def bind_assoc)
  have "prints (lit ''launching kernel..'' @ [10, 10] @ banner_text @ lit ''[base] <4> init.elf not found on vfs'' @ [10] @
      lit ''failed to boot init '' @ [0xE2, 0x80, 0x94] @ lit '' halting in idle loop'' @ [10]) ?body"
    by (rule prints_eq, (rule prints_intro)+) (simp add: klog_text_def log_tags lit_def peek_def)
  moreover have "uart_live (dev8 (serial_init (k_io k)))" using live by (simp add: serial_init_def Let_def)
  ultimately obtain s new where "?body (serial_init (k_io k)) = Some s" "io_log s = io_log (serial_init (k_io k)) @ new"
    "line_out new = lit ''launching kernel..'' @ [10, 10] @ banner_text @ lit ''[base] <4> init.elf not found on vfs'' @ [10] @
      lit ''failed to boot init '' @ [0xE2, 0x80, 0x94] @ lit '' halting in idle loop'' @ [10]"
    unfolding prints_def by blast
  then show ?thesis by (simp add: main)
qed

lemma elf_load_failure: "elf_load buf sz out m = (r, res, m') \<Longrightarrow> r \<noteq> 0 \<Longrightarrow> res = out"
  by (auto simp: elf_load_def Let_def split: if_splits prod.splits option.splits)

text \<open>The state \<open>boot_init\<close> is in when it calls \<open>elf_load\<close>: the file was found, has a size in range,
  got a buffer from the heap and was read into it.\<close>

definition init_in_buffer ::
  "(u32 \<Rightarrow> 'd vfs_ops_t) \<Rightarrow> cstring \<Rightarrow> heap \<Rightarrow> u32 \<Rightarrow> 'd kernel \<Rightarrow> bool" where
  "init_in_buffer ops file h buf k \<longleftrightarrow> (\<exists>n content. vfs_lookup (Some INIT_PATH) (k_vfs k) = Some n \<and>
     n < length (vfs_nodes (k_vfs k)) \<and> node_ops (vfs_nodes (k_vfs k) ! n) \<noteq> 0 \<and>
     stores (ops (node_ops (vfs_nodes (k_vfs k) ! n))) content \<and>
     content (vfs_device (k_vfs k)) (inode_id (vfs_nodes (k_vfs k) ! n)) = file \<and>
     file \<noteq> [] \<and> length file \<le> 1048576 \<and> node_size (vfs_nodes (k_vfs k) ! n) = of_nat (length file)) \<and>
     kmalloc (k_heap k) (of_nat (length file)) = Some (h, buf) \<and> buf \<noteq> 0"

lemma boot_init_at_elf_load:
  fixes k :: "'d kernel"
  assumes at: "init_in_buffer ops file h buf k" and m: "m = store_bytes buf file (mem h)"
    and load: "elf_load buf (of_nat (length file)) res0 m = (r, res, m')"
  shows "boot_init ops call res0 k =
    (if r = 0 then log_and_return False KERN_WARNING (lit ''elf_load rejected init.elf/n'') (k\<lparr>k_heap := h\<lparr>mem := m'\<rparr>\<rparr>) \<bind>
       (\<lambda>(b, k). kfree (k_heap k) buf \<bind> (\<lambda>h. Some (b, k\<lparr>k_heap := h\<rparr>)))
     else log_and_return True KERN_INFO (lit ''init.elf loaded, jumping to entry/n'') (k\<lparr>k_heap := h\<lparr>mem := m'\<rparr>\<rparr>) \<bind>
       (\<lambda>(b, k). call (entry res) k \<bind> (\<lambda>k. Some (b, k))))"
proof -
  let ?v = "k_vfs k" and ?sz = "of_nat (length file) :: u32"
  obtain n content where lk: "vfs_lookup (Some INIT_PATH) ?v = Some n" "n < length (vfs_nodes ?v)"
    "node_ops (vfs_nodes ?v ! n) \<noteq> 0" "stores (ops (node_ops (vfs_nodes ?v ! n))) content"
    and fl: "content (vfs_device ?v) (inode_id (vfs_nodes ?v ! n)) = file" "file \<noteq> []" "length file \<le> 1048576"
      "node_size (vfs_nodes ?v ! n) = ?sz"
    and mal: "kmalloc (k_heap k) ?sz = Some (h, buf)" "buf \<noteq> 0"
    using at unfolding init_in_buffer_def by blast
  let ?f = "\<lparr>file_node = Some n, file_offset = 0, file_flags = 0\<rparr>"
  have u: "unat ?sz = length file" using fl(3) by (intro unat_of_nat_u32) simp
  have range: "0 < ?sz" "\<not> INIT_MAXSZ < ?sz" "?sz \<noteq> 0"
    using fl(2,3) u by (simp_all add: INIT_MAXSZ_def word_less_nat_alt del: unat_of_nat) (metis unat_0 length_0_conv)
  have sint: "int (length file) = sint ?sz"
    using fl(3) by (simp add: sint_uint uint_nat u signed_take_bit_int_eq_self del: of_nat_unat)
  have rd: "vfs_read ops ?f ?sz ?v = (int (length file), file, ?f\<lparr>file_offset := of_nat (length file)\<rparr>, ?v)"
    using stores_read [of ops ?v n content ?f "file" ?sz] lk fl range u by (simp add: read_request_def word_less_nat_alt)
  show ?thesis
    using lk(1) fl(4) mal range rd load m sint
    by (simp add: boot_init_def vfs_open_def Let_def)
qed

lemma buffer_write:
  assumes ok: "heap_ok cap s" and mal: "kmalloc s (of_nat (length file)) = Some (h, buf)" "buf \<noteq> 0"
    and len: "length file \<le> 1048576" "file \<noteq> []"
  shows "heap_ok cap (h\<lparr>mem := store_bytes buf file (mem h)\<rparr>)"
    and "heap_regions cap (h\<lparr>mem := store_bytes buf file (mem h)\<rparr>) = heap_regions cap h"
proof -
  let ?sz = "of_nat (length file) :: u32"
  have u: "unat ?sz = length file" using len by (intro unat_of_nat_u32) simp
  then have "?sz \<noteq> 0" using len(2) by (metis unat_0 length_0_conv)
  then have al: "length file \<le> unat (mm_align_size ?sz)" using mm_align_size_ge [of ?sz] u len by simp
  obtain n where n: "n \<ge> unat (mm_align_size ?sz)" "(unat buf, n) \<in> heap_regions cap h"
    using heap_c.alloc_new_region [OF ok mal] by blast
  have "unat buf + n < 4294967296" using heap_c.regions_bound [OF heap_c.alloc_ok [OF ok mal(1)] n(2)] by simp
  then have same: "store_bytes buf file (mem h) x = mem h x"
    if "unat x < unat buf \<or> unat buf + unat (mm_align_size ?sz) \<le> unat x" for x
    using that al n(1) by (auto simp: store_bytes_def in_region_flat)
  show "heap_ok cap (h\<lparr>mem := store_bytes buf file (mem h)\<rparr>)"
    and "heap_regions cap (h\<lparr>mem := store_bytes buf file (mem h)\<rparr>) = heap_regions cap h"
    using heap_c.alloc_write [OF ok mal same] by simp_all
qed

lemma buffer_release:
  assumes "heap_ok cap s" "kmalloc s sz = Some (h, buf)" "buf \<noteq> 0"
    and "heap_ok cap h'" "heap_regions cap h' = heap_regions cap h"
  shows "\<exists>h''. kfree h' buf = Some h'' \<and> heap_ok cap h'' \<and> heap_regions cap h'' = heap_regions cap s"
proof -
  obtain n where n: "heap_regions cap h = insert (unat buf, n) (heap_regions cap s)"
    "\<forall>(q, k) \<in> heap_regions cap s. q + k + 12 \<le> unat buf \<or> unat buf + n + 12 \<le> q"
    using heap_c.alloc_region [OF assms(1-3)] by blast
  then have "(unat buf, n) \<notin> heap_regions cap s" by auto
  then show ?thesis using heap_c.release_returns [OF assms(4), of buf n] n(1) assms(5) by auto
qed

text \<open>C19. The test of \<open>elf_load\<close>'s result is the wrong way round. Once \<open>/init.elf\<close> is in its buffer, an
  image that \<open>elf_load\<close> rejects is announced as loaded, and control goes to the entry field of
  a structure that was never filled. An image that \<open>elf_load\<close> accepts, with segments outside
  the heap, is reported as rejected and never run; its buffer is given back.\<close>

theorem boot_init_inverted:
  fixes k :: "'d kernel"
  assumes live: "uart_live (dev8 (k_io k))" and heap: "heap_ok cap (k_heap k)"
    and at: "init_in_buffer ops file h buf k" and m: "m = store_bytes buf file (mem h)"
    and load: "elf_load buf (of_nat (length file)) res0 m = (r, res, m')"
    and out: "\<forall>x. unat (g_heap h) \<le> unat x \<and> unat x < unat (g_heap h) + cap \<longrightarrow> m' x = m x"
  shows "\<exists>s. let k' = k\<lparr>k_heap := h\<lparr>mem := m'\<rparr>, k_io := s\<rparr> in
    (if r \<noteq> 0
     then boot_init ops call res0 k = call (entry res0) k' \<bind> (\<lambda>k. Some (True, k)) \<and>
       line_out (io_log s) = line_out (io_log (k_io k)) @ lit ''[base] <6> init.elf loaded, jumping to entry'' @ [10]
     else (\<exists>h'. boot_init ops call res0 k = Some (False, k'\<lparr>k_heap := h'\<rparr>) \<and> heap_ok cap h' \<and>
         heap_regions cap h' = heap_regions cap (k_heap k)) \<and>
       line_out (io_log s) = line_out (io_log (k_io k)) @ lit ''[base] <4> elf_load rejected init.elf'' @ [10])"
proof -
  let ?k = "k\<lparr>k_heap := h\<lparr>mem := m'\<rparr>\<rparr>"
  have live': "uart_live (dev8 (k_io ?k))" using live by simp
  note boot = boot_init_at_elf_load [OF at m load]
  show ?thesis
  proof (cases "r = 0")
    case False
    obtain s where "log_and_return True KERN_INFO (lit ''init.elf loaded, jumping to entry/n'') ?k = Some (True, ?k\<lparr>k_io := s\<rparr>)"
      "line_out (io_log s) = line_out (io_log (k_io k)) @ klog_text LOG_BASE KERN_INFO (lit ''init.elf loaded, jumping to entry/n'')"
      using log_and_return_eq [OF live'] by fastforce
    then show ?thesis
      using False boot elf_load_failure [OF load False]
      by (intro exI [of _ s]) (simp add: klog_text_def log_tags lit_def peek_def)
  next
    case True
    have mal: "kmalloc (k_heap k) (of_nat (length file)) = Some (h, buf)" "buf \<noteq> 0" "length file \<le> 1048576" "file \<noteq> []"
      using at by (auto simp: init_in_buffer_def)
    have "heap_ok cap (h\<lparr>mem := m\<rparr>)" "heap_regions cap (h\<lparr>mem := m\<rparr>) = heap_regions cap h"
      using buffer_write [OF heap mal] by (simp_all add: m)
    moreover from this obtain bs where "heap_rel cap (h\<lparr>mem := m\<rparr>) bs" "coalesced bs" by (auto simp: heap_ok_def)
    moreover from this have "heap_rel cap (h\<lparr>mem := m'\<rparr>) bs" using heap_rel_outside [of cap "h\<lparr>mem := m\<rparr>" bs m'] out by simp
    ultimately have ok: "heap_ok cap (h\<lparr>mem := m'\<rparr>)" and reg: "heap_regions cap (h\<lparr>mem := m'\<rparr>) = heap_regions cap h"
      by (auto simp: heap_ok_def heap_regions_eq)
    obtain h' where free: "kfree (h\<lparr>mem := m'\<rparr>) buf = Some h'" "heap_ok cap h'" "heap_regions cap h' = heap_regions cap (k_heap k)"
      using buffer_release [OF heap mal(1,2) ok reg] by blast
    obtain s where "log_and_return False KERN_WARNING (lit ''elf_load rejected init.elf/n'') ?k = Some (False, ?k\<lparr>k_io := s\<rparr>)"
      "line_out (io_log s) = line_out (io_log (k_io k)) @ klog_text LOG_BASE KERN_WARNING (lit ''elf_load rejected init.elf/n'')"
      using log_and_return_eq [OF live'] by fastforce
    then show ?thesis
      using True boot free
      by (intro exI [of _ s]) (simp add: klog_text_def log_tags lit_def peek_def, rule exI [of _ h'], simp)
  qed
qed

text \<open>A kernel that has the given file as \<open>/init.elf\<close> on the in-memory driver.\<close>

definition kernel_with_init :: "cstring \<Rightarrow> (u32 \<Rightarrow> cstring) kernel" where
  "kernel_with_init file =
     \<lparr>k_io = \<lparr>io_log = [], dev8 = (\<lambda>_ _. 0x20), dev16 = (\<lambda>_ _. 0)\<rparr>, k_heap = boot_heap,
      k_vfs = \<lparr>vfs_nodes = (vfs_nodes vfs_boot)[0 := \<lparr>node_name = INIT_PATH, node_size = of_nat (length file), node_flags = VFS_FILE,
        inode_id = 7, priv_data = 0, node_ops = 1\<rparr>], vfs_node_count = 1, vfs_device = (\<lambda>_. file)\<rparr>\<rparr>"

theorem boot_init_inverted_witness:
  "\<exists>k. boot_init ram_ops (\<lambda>a k. if a = 0xDEADBEEF then Some k else None)
     \<lparr>entry = 0xDEADBEEF, load_min = 0, load_max = 0\<rparr> (kernel_with_init (replicate 16 0)) = Some (True, k)"
proof -
  let ?k = "kernel_with_init (replicate 16 0)" and ?res = "\<lparr>entry = 0xDEADBEEF, load_min = 0, load_max = 0\<rparr> :: elf_load_result_t"
  obtain m where k: "kmalloc boot_heap 16 = Some (boot_heap\<lparr>mem := m\<rparr>, 4108)" using boot_kmalloc by blast
  have "vfs_lookup (Some INIT_PATH) (k_vfs ?k) = Some 0"
    by (simp add: vfs_lookup_def kernel_with_init_def vfs_boot_def lookup_loop.simps strcmp_eq_0)
  then have at: "init_in_buffer ram_ops (replicate 16 0) (boot_heap\<lparr>mem := m\<rparr>) 4108 ?k"
    using k stores_ram [of 1] by (auto simp: init_in_buffer_def kernel_with_init_def vfs_boot_def intro!: exI [of _ "\<lambda>d. d"])
  let ?m = "store_bytes 4108 (replicate 16 0) m"
  have load: "elf_load 4108 (of_nat (length (replicate 16 (0 :: u8)))) ?res ?m = (- 1, ?res, ?m)" by (simp add: elf_load_def)
  have live: "uart_live (dev8 (k_io ?k))" by (simp add: kernel_with_init_def uart_live_def)
  have heap: "heap_ok 65536 (k_heap ?k)" by (simp add: kernel_with_init_def boot_heap_ok)
  show ?thesis
    using boot_init_inverted [OF live heap at refl, of ?res "- 1" ?res ?m "\<lambda>a k. if a = 0xDEADBEEF then Some k else None"] load
    by (auto simp: Let_def)
qed

theorem main_idles_witness:
  "\<exists>k'. main ram_ops (\<lambda>_ _. None) \<lparr>entry = 0, load_min = 0, load_max = 0\<rparr>
     ((kernel_with_init [])\<lparr>k_vfs := (k_vfs (kernel_with_init []))\<lparr>vfs_node_count := 0\<rparr>\<rparr>) = Some k'"
proof -
  let ?k = "(kernel_with_init [])\<lparr>k_vfs := (k_vfs (kernel_with_init []))\<lparr>vfs_node_count := 0\<rparr>\<rparr>"
  have "uart_live (dev8 (k_io ?k))" by (simp add: kernel_with_init_def uart_live_def)
  then show ?thesis using main_idles [of ?k ram_ops "\<lambda>_ _. None" "\<lparr>entry = 0, load_min = 0, load_max = 0\<rparr>"] by auto
qed

end
