(* ===== verification/Sched.thy ===== *)
theory Sched
  imports Mm_Heap
begin

text \<open>
  \<open>init/init_sched.c\<close> and \<open>init/include/sched_internal.h\<close>: the cooperative scheduler. The task
  list is the list of the task records with their addresses, newest first, which is the order
  of the \<open>next\<close> chain. Task records and stacks come from the kernel heap, and the first stack
  frame is written to its memory. \<open>context_switch\<close> is assembly: the model records the stack
  pointer it saves and the one it switches to.
\<close>

section \<open>State\<close>

type_synonym task_id_t = u32

abbreviation (input) INVALID_TASK_ID :: task_id_t where "INVALID_TASK_ID \<equiv> - 1"

datatype task_state_t = TASK_READY | TASK_RUNNING | TASK_BLOCKED | TASK_DEAD

record task_info_t =
  info_id :: task_id_t
  info_state :: task_state_t
  info_priority :: u32

record task_t =
  task_id :: task_id_t
  task_state :: task_state_t
  priority :: u32
  task_esp :: u32
  stack_base :: u32
  wake_tick :: u32
  task_entry :: u32

type_synonym tasks = "(u32 \<times> task_t) list"

record sched =
  g_current_task :: u32
  g_task_list :: tasks
  g_next_id :: task_id_t
  g_sched_ticks :: u32
  s_heap :: heap

datatype sched_fault = Null_Pointer

definition TASK_STACK_SIZE :: u32 where "TASK_STACK_SIZE = 8192"
definition sizeof_task_t :: u32 where "sizeof_task_t = 32"

definition task_at :: "u32 \<Rightarrow> tasks \<Rightarrow> task_t option" where
  "task_at a ts = map_of ts a"

definition set_task :: "u32 \<Rightarrow> (task_t \<Rightarrow> task_t) \<Rightarrow> tasks \<Rightarrow> tasks" where
  "set_task a f ts = map (\<lambda>(b, t). if b = a then (b, f t) else (b, t)) ts"

section \<open>Operations\<close>

definition sys_sched_init :: "sched \<Rightarrow> (sched_fault + sched) option" where
  "sys_sched_init s = do {
     (h, boot) \<leftarrow> kmalloc (s_heap s) sizeof_task_t;
     if boot = 0 then Some (Inl Null_Pointer)
     else Some (Inr (s\<lparr>g_task_list := [(boot, \<lparr>task_id = 0, task_state = TASK_RUNNING, priority = 0, task_esp = 0,
       stack_base = 0, wake_tick = 0, task_entry = 0\<rparr>)], g_current_task := boot, g_next_id := 1, s_heap := h\<rparr>))
   }"

text \<open>The frame that \<open>context_switch\<close> pops: four zero registers and the address of the trampoline.\<close>

definition first_frame :: "u32 \<Rightarrow> u32 \<Rightarrow> mem \<Rightarrow> mem" where
  "first_frame trampoline sp m =
     (let m = wr32 m sp 0;
          m = wr32 m (sp + 4) 0;
          m = wr32 m (sp + 8) 0;
          m = wr32 m (sp + 12) 0
      in wr32 m (sp + 16) trampoline)"

definition sys_create_task :: "u32 \<Rightarrow> u32 \<Rightarrow> u32 \<Rightarrow> sched \<Rightarrow> (task_id_t \<times> sched) option" where
  "sys_create_task trampoline entry_point prio s = do {
     (h, t) \<leftarrow> kmalloc (s_heap s) sizeof_task_t;
     if t = 0 then Some (INVALID_TASK_ID, s\<lparr>s_heap := h\<rparr>)
     else do {
       (h, base) \<leftarrow> kmalloc h TASK_STACK_SIZE;
       if base = 0 then do {
         h \<leftarrow> kfree h t;
         Some (INVALID_TASK_ID, s\<lparr>s_heap := h\<rparr>)
       } else do {
         let sp = base + TASK_STACK_SIZE - 20;
         let h = h\<lparr>mem := first_frame trampoline sp (mem h)\<rparr>;
         let new = \<lparr>task_id = g_next_id s, task_state = TASK_READY, priority = prio, task_esp = sp,
           stack_base = base, wake_tick = 0, task_entry = entry_point\<rparr>;
         Some (g_next_id s, s\<lparr>g_next_id := g_next_id s + 1, g_task_list := (t, new) # g_task_list s, s_heap := h\<rparr>)
       }
     }
   }"

fun find_task :: "task_id_t \<Rightarrow> tasks \<Rightarrow> task_t option" where
  "find_task tid [] = None"
| "find_task tid ((a, t) # ts) = (if task_id t = tid then Some t else find_task tid ts)"

definition sys_query_task :: "task_id_t \<Rightarrow> task_info_t option \<Rightarrow> sched \<Rightarrow> int \<times> task_info_t option" where
  "sys_query_task tid info s = (case find_task tid (g_task_list s) of
     None \<Rightarrow> (- 1, info)
   | Some t \<Rightarrow> if info = None then (- 1, info)
       else (0, Some \<lparr>info_id = task_id t, info_state = task_state t, info_priority = priority t\<rparr>))"

definition sys_get_current_task_id :: "sched \<Rightarrow> task_id_t" where
  "sys_get_current_task_id s = (case task_at (g_current_task s) (g_task_list s) of
     None \<Rightarrow> INVALID_TASK_ID | Some t \<Rightarrow> task_id t)"

definition wake :: "u32 \<Rightarrow> task_t \<Rightarrow> task_t" where
  "wake ticks t = (if task_state t = TASK_BLOCKED \<and> wake_tick t \<le> ticks then t\<lparr>task_state := TASK_READY\<rparr> else t)"

text \<open>The loop of \<open>pick_next\<close>: the tasks as it leaves them and the best candidate.\<close>

fun pick_loop :: "u32 \<Rightarrow> u32 \<Rightarrow> tasks \<Rightarrow> (u32 \<times> task_t) option \<Rightarrow> tasks \<times> (u32 \<times> task_t) option" where
  "pick_loop ticks current [] best = ([], best)"
| "pick_loop ticks current ((a, t) # ts) best =
     (let t = wake ticks t;
          best = (if task_state t \<noteq> TASK_READY \<and> a \<noteq> current then best
                  else if a = current then best
                  else if task_state t = TASK_READY then
                    (case best of None \<Rightarrow> Some (a, t)
                     | Some (b, u) \<Rightarrow> if priority u < priority t then Some (a, t) else best)
                  else best);
          (ts, best) = pick_loop ticks current ts best
      in ((a, t) # ts, best))"

definition pick_next :: "sched \<Rightarrow> u32 \<times> sched" where
  "pick_next s =
     (let (ts, best) = pick_loop (g_sched_ticks s) (g_current_task s) (g_task_list s) None
      in (case best of None \<Rightarrow> g_current_task s | Some (a, t) \<Rightarrow> a, s\<lparr>g_task_list := ts\<rparr>))"

text \<open>\<open>sys_yield\<close> with the stack pointer of the caller. The result has the stack pointer that
  \<open>context_switch\<close> loads, or \<open>None\<close> when the caller keeps running.\<close>

definition sys_yield :: "u32 \<Rightarrow> sched \<Rightarrow> sched_fault + u32 option \<times> sched" where
  "sys_yield esp s =
     (let s = s\<lparr>g_sched_ticks := g_sched_ticks s + 1\<rparr>;
          prev = g_current_task s;
          (next, s) = pick_next s
      in if next = prev then Inr (None, s)
         else if prev = 0 then Inl Null_Pointer
         else
           let ts = set_task prev (\<lambda>t. if task_state t = TASK_RUNNING then t\<lparr>task_state := TASK_READY\<rparr> else t) (g_task_list s);
               ts = set_task next (\<lambda>t. t\<lparr>task_state := TASK_RUNNING\<rparr>) ts;
               ts = set_task prev (\<lambda>t. t\<lparr>task_esp := esp\<rparr>) ts
           in Inr (map_option task_esp (task_at next ts), s\<lparr>g_task_list := ts, g_current_task := next\<rparr>))"

definition sys_sleep :: "u32 \<Rightarrow> u32 \<Rightarrow> sched \<Rightarrow> sched_fault + u32 option \<times> sched" where
  "sys_sleep esp ms s =
     (if g_current_task s = 0 then Inl Null_Pointer
      else sys_yield esp (s\<lparr>g_task_list := set_task (g_current_task s)
        (\<lambda>t. t\<lparr>wake_tick := g_sched_ticks s + ms, task_state := TASK_BLOCKED\<rparr>) (g_task_list s)\<rparr>))"

text \<open>\<open>sys_task_exit\<close> up to the point where control leaves the task; when \<open>sys_yield\<close> returns
  (\<open>None\<close>), the caller spins forever.\<close>

definition sys_task_exit :: "u32 \<Rightarrow> sched \<Rightarrow> sched_fault + u32 option \<times> sched" where
  "sys_task_exit esp s =
     (if g_current_task s = 0 then Inl Null_Pointer
      else sys_yield esp (s\<lparr>g_task_list := set_task (g_current_task s) (\<lambda>t. t\<lparr>task_state := TASK_DEAD\<rparr>) (g_task_list s)\<rparr>))"

section \<open>What \<open>pick_next\<close> chooses\<close>

definition wake_all :: "u32 \<Rightarrow> tasks \<Rightarrow> tasks" where
  "wake_all ticks ts = map (\<lambda>(a, t). (a, wake ticks t)) ts"

definition candidates :: "u32 \<Rightarrow> tasks \<Rightarrow> tasks" where
  "candidates current ts = filter (\<lambda>(a, t). a \<noteq> current \<and> task_state t = TASK_READY) ts"

definition better :: "u32 \<times> task_t \<Rightarrow> (u32 \<times> task_t) option \<Rightarrow> (u32 \<times> task_t) option" where
  "better x best = (case best of None \<Rightarrow> Some x
     | Some y \<Rightarrow> if priority (snd y) < priority (snd x) then Some x else best)"

text \<open>The first of the candidates with the highest priority.\<close>

definition first_best :: "u32 \<times> task_t \<Rightarrow> tasks \<Rightarrow> bool" where
  "first_best x cs \<longleftrightarrow> (\<exists>xs ys. cs = xs @ x # ys \<and> (\<forall>y \<in> set xs. priority (snd y) < priority (snd x)) \<and>
     (\<forall>y \<in> set ys. priority (snd y) \<le> priority (snd x)))"

lemma pick_loop_eq:
  "pick_loop ticks current ts best =
     (wake_all ticks ts, fold better (candidates current (wake_all ticks ts)) best)"
  by (induction ticks current ts best rule: pick_loop.induct)
    (auto simp: wake_all_def candidates_def better_def Let_def split: option.splits prod.splits)

lemma fold_better:
  "fold better cs (Some x) = Some y \<Longrightarrow> first_best y (x # cs)"
proof (induction cs arbitrary: x)
  case Nil
  then show ?case unfolding first_best_def by (intro exI [of _ "[]"]) auto
next
  case (Cons c cs)
  show ?case
  proof (cases "priority (snd x) < priority (snd c)")
    case True
    then have "first_best y (c # cs)" using Cons by (simp add: better_def)
    then obtain xs ys where *: "c # cs = xs @ y # ys" "\<forall>z \<in> set xs. priority (snd z) < priority (snd y)"
      "\<forall>z \<in> set ys. priority (snd z) \<le> priority (snd y)" by (auto simp: first_best_def)
    then have "priority (snd x) < priority (snd y)" using True by (cases xs) (auto intro: less_trans)
    then show ?thesis using * unfolding first_best_def by (intro exI [of _ "x # xs"] exI [of _ ys]) auto
  next
    case False
    then have "first_best y (x # cs)" using Cons by (simp add: better_def)
    then obtain xs ys where *: "x # cs = xs @ y # ys" "\<forall>z \<in> set xs. priority (snd z) < priority (snd y)"
      "\<forall>z \<in> set ys. priority (snd z) \<le> priority (snd y)" by (auto simp: first_best_def)
    show ?thesis
    proof (cases xs)
      case Nil
      then show ?thesis using * False unfolding first_best_def by (intro exI [of _ "[]"] exI [of _ "c # ys"]) auto
    next
      case (Cons z zs)
      then have "priority (snd c) < priority (snd y)" using * False by (auto intro: le_less_trans)
      then show ?thesis using * Cons unfolding first_best_def by (intro exI [of _ "x # c # zs"] exI [of _ ys]) auto
    qed
  qed
qed

lemma fold_better_Some: "\<exists>y. fold better cs (Some x) = Some y"
  by (induction cs arbitrary: x) (auto simp: better_def)

lemma pick_best:
  "case fold better cs None of None \<Rightarrow> cs = [] | Some x \<Rightarrow> first_best x cs"
proof (cases cs)
  case (Cons c cs')
  then show ?thesis using fold_better [of cs' c] fold_better_Some [of cs' c] by (auto simp: better_def)
qed simp

lemma first_best_in: "first_best x cs \<Longrightarrow> x \<in> set cs"
  by (auto simp: first_best_def)

section \<open>The task list under updates\<close>

lemma set_task_fst [simp]: "map fst (set_task a f ts) = map fst ts"
  by (induction ts) (auto simp: set_task_def)

lemma wake_all_fst [simp]: "map fst (wake_all ticks ts) = map fst ts"
  by (induction ts) (auto simp: wake_all_def)

lemma set_task_field: "(\<And>t. g (f t) = g t) \<Longrightarrow> map (g \<circ> snd) (set_task a f ts) = map (g \<circ> snd) ts"
  by (induction ts) (auto simp: set_task_def)

lemma wake_fields [simp]:
  "task_id (wake ticks t) = task_id t" "stack_base (wake ticks t) = stack_base t" "priority (wake ticks t) = priority t"
  "task_esp (wake ticks t) = task_esp t" "task_state (wake ticks t) = TASK_RUNNING \<longleftrightarrow> task_state t = TASK_RUNNING"
  by (simp_all add: wake_def)

lemma wake_all_field: "(\<And>t. g (wake ticks t) = g t) \<Longrightarrow> map (g \<circ> snd) (wake_all ticks ts) = map (g \<circ> snd) ts"
  by (induction ts) (auto simp: wake_all_def)

lemma in_set_task: "(b, t) \<in> set (set_task a f ts) \<longleftrightarrow> (\<exists>u. (b, u) \<in> set ts \<and> t = (if b = a then f u else u))"
  by (induction ts) (auto simp: set_task_def split: if_splits)

lemma in_wake_all: "(b, t) \<in> set (wake_all ticks ts) \<longleftrightarrow> (\<exists>u. (b, u) \<in> set ts \<and> t = wake ticks u)"
  by (induction ts) (auto simp: wake_all_def)

lemma task_at_iff: "distinct (map fst ts) \<Longrightarrow> task_at a ts = Some t \<longleftrightarrow> (a, t) \<in> set ts"
  by (simp add: task_at_def)

section \<open>Invariant\<close>

text \<open>Everything the scheduler owns on the heap: the task records and the stacks.\<close>

definition stacks :: "tasks \<Rightarrow> u32 list" where
  "stacks ts = filter (\<lambda>b. b \<noteq> 0) (map (stack_base \<circ> snd) ts)"

definition tasks_owned :: "nat \<Rightarrow> heap \<Rightarrow> tasks \<Rightarrow> bool" where
  "tasks_owned cap h ts \<longleftrightarrow> distinct (map fst ts @ stacks ts) \<and>
     (\<forall>p \<in> set (map fst ts). p \<noteq> 0 \<and> owns cap h 32 p) \<and> (\<forall>p \<in> set (stacks ts). owns cap h 8192 p)"

definition sched_ok :: "nat \<Rightarrow> sched \<Rightarrow> bool" where
  "sched_ok cap s \<longleftrightarrow> heap_ok cap (s_heap s) \<and> tasks_owned cap (s_heap s) (g_task_list s) \<and>
     g_current_task s \<in> set (map fst (g_task_list s)) \<and>
     (\<forall>(a, t) \<in> set (g_task_list s). task_state t = TASK_RUNNING \<longrightarrow> a = g_current_task s) \<and>
     map (task_id \<circ> snd) (g_task_list s) = map of_nat (rev [0..<length (g_task_list s)]) \<and>
     g_next_id s = of_nat (length (g_task_list s))"

text \<open>The parts of the invariant that do not depend on the states of the tasks.\<close>

lemma sched_ok_update:
  assumes "sched_ok cap s" and "map fst ts = map fst (g_task_list s)"
    and "map (stack_base \<circ> snd) ts = map (stack_base \<circ> snd) (g_task_list s)"
    and "map (task_id \<circ> snd) ts = map (task_id \<circ> snd) (g_task_list s)"
    and "c \<in> set (map fst ts)" and "\<forall>(a, t) \<in> set ts. task_state t = TASK_RUNNING \<longrightarrow> a = c"
  shows "sched_ok cap (s\<lparr>g_task_list := ts, g_current_task := c, g_sched_ticks := k\<rparr>)"
proof -
  have "length ts = length (g_task_list s)" using assms(2) by (metis length_map)
  then show ?thesis using assms unfolding sched_ok_def tasks_owned_def stacks_def by simp
qed

text \<open>\<open>sys_yield\<close> never faults in such a state, and here is what it does.\<close>

definition switch_tasks :: "u32 \<Rightarrow> u32 \<Rightarrow> u32 \<Rightarrow> tasks \<Rightarrow> tasks" where
  "switch_tasks esp prev a ts =
     set_task prev (\<lambda>t. t\<lparr>task_esp := esp\<rparr>) (set_task a (\<lambda>t. t\<lparr>task_state := TASK_RUNNING\<rparr>)
       (set_task prev (\<lambda>t. if task_state t = TASK_RUNNING then t\<lparr>task_state := TASK_READY\<rparr> else t) ts))"

lemma switch_tasks_fields:
  "map fst (switch_tasks esp prev a ts) = map fst ts"
  "map (stack_base \<circ> snd) (switch_tasks esp prev a ts) = map (stack_base \<circ> snd) ts"
  "map (task_id \<circ> snd) (switch_tasks esp prev a ts) = map (task_id \<circ> snd) ts"
  by (simp_all add: switch_tasks_def set_task_field)

definition pause :: "u32 \<Rightarrow> task_t \<Rightarrow> task_t" where
  "pause esp t = (if task_state t = TASK_RUNNING then t\<lparr>task_state := TASK_READY\<rparr> else t)\<lparr>task_esp := esp\<rparr>"

lemma switch_tasks_eq:
  "a \<noteq> prev \<Longrightarrow> switch_tasks esp prev a ts = set_task a (\<lambda>t. t\<lparr>task_state := TASK_RUNNING\<rparr>) (set_task prev (pause esp) ts)"
  by (induction ts) (auto simp: switch_tasks_def set_task_def pause_def)

lemma in_switch_tasks:
  assumes "a \<noteq> prev"
  shows "(b, t) \<in> set (switch_tasks esp prev a ts) \<longleftrightarrow> (\<exists>u. (b, u) \<in> set ts \<and> t =
    (if b = a then u\<lparr>task_state := TASK_RUNNING\<rparr>
     else if b = prev then pause esp u
     else u))"
  using assms by (cases "b = a"; cases "b = prev") (simp_all add: switch_tasks_eq in_set_task)

lemma sys_yield_eq:
  assumes ok: "sched_ok cap s"
  shows "let ts = wake_all (g_sched_ticks s + 1) (g_task_list s); cs = candidates (g_current_task s) ts;
      s' = s\<lparr>g_sched_ticks := g_sched_ticks s + 1, g_task_list := ts\<rparr> in
    if cs = [] then sys_yield esp s = Inr (None, s')
    else \<exists>a t. first_best (a, t) cs \<and> a \<noteq> g_current_task s \<and> (a, t) \<in> set ts \<and>
      sys_yield esp s = Inr (Some (task_esp t),
        s'\<lparr>g_task_list := switch_tasks esp (g_current_task s) a ts, g_current_task := a\<rparr>)"
proof -
  let ?ts = "wake_all (g_sched_ticks s + 1) (g_task_list s)" and ?c = "g_current_task s"
  let ?cs = "candidates ?c ?ts"
  have d: "distinct (map fst (g_task_list s))" "?c \<noteq> 0" using ok by (auto simp: sched_ok_def tasks_owned_def)
  show ?thesis
  proof (cases "fold better ?cs None")
    case None
    then have "?cs = []" using pick_best [of ?cs] by simp
    then show ?thesis by (simp add: sys_yield_def pick_next_def pick_loop_eq Let_def)
  next
    case (Some x)
    obtain a t where x: "x = (a, t)" by (cases x)
    have fb: "first_best (a, t) ?cs" using pick_best [of ?cs] Some x by simp
    then have a: "a \<noteq> ?c" "(a, t) \<in> set ?ts" using first_best_in [OF fb] by (auto simp: candidates_def)
    let ?ts' = "switch_tasks esp ?c a ?ts"
    have "(a, t\<lparr>task_state := TASK_RUNNING\<rparr>) \<in> set ?ts'" using a by (auto simp: in_switch_tasks)
    then have "task_at a ?ts' = Some (t\<lparr>task_state := TASK_RUNNING\<rparr>)"
      using d(1) by (simp add: task_at_iff switch_tasks_fields)
    then have "sys_yield esp s = Inr (Some (task_esp t), s\<lparr>g_sched_ticks := g_sched_ticks s + 1, g_task_list := ?ts', g_current_task := a\<rparr>)"
      using Some x a d(2) by (simp add: sys_yield_def pick_next_def pick_loop_eq Let_def switch_tasks_def)
    then show ?thesis using fb a first_best_in [OF fb] by (auto simp: Let_def)
  qed
qed

section \<open>Every operation keeps the invariant\<close>

lemma running_is_current:
  "sched_ok cap s \<Longrightarrow> (a, t) \<in> set (g_task_list s) \<Longrightarrow> task_state t = TASK_RUNNING \<Longrightarrow> a = g_current_task s"
  unfolding sched_ok_def by blast

lemma yield_ok:
  assumes ok: "sched_ok cap s" and y: "sys_yield esp s = Inr (r, s')"
  shows "sched_ok cap s'"
proof -
  let ?ts = "wake_all (g_sched_ticks s + 1) (g_task_list s)" and ?c = "g_current_task s"
  have run: "\<forall>(a, t) \<in> set ?ts. task_state t = TASK_RUNNING \<longrightarrow> a = ?c"
    using running_is_current [OF ok] by (auto simp: in_wake_all)
  have c: "?c \<in> set (map fst ?ts)" using ok by (simp add: sched_ok_def)
  note w = wake_all_fst wake_all_field [where g = stack_base] wake_all_field [where g = task_id]
  show ?thesis
  proof (cases "candidates ?c ?ts = []")
    case True
    then have s': "s' = s\<lparr>g_task_list := ?ts, g_current_task := ?c, g_sched_ticks := g_sched_ticks s + 1\<rparr>"
      using sys_yield_eq [OF ok, of esp] y by (simp add: Let_def)
    show ?thesis unfolding s' by (rule sched_ok_update [OF ok]) (use c run in \<open>simp_all add: w\<close>)
  next
    case False
    then obtain a t where a: "a \<noteq> ?c" "(a, t) \<in> set ?ts"
      and s': "s' = s\<lparr>g_task_list := switch_tasks esp ?c a ?ts, g_current_task := a, g_sched_ticks := g_sched_ticks s + 1\<rparr>"
      using sys_yield_eq [OF ok, of esp] y by (auto simp: Let_def)
    have "a \<in> set (map fst (switch_tasks esp ?c a ?ts))" using a(2) by (metis switch_tasks_fields(1) list.set_map fst_conv image_eqI)
    moreover have "\<forall>(b, t) \<in> set (switch_tasks esp ?c a ?ts). task_state t = TASK_RUNNING \<longrightarrow> b = a"
      using run a(1) by (auto simp: in_switch_tasks pause_def split: if_splits)
    ultimately show ?thesis
      unfolding s' by (intro sched_ok_update [OF ok]) (simp_all add: switch_tasks_fields w)
  qed
qed

lemma current_update_ok:
  assumes ok: "sched_ok cap s" and f: "\<And>t. task_id (f t) = task_id t" "\<And>t. stack_base (f t) = stack_base t"
  shows "sched_ok cap (s\<lparr>g_task_list := set_task (g_current_task s) f (g_task_list s)\<rparr>)"
proof -
  have "\<forall>(a, t) \<in> set (set_task (g_current_task s) f (g_task_list s)). task_state t = TASK_RUNNING \<longrightarrow> a = g_current_task s"
    using running_is_current [OF ok] by (auto simp: in_set_task split: if_splits)
  moreover have "g_current_task s \<in> set (map fst (g_task_list s))" using ok by (simp add: sched_ok_def)
  ultimately show ?thesis
    using sched_ok_update [OF ok, of "set_task (g_current_task s) f (g_task_list s)" "g_current_task s" "g_sched_ticks s"] f
    by (simp add: set_task_field)
qed

lemma sleep_ok: "sched_ok cap s \<Longrightarrow> sys_sleep esp ms s = Inr (r, s') \<Longrightarrow> sched_ok cap s'"
  by (auto simp: sys_sleep_def split: if_splits elim!: yield_ok [rotated] intro: current_update_ok)

lemma exit_ok: "sched_ok cap s \<Longrightarrow> sys_task_exit esp s = Inr (r, s') \<Longrightarrow> sched_ok cap s'"
  by (auto simp: sys_task_exit_def split: if_splits elim!: yield_ok [rotated] intro: current_update_ok)

lemma no_fault:
  assumes "sched_ok cap s"
  shows "\<exists>r. sys_yield esp s = Inr r" and "\<exists>r. sys_sleep esp ms s = Inr r" and "\<exists>r. sys_task_exit esp s = Inr r"
proof -
  have y: "\<exists>r. sys_yield esp s = Inr r" if "sched_ok cap s" for s
    using sys_yield_eq [OF that, of esp] by (auto simp: Let_def split: if_splits)
  have c: "g_current_task s \<noteq> 0" using assms by (auto simp: sched_ok_def tasks_owned_def)
  show "\<exists>r. sys_yield esp s = Inr r" by (rule y [OF assms])
  have z: "\<exists>r. sys_yield esp (s\<lparr>g_task_list := set_task (g_current_task s) f (g_task_list s)\<rparr>) = Inr r"
    if "\<And>t. task_id (f t) = task_id t" "\<And>t. stack_base (f t) = stack_base t" for f
    by (rule y [OF current_update_ok [OF assms that]])
  show "\<exists>r. sys_sleep esp ms s = Inr r" unfolding sys_sleep_def if_not_P [OF c] by (rule z) simp_all
  show "\<exists>r. sys_task_exit esp s = Inr r" unfolding sys_task_exit_def if_not_P [OF c] by (rule z) simp_all
qed

lemma first_frame_outside:
  assumes "unat sp + 20 \<le> 4294967296" "unat x < unat sp \<or> unat sp + 20 \<le> unat x"
  shows "first_frame trampoline sp m x = m x"
proof -
  have u: "unat (sp + of_nat k) = unat sp + k" if "k < 20" for k
    using assms(1) that by (subst unat_add_nowrap) (simp_all add: unat_of_nat_u32)
  have "\<not> in_region (sp + of_nat k) 4 x" if "k + 4 \<le> 20" for k
    using assms u [of k] that by (subst in_region_flat) auto
  from this [of 0] this [of 4] this [of 8] this [of 12] this [of 16]
  show ?thesis by (simp add: first_frame_def wr32_outside)
qed

lemma frame_write:
  assumes ok: "heap_ok cap h" and own: "owns cap h 8192 base"
  shows "heap_ok cap (h\<lparr>mem := first_frame tr (base + TASK_STACK_SIZE - 20) (mem h)\<rparr>)"
    and "heap_regions cap (h\<lparr>mem := first_frame tr (base + TASK_STACK_SIZE - 20) (mem h)\<rparr>) = heap_regions cap h"
proof -
  obtain n where n: "8192 \<le> n" "(unat base, n) \<in> heap_regions cap h" using own by (auto simp: owns_def)
  have bd: "unat base + n < 4294967296" using heap_c.regions_bound [OF ok n(2)] by simp
  have sp: "base + TASK_STACK_SIZE - 20 = base + 8172" by (simp add: TASK_STACK_SIZE_def)
  have "unat (base + 8172) = unat base + 8172" using bd n(1) by (subst unat_add_nowrap) auto
  then have "first_frame tr (base + 8172) (mem h) x = mem h x" if "unat x < unat base \<or> unat base + n \<le> unat x" for x
    using that n(1) bd by (intro first_frame_outside) auto
  then show "heap_ok cap (h\<lparr>mem := first_frame tr (base + TASK_STACK_SIZE - 20) (mem h)\<rparr>)"
    "heap_regions cap (h\<lparr>mem := first_frame tr (base + TASK_STACK_SIZE - 20) (mem h)\<rparr>) = heap_regions cap h"
    using heap_c.write_region [OF ok n(2)] unfolding sp by blast+
qed

lemma sched_ok_heap:
  assumes "sched_ok cap s" "heap_ok cap h" "heap_regions cap (s_heap s) \<subseteq> heap_regions cap h"
  shows "sched_ok cap (s\<lparr>s_heap := h\<rparr>)"
  using assms owns_mono [OF assms(3)] by (auto simp: sched_ok_def tasks_owned_def)

lemma stacks_Cons: "stacks ((a, t) # ts) = (if stack_base t = 0 then stacks ts else stack_base t # stacks ts)"
  by (simp add: stacks_def)

lemma tasks_owned_Cons:
  assumes own: "tasks_owned cap h ts" and old: "\<And>n p. owns cap h n p \<Longrightarrow> owns cap h' n p \<and> p \<noteq> a \<and> p \<noteq> stack_base t"
    and new: "a \<noteq> 0" "owns cap h' 32 a" "stack_base t \<noteq> 0" "owns cap h' 8192 (stack_base t)" "stack_base t \<noteq> a"
  shows "tasks_owned cap h' ((a, t) # ts)"
proof -
  have "p \<noteq> 0 \<and> owns cap h' 32 p \<and> p \<noteq> a \<and> p \<noteq> stack_base t" if "p \<in> set (map fst ts)" for p
    using own old that unfolding tasks_owned_def by blast
  moreover have "owns cap h' 8192 p \<and> p \<noteq> a \<and> p \<noteq> stack_base t" if "p \<in> set (stacks ts)" for p
    using own old that unfolding tasks_owned_def by blast
  ultimately show ?thesis using own new unfolding tasks_owned_def stacks_Cons by auto
qed

lemma create_ok:
  assumes ok: "sched_ok cap s" and call: "sys_create_task tr e prio s = Some (r, s')"
  shows "sched_ok cap s'"
proof -
  have hok: "heap_ok cap (s_heap s)" using ok by (simp add: sched_ok_def)
  obtain h1 t where k1: "kmalloc (s_heap s) sizeof_task_t = Some (h1, t)"
    using heap_c.alloc_returns [OF hok] by blast
  show ?thesis
  proof (cases "t = 0")
    case True
    then have "h1 = s_heap s" using k1 heap_c.alloc_null [OF hok] by blast
    then show ?thesis using call ok k1 True by (simp add: sys_create_task_def)
  next
    case t: False
    note f1 = alloc_fresh [OF hok k1 t, unfolded sizeof_task_t_def, simplified]
    obtain h2 base where k2: "kmalloc h1 TASK_STACK_SIZE = Some (h2, base)"
      using heap_c.alloc_returns [OF f1(1)] by blast
    show ?thesis
    proof (cases "base = 0")
      case True
      then have "h2 = h1" using k2 heap_c.alloc_null [OF f1(1)] by blast
      then obtain h3 where "kfree h2 t = Some h3" "heap_ok cap h3" "heap_regions cap h3 = heap_regions cap (s_heap s)"
        using heap_c.alloc_release [OF hok k1 t] by blast
      then show ?thesis using call k1 k2 t True sched_ok_heap [OF ok] by (auto simp: sys_create_task_def)
    next
      case b: False
      note f2 = alloc_fresh [OF f1(1) k2 b, unfolded TASK_STACK_SIZE_def, simplified]
      let ?h = "h2\<lparr>mem := first_frame tr (base + TASK_STACK_SIZE - 20) (mem h2)\<rparr>"
      have h: "heap_ok cap ?h" "heap_regions cap ?h = heap_regions cap h2" using frame_write [OF f2(1,3)] by simp_all
      have sub: "heap_regions cap (s_heap s) \<subseteq> heap_regions cap ?h" using f1(2) f2(2) h(2) by blast
      have new: "owns cap ?h 32 t" "owns cap ?h 8192 base"
        using owns_mono [OF _ f1(3), of h2] owns_mono [OF _ f2(3), of ?h] f2(2) h(2) by (auto simp: owns_def)
      have old: "owns cap ?h n p" "p \<noteq> t" "p \<noteq> base" if "owns cap (s_heap s) n p" for n p
        using that owns_mono [OF sub] owns_mono [OF f1(2)] f1(4) f2(4) by blast+
      have "base \<noteq> t" using f1(3) f2(4) by blast
      let ?new = "\<lparr>task_id = g_next_id s, task_state = TASK_READY, priority = prio, task_esp = base + TASK_STACK_SIZE - 20,
        stack_base = base, wake_tick = 0, task_entry = e\<rparr>"
      have s': "s' = s\<lparr>g_next_id := g_next_id s + 1, g_task_list := (t, ?new) # g_task_list s, s_heap := ?h\<rparr>"
        using call k1 k2 t b by (auto simp: sys_create_task_def Let_def)
      have "tasks_owned cap ?h ((t, ?new) # g_task_list s)"
        using ok old new \<open>base \<noteq> t\<close> t b by (intro tasks_owned_Cons [of cap "s_heap s"]) (simp_all add: sched_ok_def)
      then show ?thesis using ok h(1) unfolding s' sched_ok_def by simp
    qed
  qed
qed

section \<open>Reachable states\<close>

definition sched_boot :: "nat \<Rightarrow> sched \<Rightarrow> bool" where
  "sched_boot cap s \<longleftrightarrow> (\<exists>s0. heap_ok cap (s_heap s0) \<and> sys_sched_init s0 = Some (Inr s))"

text \<open>The system calls of the running task, and its stores into its own stack.\<close>

inductive sched_step :: "nat \<Rightarrow> u32 \<Rightarrow> sched \<Rightarrow> sched \<Rightarrow> bool" for cap tr where
  step_create: "sys_create_task tr e prio s = Some (r, s') \<Longrightarrow> sched_step cap tr s s'"
| step_yield: "sys_yield esp s = Inr (r, s') \<Longrightarrow> sched_step cap tr s s'"
| step_sleep: "sys_sleep esp ms s = Inr (r, s') \<Longrightarrow> sched_step cap tr s s'"
| step_exit: "sys_task_exit esp s = Inr (r, s') \<Longrightarrow> sched_step cap tr s s'"
| step_run: "(unat b, n) \<in> heap_regions cap (s_heap s) \<Longrightarrow> b \<in> set (stacks (g_task_list s)) \<Longrightarrow>
    (\<And>x. unat x < unat b \<or> unat b + n \<le> unat x \<Longrightarrow> m' x = mem (s_heap s) x) \<Longrightarrow>
    sched_step cap tr s (s\<lparr>s_heap := (s_heap s)\<lparr>mem := m'\<rparr>\<rparr>)"

inductive_cases sched_stepE: "sched_step cap tr s s'"

lemma boot_ok:
  assumes "sched_boot cap s"
  shows "sched_ok cap s"
proof -
  obtain s0 h p where h: "heap_ok cap (s_heap s0)" "kmalloc (s_heap s0) sizeof_task_t = Some (h, p)" "p \<noteq> 0"
    and s: "s = s0\<lparr>g_task_list := [(p, \<lparr>task_id = 0, task_state = TASK_RUNNING, priority = 0, task_esp = 0,
       stack_base = 0, wake_tick = 0, task_entry = 0\<rparr>)], g_current_task := p, g_next_id := 1, s_heap := h\<rparr>"
    using assms by (auto simp: sched_boot_def sys_sched_init_def bind_eq_Some_conv split: if_splits)
  show ?thesis
    using alloc_fresh [OF h, unfolded sizeof_task_t_def, simplified] h(3)
    by (simp add: s sched_ok_def tasks_owned_def stacks_def)
qed

lemma sched_step_ok:
  assumes ok: "sched_ok cap s" and step: "sched_step cap tr s s'"
  shows "sched_ok cap s'"
  using step
proof cases
  case (step_run b n m')
  have h: "heap_ok cap (s_heap s)" using ok by (simp add: sched_ok_def)
  have "heap_ok cap ((s_heap s)\<lparr>mem := m'\<rparr>) \<and> heap_regions cap ((s_heap s)\<lparr>mem := m'\<rparr>) = heap_regions cap (s_heap s)"
    by (rule heap_c.write_region [OF h step_run(2)]) (rule step_run(4))
  then show ?thesis using step_run(1) sched_ok_heap [OF ok] by auto
qed (use ok in \<open>auto intro: create_ok yield_ok sleep_ok exit_ok\<close>)

interpretation sched_sys: invariant "sched_boot cap" "sched_step cap tr" "sched_ok cap"
  by unfold_locales (auto intro: boot_ok sched_step_ok)

text \<open>A scheduler that was just started on the boot heap.\<close>

lemma sched_boot_exists:
  obtains s where "sched_boot 65536 s" "length (g_task_list s) = 1"
proof -
  obtain h p where k: "kmalloc boot_heap sizeof_task_t = Some (h, p)"
    using heap_c.alloc_returns [OF boot_heap_ok] by blast
  then have "p \<noteq> 0" using kmalloc_null_iff [OF boot_heap_rel k] by (simp add: sizeof_task_t_def mm_align_size_def)
  then have "sched_boot 65536 (the (map_option projr (sys_sched_init \<lparr>g_current_task = 0, g_task_list = [], g_next_id = 0,
      g_sched_ticks = 0, s_heap = boot_heap\<rparr>)))"
    using k boot_heap_ok unfolding sched_boot_def
    by (intro exI [of _ "\<lparr>g_current_task = 0, g_task_list = [], g_next_id = 0, g_sched_ticks = 0, s_heap = boot_heap\<rparr>"])
      (simp add: sys_sched_init_def)
  then show thesis using that k \<open>p \<noteq> 0\<close> by (simp add: sys_sched_init_def)
qed

section \<open>Properties of the scheduler\<close>



text \<open>C21. \<open>sys_yield\<close> first makes every blocked task ready whose wake tick has come. If another task is
  then ready, it switches to the one with the highest priority, the most recently created one
  among equals: that task becomes RUNNING and its stack pointer is loaded, the caller becomes
  READY if it was RUNNING and keeps its stack pointer, and every other task is untouched. With
  no other ready task the caller goes on.\<close>

theorem sys_yield_highest:
  assumes "reach (sched_boot cap) (sched_step cap tr) s"
  shows "let ts = wake_all (g_sched_ticks s + 1) (g_task_list s); cs = candidates (g_current_task s) ts in
    if cs = [] then sys_yield esp s = Inr (None, s\<lparr>g_sched_ticks := g_sched_ticks s + 1, g_task_list := ts\<rparr>)
    else \<exists>a t s'. first_best (a, t) cs \<and> sys_yield esp s = Inr (Some (task_esp t), s') \<and> g_current_task s' = a \<and>
      map fst (g_task_list s') = map fst ts \<and>
      (\<forall>b u. (b, u) \<in> set (g_task_list s') \<longleftrightarrow> (\<exists>v. (b, v) \<in> set ts \<and> u =
         (if b = a then v\<lparr>task_state := TASK_RUNNING\<rparr> else if b = g_current_task s then pause esp v else v)))"
proof -
  let ?ts = "wake_all (g_sched_ticks s + 1) (g_task_list s)"
  have ok: "sched_ok cap s" using assms by (rule sched_sys.reach_inv)
  show ?thesis
  proof (cases "candidates (g_current_task s) ?ts = []")
    case True
    then show ?thesis using sys_yield_eq [OF ok, of esp] by (simp add: Let_def)
  next
    case False
    then obtain a t where a: "first_best (a, t) (candidates (g_current_task s) ?ts)" "a \<noteq> g_current_task s"
      "sys_yield esp s = Inr (Some (task_esp t), s\<lparr>g_sched_ticks := g_sched_ticks s + 1,
         g_task_list := switch_tasks esp (g_current_task s) a ?ts, g_current_task := a\<rparr>)"
      using sys_yield_eq [OF ok, of esp] by (auto simp: Let_def)
    then show ?thesis
      using False by (simp add: Let_def in_switch_tasks switch_tasks_fields) blast
  qed
qed

text \<open>The two oldest-listed tasks of the highest priority that alternate.\<close>

definition pair_alternates :: "nat \<Rightarrow> u32 \<Rightarrow> u32 \<Rightarrow> u32 \<Rightarrow> sched \<Rightarrow> bool" where
  "pair_alternates cap a b prio s \<longleftrightarrow> sched_ok cap s \<and> (\<exists>t u rest. g_task_list s = (a, t) # (b, u) # rest \<and>
     priority t = prio \<and> priority u = prio \<and> (\<forall>(c, v) \<in> set rest. priority v \<le> prio) \<and>
     task_state t \<in> {TASK_READY, TASK_RUNNING} \<and> task_state u \<in> {TASK_READY, TASK_RUNNING}) \<and>
     (g_current_task s = a \<or> g_current_task s = b)"

lemma first_best_head:
  assumes "first_best (c, v) ((a, t) # cs)" "\<forall>(c, v) \<in> set cs. priority v \<le> priority t"
  shows "(c, v) = (a, t)"
proof -
  obtain xs ys where x: "(a, t) # cs = xs @ (c, v) # ys" "\<forall>y \<in> set xs. priority (snd y) < priority v"
    using assms(1) by (auto simp: first_best_def)
  show ?thesis
  proof (cases xs)
    case (Cons y zs)
    then have "priority t < priority v" "(c, v) \<in> set cs" using x by auto
    then show ?thesis using assms(2) by fastforce
  qed (use x in auto)
qed

lemma list_ops_Cons:
  "set_task x f ((y, t) # ts) = (y, if y = x then f t else t) # set_task x f ts"
  "wake_all ticks ((y, t) # ts) = (y, wake ticks t) # wake_all ticks ts"
  "candidates c ((y, t) # ts) = (if y \<noteq> c \<and> task_state t = TASK_READY then [(y, t)] else []) @ candidates c ts"
  by (simp_all add: set_task_def wake_all_def candidates_def)

lemma pair_alternates_yield:
  assumes pair: "pair_alternates cap a b p s" and y: "sys_yield esp s = Inr (r, s')"
  shows "pair_alternates cap a b p s'"
proof -
  obtain t u rest where ts: "g_task_list s = (a, t) # (b, u) # rest" and p: "priority t = p" "priority u = p"
    and rest: "\<forall>(c, v) \<in> set rest. priority v \<le> p" and c: "g_current_task s = a \<or> g_current_task s = b"
    and st: "task_state t \<in> {TASK_READY, TASK_RUNNING}" "task_state u \<in> {TASK_READY, TASK_RUNNING}" and ok: "sched_ok cap s"
    using pair by (auto simp: pair_alternates_def)
  let ?w = "wake_all (g_sched_ticks s + 1) rest" and ?c = "g_current_task s"
  have ab: "a \<noteq> b" using ok ts by (simp add: sched_ok_def tasks_owned_def)
  have w: "wake_all (g_sched_ticks s + 1) (g_task_list s) = (a, t) # (b, u) # ?w"
    using st by (auto simp: ts list_ops_Cons wake_def)
  define d where "d = (if ?c = a then b else a)"
  define v where "v = (if ?c = a then u else t)"
  have d: "d \<noteq> ?c" "d = a \<or> d = b" using c ab by (auto simp: d_def)
  have "task_state v = TASK_READY"
    using st running_is_current [OF ok, of a t] running_is_current [OF ok, of b u] c ab ts by (auto simp: v_def)
  then have cs: "candidates ?c (wake_all (g_sched_ticks s + 1) (g_task_list s)) = (d, v) # candidates ?c ?w"
    using c ab by (auto simp: w list_ops_Cons d_def v_def)
  have low: "\<forall>(c, z) \<in> set (candidates ?c ?w). priority z \<le> priority v"
    using rest p by (auto simp: candidates_def in_wake_all v_def)
  obtain x z where xz: "first_best (x, z) ((d, v) # candidates ?c ?w)"
    and s': "s' = s\<lparr>g_sched_ticks := g_sched_ticks s + 1, g_task_list := switch_tasks esp ?c x ((a, t) # (b, u) # ?w), g_current_task := x\<rparr>"
    using sys_yield_eq [OF ok, of esp] y unfolding Let_def cs unfolding w by auto
  have x: "x = d" using first_best_head [OF xz low] by simp
  have fin: "\<forall>(c, z) \<in> set (switch_tasks esp ?c d ?w). priority z \<le> p"
    using rest d by (fastforce simp: in_switch_tasks in_wake_all pause_def)
  have "sched_ok cap s'" by (rule yield_ok [OF ok y])
  then show ?thesis
    using p st d c ab fin
    by (auto simp: pair_alternates_def s' x switch_tasks_eq list_ops_Cons pause_def)
qed


text \<open>A heap with three blocks of the size of a task record in use.\<close>

lemma three_task_records:
  obtains h where "heap_rel 65536 h [(32, True), (32, True), (32, True), (65392, False)]" "g_heap h = 4096"
proof -
  have al: "mm_align_size 32 = 32" by (simp add: mm_align_size_def)
  have b: "blocks_alloc 32 [(65524, False)] = ([(32, True), (65480, False)], Some 12)"
    "blocks_alloc 32 [(32, True), (65480, False)] = ([(32, True), (32, True), (65436, False)], Some 56)"
    "blocks_alloc 32 [(32, True), (32, True), (65436, False)] = ([(32, True), (32, True), (32, True), (65392, False)], Some 100)"
    by (simp_all add: blocks_alloc_def carve_def)
  obtain m1 where 1: "heap_rel 65536 (boot_heap\<lparr>mem := m1\<rparr>) [(32, True), (65480, False)]"
    using kmalloc_refines [OF boot_heap_rel, of 32] b(1) by (auto simp: al)
  obtain m2 where 2: "heap_rel 65536 (boot_heap\<lparr>mem := m2\<rparr>) [(32, True), (32, True), (65436, False)]"
    using kmalloc_refines [OF 1, of 32] b(2) by (auto simp: al)
  obtain m3 where "heap_rel 65536 (boot_heap\<lparr>mem := m3\<rparr>) [(32, True), (32, True), (32, True), (65392, False)]"
    using kmalloc_refines [OF 2, of 32] b(3) by (auto simp: al)
  then show thesis by (rule that) simp
qed

definition three_tasks :: "heap \<Rightarrow> sched" where
  "three_tasks h = (let t = \<lambda>i st. \<lparr>task_id = i, task_state = st, priority = 1, task_esp = 0, stack_base = 0, wake_tick = 0,
       task_entry = 0\<rparr>
     in \<lparr>g_current_task = 4108, g_task_list = [(4108, t 2 TASK_RUNNING), (4152, t 1 TASK_READY), (4196, t 0 TASK_READY)],
       g_next_id = 3, g_sched_ticks = 0, s_heap = h\<rparr>)"

lemma three_tasks_ok:
  assumes "heap_rel 65536 h [(32, True), (32, True), (32, True), (65392, False)]" "g_heap h = 4096"
  shows "sched_ok 65536 (three_tasks h)"
proof -
  have "heap_regions 65536 h = {(4108, 32), (4152, 32), (4196, 32)}" using assms by (auto simp: heap_regions_eq)
  moreover have "heap_ok 65536 h" using assms(1) by (auto simp: heap_ok_def)
  ultimately show ?thesis
    by (simp add: three_tasks_def sched_ok_def tasks_owned_def stacks_def owns_def)
qed


lemma boot_alone:
  assumes "sched_boot 65536 s" "length (g_task_list s) = 1"
  shows "candidates (g_current_task s) (wake_all (g_sched_ticks s + 1) (g_task_list s)) = []"
proof -
  obtain a t where "g_task_list s = [(a, t)]" using assms(2) by (cases "g_task_list s") auto
  moreover from this have "a = g_current_task s" using boot_ok [OF assms(1)] by (simp add: sched_ok_def)
  ultimately show ?thesis by (simp add: list_ops_Cons) (simp add: candidates_def wake_all_def)
qed

theorem sys_yield_highest_witness:
  "\<exists>s. reach (sched_boot 65536) (sched_step 65536 0x100000) s \<and> (\<exists>s'. sys_yield 0 s = Inr (None, s'))"
proof -
  obtain s where boot: "sched_boot 65536 s" "length (g_task_list s) = 1" by (rule sched_boot_exists)
  then have r: "reach (sched_boot 65536) (sched_step 65536 0x100000) s" by (intro reach_init)
  then show ?thesis using sys_yield_highest [OF r, of 0] boot_alone [OF boot] by (auto simp: Let_def)
qed

lemma first_frame_reads:
  assumes "unat sp + 20 < 4294967296"
  shows "map (\<lambda>k. rd32 (first_frame tr sp m) (sp + of_nat k)) [0, 4, 8, 12, 16] = [0, 0, 0, 0, tr]"
proof -
  have u: "unat (sp + 4) = unat sp + 4" "unat (sp + 8) = unat sp + 8" "unat (sp + 12) = unat sp + 12" "unat (sp + 16) = unat sp + 16"
    using assms by (simp_all add: unat_add_nowrap)
  show ?thesis using assms by (simp add: first_frame_def Let_def rd32_wr32_apart u)
qed

lemma create_task_cases:
  assumes ok: "sched_ok cap s"
  shows "\<exists>r s'. sys_create_task tr e prio s = Some (r, s') \<and>
    (r = INVALID_TASK_ID \<and> g_task_list s' = g_task_list s \<and> heap_regions cap (s_heap s') = heap_regions cap (s_heap s) \<or>
     (\<exists>sp. sys_query_task r (Some i) s' = (0, Some \<lparr>info_id = r, info_state = TASK_READY, info_priority = prio\<rparr>) \<and>
       (\<forall>tid. tid \<noteq> r \<longrightarrow> sys_query_task tid (Some i) s' = sys_query_task tid (Some i) s) \<and>
       task_esp (snd (hd (g_task_list s'))) = sp \<and> sp + 20 - 8192 \<in> set (stacks (g_task_list s')) \<and>
       map (\<lambda>k. rd32 (mem (s_heap s')) (sp + of_nat k)) [0, 4, 8, 12, 16] = [0, 0, 0, 0, tr]))"
proof -
  from ok have hok: "heap_ok cap (s_heap s)" by (simp add: sched_ok_def)
  obtain h1 t where k1: "kmalloc (s_heap s) sizeof_task_t = Some (h1, t)" using heap_c.alloc_returns [OF hok] by blast
  show ?thesis
  proof (cases "t = 0")
    case True
    then have "h1 = s_heap s" using k1 heap_c.alloc_null [OF hok] by blast
    then show ?thesis using k1 True by (simp add: sys_create_task_def)
  next
    case t: False
    note f1 = alloc_fresh [OF hok k1 t, unfolded sizeof_task_t_def, simplified]
    obtain h2 base where k2: "kmalloc h1 TASK_STACK_SIZE = Some (h2, base)" using heap_c.alloc_returns [OF f1(1)] by blast
    show ?thesis
    proof (cases "base = 0")
      case True
      then have "h2 = h1" using k2 heap_c.alloc_null [OF f1(1)] by blast
      then obtain h3 where "kfree h2 t = Some h3" "heap_regions cap h3 = heap_regions cap (s_heap s)"
        using heap_c.alloc_release [OF hok k1 t] by blast
      then show ?thesis using k1 k2 t True by (simp add: sys_create_task_def)
    next
      case b: False
      note f2 = alloc_fresh [OF f1(1) k2 b, unfolded TASK_STACK_SIZE_def, simplified]
      obtain n where n: "8192 \<le> n" "(unat base, n) \<in> heap_regions cap h2" using f2(3) by (auto simp: owns_def)
      have bd: "unat base + n < 4294967296" using heap_c.regions_bound [OF f2(1) n(2)] by simp
      have sp: "base + TASK_STACK_SIZE - 20 = base + 8172" by (simp add: TASK_STACK_SIZE_def)
      have "unat (base + 8172) = unat base + 8172" using bd n(1) by (subst unat_add_nowrap) auto
      then have fr: "map (\<lambda>k. rd32 (first_frame tr (base + 8172) (mem h2)) (base + 8172 + of_nat k)) [0, 4, 8, 12, 16] =
          [0, 0, 0, 0, tr]" using bd n(1) by (intro first_frame_reads) simp
      show ?thesis
        using k1 k2 t b fr by (simp add: sys_create_task_def Let_def sp sys_query_task_def stacks_Cons)
    qed
  qed
qed

text \<open>\<open>sys_create_task\<close> always returns. Either the heap is exhausted: then it returns
  \<open>INVALID_TASK_ID\<close>, the task list is unchanged and nothing stays allocated. Or the new task can
  be queried under the returned identifier, is READY with the given priority, all other
  queries answer as before, and the top of its own stack holds the frame that sends it to the
  trampoline.\<close>

lemma sys_create_task_correct:
  assumes "reach (sched_boot cap) (sched_step cap tr) s"
  shows "\<exists>r s'. sys_create_task tr e prio s = Some (r, s') \<and>
    (r = INVALID_TASK_ID \<and> g_task_list s' = g_task_list s \<and> heap_regions cap (s_heap s') = heap_regions cap (s_heap s) \<or>
     (\<exists>sp. sys_query_task r (Some i) s' = (0, Some \<lparr>info_id = r, info_state = TASK_READY, info_priority = prio\<rparr>) \<and>
       (\<forall>tid. tid \<noteq> r \<longrightarrow> sys_query_task tid (Some i) s' = sys_query_task tid (Some i) s) \<and>
       task_esp (snd (hd (g_task_list s'))) = sp \<and> sp + 20 - 8192 \<in> set (stacks (g_task_list s')) \<and>
       map (\<lambda>k. rd32 (mem (s_heap s')) (sp + of_nat k)) [0, 4, 8, 12, 16] = [0, 0, 0, 0, tr]))"
  by (rule create_task_cases [OF sched_sys.reach_inv [OF assms]])

text \<open>When no other task is ready, \<open>sys_sleep\<close> does not sleep: it returns to its caller at once, who
  goes on running although its record says BLOCKED, or READY when the wake tick has already
  passed; for a tick count near 2^32 the sum wraps and that happens for long sleeps too.\<close>

lemma sys_sleep_alone:
  assumes "reach (sched_boot cap) (sched_step cap tr) s"
    and alone: "candidates (g_current_task s) (wake_all (g_sched_ticks s + 1) (g_task_list s)) = []"
  shows "\<exists>s' t. sys_sleep esp ms s = Inr (None, s') \<and> g_current_task s' = g_current_task s \<and>
    (g_current_task s, t) \<in> set (g_task_list s') \<and>
    task_state t = (if g_sched_ticks s + ms \<le> g_sched_ticks s + 1 then TASK_READY else TASK_BLOCKED)"
proof -
  have ok: "sched_ok cap s" using assms(1) by (rule sched_sys.reach_inv)
  let ?c = "g_current_task s" and ?f = "\<lambda>t. t\<lparr>wake_tick := g_sched_ticks s + ms, task_state := TASK_BLOCKED\<rparr>"
  let ?s = "s\<lparr>g_task_list := set_task ?c ?f (g_task_list s)\<rparr>"
  have ok': "sched_ok cap ?s" by (rule current_update_ok [OF ok]) simp_all
  have "candidates ?c (wake_all k (set_task ?c f ts)) = candidates ?c (wake_all k ts)" for k f ts
    by (induction ts) (auto simp: list_ops_Cons, simp add: set_task_def)
  then have y: "sys_yield esp ?s = Inr (None, ?s\<lparr>g_sched_ticks := g_sched_ticks s + 1,
      g_task_list := wake_all (g_sched_ticks s + 1) (set_task ?c ?f (g_task_list s))\<rparr>)"
    using sys_yield_eq [OF ok', of esp] alone by (simp add: Let_def)
  have c: "?c \<noteq> 0" using ok by (auto simp: sched_ok_def tasks_owned_def)
  obtain t where t: "(?c, t) \<in> set (g_task_list s)" using ok by (auto simp: sched_ok_def)
  have "(?c, wake (g_sched_ticks s + 1) (?f t)) \<in> set (wake_all (g_sched_ticks s + 1) (set_task ?c ?f (g_task_list s)))"
    using t by (auto simp: in_wake_all in_set_task)
  then show ?thesis
    using y c by (intro exI [of _ "?s\<lparr>g_sched_ticks := g_sched_ticks s + 1,
      g_task_list := wake_all (g_sched_ticks s + 1) (set_task ?c ?f (g_task_list s))\<rparr>"]
      exI [of _ "wake (g_sched_ticks s + 1) (?f t)"]) (simp add: sys_sleep_def wake_def)
qed

end
