(* ===== verification/Sys_Io.thy ===== *)
theory Sys_Io
  imports Cstring
begin

text \<open>
  \<open>init/include/sys_io.h\<close>: the print hook of init and of the network code. Printed strings are
  collected in order; the null pointer prints nothing.
\<close>

type_synonym out = "cstring list"

definition io_print :: "cstring option \<Rightarrow> out \<Rightarrow> out" where
  "io_print str lg = (case str of None \<Rightarrow> lg | Some t \<Rightarrow> lg @ [t])"

abbreviation (input) line :: "string \<Rightarrow> cstring option" where "line t \<equiv> Some (lit t @ [10])"

end
