(* ===== verification/Init.thy ===== *)
theory Init
  imports Sched Sys_Io
begin

text \<open>
  The user side of bring-up: the alternative task table of \<open>init/init_proc.c\<close>, the helpers of
  \<open>init/initlib.c\<close>, the console task of \<open>init/include/sys_proc.h\<close> and the supervisor loop of \<open>init/init.c\<close>. Printed lines are collected in
  order. What the other tasks do between a switch away and the switch back is the parameter
  \<open>others\<close>; \<open>esp\<close> is the stack pointer of the supervisor.
\<close>

section \<open>The task table of init\_proc.c\<close>

record proc_task_t =
  proc_stack :: "u32 list"
  proc_esp :: u32
  proc_state :: task_state_t

record proc_table =
  proc_tasks :: "proc_task_t list"
  proc_current :: int

abbreviation (input) MAX_TASKS :: nat where "MAX_TASKS \<equiv> 32"
abbreviation (input) STACK_SIZE :: nat where "STACK_SIZE \<equiv> 4096"
abbreviation (input) TASK_UNUSED :: task_state_t where "TASK_UNUSED \<equiv> TASK_DEAD"

text \<open>Both globals are zero-initialised.\<close>

definition proc_boot :: proc_table where
  "proc_boot = \<lparr>proc_tasks = replicate MAX_TASKS \<lparr>proc_stack = replicate STACK_SIZE 0, proc_esp = 0, proc_state = TASK_READY\<rparr>,
     proc_current = 0\<rparr>"

definition proc_frame :: "u32 \<Rightarrow> u32 list \<Rightarrow> u32 list" where
  "proc_frame entry_point stk = stk[STACK_SIZE - 1 := entry_point, STACK_SIZE - 2 := 0, STACK_SIZE - 3 := 0, STACK_SIZE - 4 := 0,
     STACK_SIZE - 5 := 0, STACK_SIZE - 6 := 0, STACK_SIZE - 7 := 0, STACK_SIZE - 8 := 0]"

text \<open>\<open>base\<close> is the address of the array; an element takes 16392 bytes.\<close>

function proc_create_loop :: "u32 \<Rightarrow> u32 \<Rightarrow> nat \<Rightarrow> proc_table \<Rightarrow> task_id_t \<times> proc_table" where
  "proc_create_loop base entry_point i s =
     (if i < MAX_TASKS then
        if proc_state (proc_tasks s ! i) = TASK_UNUSED then
          (of_nat i, s\<lparr>proc_tasks := (proc_tasks s)[i :=
             \<lparr>proc_stack = proc_frame entry_point (proc_stack (proc_tasks s ! i)),
              proc_esp = base + of_nat i * 16392 + (4096 - 8) * 4, proc_state = TASK_RUNNING\<rparr>]\<rparr>)
        else proc_create_loop base entry_point (i + 1) s
      else (INVALID_TASK_ID, s))"
  by pat_completeness auto
termination by (relation "measure (\<lambda>(_, _, i, _). MAX_TASKS - i)") auto

declare proc_create_loop.simps [simp del]

definition proc_create_task :: "u32 \<Rightarrow> u32 \<Rightarrow> u32 \<Rightarrow> proc_table \<Rightarrow> task_id_t \<times> proc_table" where
  "proc_create_task base entry_point prio s = proc_create_loop base entry_point 1 s"

lemma proc_create_loop_none:
  "\<forall>j. i \<le> j \<and> j < 32 \<longrightarrow> proc_state (proc_tasks s ! j) \<noteq> TASK_DEAD \<Longrightarrow>
   proc_create_loop base e i s = (INVALID_TASK_ID, s)"
  by (induction "32 - i" arbitrary: i) (subst proc_create_loop.simps, auto)+

lemma proc_create_loop_first:
  assumes "i \<le> k" "k < 32" "proc_state (proc_tasks s ! k) = TASK_DEAD"
    and "\<forall>j. i \<le> j \<and> j < k \<longrightarrow> proc_state (proc_tasks s ! j) \<noteq> TASK_DEAD"
  shows "fst (proc_create_loop base e i s) = of_nat k"
  using assms
proof (induction "k - i" arbitrary: i)
  case 0
  then show ?case by (subst proc_create_loop.simps) simp
next
  case (Suc n)
  then have "proc_state (proc_tasks s ! i) \<noteq> TASK_DEAD" by simp
  then show ?case using Suc by (subst proc_create_loop.simps) simp
qed

text \<open>No element is ever marked unused at the start, so no task can be created.\<close>

lemma proc_create_task_boot: "proc_create_task base e prio proc_boot = (INVALID_TASK_ID, proc_boot)"
  unfolding proc_create_task_def by (rule proc_create_loop_none) (simp add: proc_boot_def)

section \<open>initlib.c\<close>

datatype boot_stage_t = BOOT_STAGE_EARLY | BOOT_STAGE_DRIVERS | BOOT_STAGE_HEADERS | BOOT_STAGE_INIT | BOOT_STAGE_RUNNING

text \<open>\<open>set_stage\<close> is \<open>sys_set_boot_stage\<close>, which no file of the tree defines.\<close>

fun initlib_boot_sequence :: "(boot_stage_t \<Rightarrow> 'w \<Rightarrow> 'w) \<Rightarrow> boot_stage_t \<Rightarrow> 'w \<times> out \<Rightarrow> 'w \<times> out" where
  "initlib_boot_sequence set_stage target (w, lg) = (set_stage target w, (case target of
     BOOT_STAGE_EARLY \<Rightarrow> io_print (line ''[init] stage: early initialization'') lg
   | BOOT_STAGE_DRIVERS \<Rightarrow> io_print (line ''[init] stage: drivers loading'') lg
   | BOOT_STAGE_HEADERS \<Rightarrow> io_print (line ''[init] stage: headers loading'') lg
   | BOOT_STAGE_INIT \<Rightarrow> io_print (line ''[init] stage: INIT process launching'') lg
   | BOOT_STAGE_RUNNING \<Rightarrow> io_print (line ''[init] stage: system fully RUNNING'') lg))"

definition initlib_log_system_health :: "u32 \<Rightarrow> out \<Rightarrow> out" where
  "initlib_log_system_health ticks lg =
     (let lg = (if ticks mod 500 = 0 then io_print (line ''[log] supervisor uptime tick incremented'') lg else lg);
          lg = (if ticks mod 1000 = 0 then io_print (line ''[log] memory map consistency check passed'') lg else lg);
          lg = (if ticks mod 1500 = 0 then io_print (line ''[log] scheduler latency remains within tolerance'') lg else lg);
          lg = (if ticks mod 2000 = 0 then io_print (line ''[log] interrupt descriptor table integrity verified'') lg else lg);
          lg = (if ticks mod 2500 = 0 then io_print (line ''[log] entropy generator health output stable'') lg else lg)
      in if ticks mod 3000 = 0 then io_print (line ''[log] io subsystem bus active'') lg else lg)"

abbreviation (input) WATCHDOG_OK :: int where "WATCHDOG_OK \<equiv> 0"
abbreviation (input) WATCHDOG_DEAD :: int where "WATCHDOG_DEAD \<equiv> 1"
abbreviation (input) WATCHDOG_ERR :: int where "WATCHDOG_ERR \<equiv> - 1"

definition initlib_check_task_health :: "task_id_t \<Rightarrow> task_info_t \<Rightarrow> sched \<Rightarrow> out \<Rightarrow> int \<times> task_info_t \<times> out" where
  "initlib_check_task_health tid out_info s lg =
     (case sys_query_task tid (Some out_info) s of (r, info) \<Rightarrow>
      if r \<noteq> 0 then (WATCHDOG_ERR, out_info, io_print (line ''[err] failed to communicate with task registry'') lg)
      else if info_state (the info) = TASK_DEAD then (WATCHDOG_DEAD, the info, lg)
      else (WATCHDOG_OK, the info, lg))"

definition initlib_respawn_console :: "u32 \<Rightarrow> u32 \<Rightarrow> sched \<Rightarrow> out \<Rightarrow> (task_id_t \<times> sched \<times> out) option" where
  "initlib_respawn_console trampoline console s lg =
     (let lg = io_print (line ''[warn] shell subsystem terminated: attempting emergency restart'') lg in do {
        (new_tid, s) \<leftarrow> sys_create_task trampoline console 1 s;
        Some (new_tid, s,
          if new_tid = INVALID_TASK_ID then io_print (line ''[crit] panic: unable to revive console process'') lg
          else io_print (line ''[INITLIB] console process revived successfully'') lg)
      })"

text \<open>A counting loop without effect; the counter it ends with.\<close>

function delay_count :: "u32 \<Rightarrow> u32 \<Rightarrow> u32" where
  "delay_count count i = (if i < count then delay_count count (i + 1) else i)"
  by pat_completeness auto
termination
proof (relation "measure (\<lambda>(count, i). unat count - unat i)")
  fix count i :: u32 assume "i < count"
  then have "unat i < unat count" "unat (i + 1) = unat i + 1"
    using unat_u32_less [of count] by (auto simp: word_less_nat_alt intro!: unat_add_nowrap [of i 1, simplified] simp del: unat_u32_less)
  then show "((count, i + 1), count, i) \<in> measure (\<lambda>(count, i). unat count - unat i)" by simp
qed simp

definition initlib_delay_loop :: "u32 \<Rightarrow> sched \<Rightarrow> sched" where
  "initlib_delay_loop count s = (let i = delay_count count 0 in s)"

section \<open>init.c\<close>

record supervisor =
  sup_tid :: task_id_t
  sup_info :: task_info_t
  sup_ticks :: u32
  sup_sched :: sched
  sup_out :: out

text \<open>\<open>sys_yield\<close> as the caller sees it: if it switches away, the others run until control is back.\<close>

definition yield_to :: "(sched \<Rightarrow> sched) \<Rightarrow> u32 \<Rightarrow> sched \<Rightarrow> sched_fault + sched" where
  "yield_to others esp s = (case sys_yield esp s of
     Inl f \<Rightarrow> Inl f | Inr (None, s) \<Rightarrow> Inr s | Inr (Some e, s) \<Rightarrow> Inr (others s))"

definition init_main_start :: "u32 \<Rightarrow> u32 \<Rightarrow> task_info_t \<Rightarrow> sched \<Rightarrow> out \<Rightarrow> supervisor option" where
  "init_main_start trampoline console info0 s lg =
     (let lg = io_print (line ''[init] core supervisor booting'') lg in do {
        (tid, s) \<leftarrow> sys_create_task trampoline console 1 s;
        Some \<lparr>sup_tid = tid, sup_info = info0, sup_ticks = 0, sup_sched = s, sup_out = lg\<rparr>
      })"

text \<open>The periodic log lines, and one pass of the \<open>while (1)\<close> loop.\<close>

definition init_main_log :: "u32 \<Rightarrow> out \<Rightarrow> out" where
  "init_main_log ticks lg =
     (let lg = (if ticks mod 500 = 0 then io_print (line ''[log] supervisor uptime tick incremented'') lg else lg);
          lg = (if ticks mod 1000 = 0 then io_print (line ''[log] memory map consistency check passed'') lg else lg);
          lg = (if ticks mod 1500 = 0 then io_print (line ''[log] scheduler latency remains within tolerance'') lg else lg);
          lg = (if ticks mod 2000 = 0 then io_print (line ''[log] interrupt descriptor table integrity verified'') lg else lg);
          lg = (if ticks mod 2500 = 0 then io_print (line ''[log] entropy generator health output stable'') lg else lg)
      in if ticks mod 3000 = 0 then io_print (line ''[log] io subsystem bus active'') lg else lg)"

definition init_main_pass ::
  "u32 \<Rightarrow> u32 \<Rightarrow> (sched \<Rightarrow> sched) \<Rightarrow> u32 \<Rightarrow> supervisor \<Rightarrow> (sched_fault + supervisor) option" where
  "init_main_pass trampoline console others esp p =
     (let ticks = sup_ticks p + 1; lg = sup_out p;
          lg = init_main_log ticks lg;
          (r, info) = sys_query_task (sup_tid p) (Some (sup_info p)) (sup_sched p);
          lg = (if r \<noteq> 0 then io_print (line ''[err] failed to communicate with task registry'') lg else lg);
          info = the info
      in do {
        (tid, s, lg) \<leftarrow>
          (if info_state info = TASK_DEAD then do {
             let lg = io_print (line ''[warn] shell subsystem terminated: attempting emergency restart'') lg;
             (tid, s) \<leftarrow> sys_create_task trampoline console 1 (sup_sched p);
             Some (tid, s, if tid = INVALID_TASK_ID then io_print (line ''[crit] panic: unable to revive console process'') lg else lg)
           } else Some (sup_tid p, sup_sched p, lg));
        let sync = (if info_state info = TASK_RUNNING \<and> ticks mod 100 = 0 then yield_to others esp s else Inr s);
        let sync = (if ticks mod 50 = 0 then (case sync of Inl f \<Rightarrow> Inl f | Inr s \<Rightarrow> yield_to others esp s) else sync);
        Some (case sync of Inl f \<Rightarrow> Inl f
          | Inr s \<Rightarrow> Inr \<lparr>sup_tid = tid, sup_info = info, sup_ticks = ticks, sup_sched = s, sup_out = lg\<rparr>)
      })"

section \<open>The console task\<close>

text \<open>\<open>console_subsystem\<close> of \<open>sys_proc.h\<close>, up to the end of round \<open>n\<close> of its endless loop.\<close>

primrec console_rounds :: "nat \<Rightarrow> (sched \<Rightarrow> sched) \<Rightarrow> u32 \<Rightarrow> sched \<Rightarrow> sched_fault + sched" where
  "console_rounds 0 others esp s = Inr s"
| "console_rounds (Suc n) others esp s = (case sys_sleep esp 500 s of
     Inl f \<Rightarrow> Inl f
   | Inr (r, s) \<Rightarrow> console_rounds n others esp (if r = None then s else others s))"

definition console_subsystem :: "nat \<Rightarrow> (sched \<Rightarrow> sched) \<Rightarrow> u32 \<Rightarrow> sched \<Rightarrow> out \<Rightarrow> (sched_fault + sched) \<times> out" where
  "console_subsystem n others esp s lg =
     (let lg = io_print (line ''[CON] environment online'') lg in (console_rounds n others esp s, lg))"

text \<open>The loop never faults, as long as the other tasks keep the scheduler in order.\<close>

lemma console_rounds_ok:
  assumes "\<And>s. sched_ok cap s \<Longrightarrow> sched_ok cap (others s)"
  shows "sched_ok cap s \<Longrightarrow> \<exists>s'. console_rounds n others esp s = Inr s' \<and> sched_ok cap s'"
proof (induction n arbitrary: s)
  case (Suc n)
  obtain r s' where "sys_sleep esp 500 s = Inr (r, s')" using no_fault(2) [OF Suc.prems, of esp 500] by auto
  moreover have "sched_ok cap (if r = None then s' else others s')"
    using sleep_ok [OF Suc.prems] calculation assms by auto
  ultimately show ?case using Suc.IH by simp
qed simp

section \<open>The supervisor\<close>

lemma log_agrees: "init_main_log = initlib_log_system_health"
  by (intro ext) (simp only: init_main_log_def initlib_log_system_health_def)

text \<open>One pass in the library's terms, for a pass that neither yields nor fails the query.\<close>

lemma init_main_pass_dead:
  assumes q: "sys_query_task (sup_tid p) (Some (sup_info p)) (sup_sched p) = (0, Some i)" "info_state i = TASK_DEAD"
    and quiet: "(sup_ticks p + 1) mod 50 \<noteq> 0"
    and create: "sys_create_task tr console 1 (sup_sched p) = Some (tid, s)"
  shows "init_main_pass tr console others esp p = Some (Inr \<lparr>sup_tid = tid, sup_info = i, sup_ticks = sup_ticks p + 1, sup_sched = s,
    sup_out = initlib_log_system_health (sup_ticks p + 1) (sup_out p) @
      [lit ''[warn] shell subsystem terminated: attempting emergency restart'' @ [10]] @
      (if tid = INVALID_TASK_ID then [lit ''[crit] panic: unable to revive console process'' @ [10]] else [])\<rparr>)"
  using assms by (simp add: init_main_pass_def Let_def log_agrees io_print_def)



end
