(* ===== verification/Register.thy ===== *)
theory Register
  imports Cstring
begin

text \<open>
  \<open>userland/register.c\<close>, \<open>register.h\<close> and \<open>cmdtable.h\<close>: the table of commands that packages add
  at run time, and the lookup that tries the linked-in commands first. The linked-in table is
  collected by the linker from all object files and is a parameter; a command function is an
  element of \<open>'f\<close>.
\<close>

record dyn_entry_t =
  dyn_name :: cstring
  dyn_path :: cstring
  dyn_used :: bool

record 'f cmd_entry_t =
  cmd_name :: cstring
  cmd_fn :: 'f

abbreviation (input) DYN_CMD_MAX :: nat where "DYN_CMD_MAX \<equiv> 32"

definition g_dyn_table :: "dyn_entry_t list" where
  "g_dyn_table = replicate DYN_CMD_MAX \<lparr>dyn_name = replicate 32 0, dyn_path = replicate 64 0, dyn_used = False\<rparr>"

text \<open>The loops of the file look for the first entry with a property and return from there.\<close>

fun first_entry :: "('e \<Rightarrow> bool) \<Rightarrow> 'e list \<Rightarrow> nat option" where
  "first_entry P [] = None"
| "first_entry P (e # es) = (if P e then Some 0 else map_option Suc (first_entry P es))"

definition register_elf_command :: "cstring \<Rightarrow> cstring \<Rightarrow> dyn_entry_t list \<Rightarrow> int \<times> dyn_entry_t list" where
  "register_elf_command name path t =
     (case first_entry (\<lambda>e. dyn_used e \<and> str_eq (dyn_name e) name) t of
        Some i \<Rightarrow> (0, t[i := (t ! i)\<lparr>dyn_path := str_cpy (dyn_path (t ! i)) path 64\<rparr>])
      | None \<Rightarrow> (case first_entry (\<lambda>e. \<not> dyn_used e) t of
          Some i \<Rightarrow> (0, t[i := \<lparr>dyn_name = str_cpy (dyn_name (t ! i)) name 32,
                               dyn_path = str_cpy (dyn_path (t ! i)) path 64, dyn_used = True\<rparr>])
        | None \<Rightarrow> (- 1, t)))"

definition unregister_command :: "cstring \<Rightarrow> dyn_entry_t list \<Rightarrow> int \<times> dyn_entry_t list" where
  "unregister_command name t =
     (case first_entry (\<lambda>e. dyn_used e \<and> str_eq (dyn_name e) name) t of
        Some i \<Rightarrow> (0, t[i := (t ! i)\<lparr>dyn_used := False\<rparr>])
      | None \<Rightarrow> (- 1, t))"

text \<open>The result, and what is in \<open>*fn\<close>, \<open>path_out\<close> and \<open>*is_elf\<close> afterwards.\<close>

definition cmd_lookup ::
  "'f cmd_entry_t list \<Rightarrow> cstring \<Rightarrow> 'f \<Rightarrow> cstring \<Rightarrow> nat \<Rightarrow> int \<Rightarrow> dyn_entry_t list \<Rightarrow> int \<times> 'f \<times> cstring \<times> int" where
  "cmd_lookup cmdtable name fn path_out path_max is_elf t =
     (case first_entry (\<lambda>c. str_eq (cmd_name c) name) cmdtable of
        Some i \<Rightarrow> (1, cmd_fn (cmdtable ! i), path_out, 0)
      | None \<Rightarrow> (case first_entry (\<lambda>e. dyn_used e \<and> str_eq (dyn_name e) name) t of
          Some i \<Rightarrow> (1, fn, str_cpy path_out (dyn_path (t ! i)) path_max, 1)
        | None \<Rightarrow> (0, fn, path_out, is_elf)))"

section \<open>The contract of a bounded table\<close>

locale bounded_map =
  fixes inv :: "'s \<Rightarrow> bool"
    and lookup :: "'s \<Rightarrow> 'k \<Rightarrow> 'v option"
    and put :: "'k \<Rightarrow> 'v \<Rightarrow> 's \<Rightarrow> int \<times> 's"
    and del :: "'k \<Rightarrow> 's \<Rightarrow> int \<times> 's"
    and valid :: "'k \<Rightarrow> 'v \<Rightarrow> bool"
    and key :: "'k \<Rightarrow> bool"
    and cap :: nat
  assumes finite_dom: "inv s \<Longrightarrow> finite (dom (lookup s)) \<and> card (dom (lookup s)) \<le> cap"
    and put_ok: "inv s \<Longrightarrow> valid k v \<Longrightarrow> lookup s k \<noteq> None \<or> card (dom (lookup s)) < cap \<Longrightarrow>
      fst (put k v s) = 0 \<and> inv (snd (put k v s)) \<and> lookup (snd (put k v s)) = (lookup s)(k \<mapsto> v)"
    and put_full: "inv s \<Longrightarrow> valid k v \<Longrightarrow> lookup s k = None \<Longrightarrow> card (dom (lookup s)) = cap \<Longrightarrow> put k v s = (- 1, s)"
    and del_ok: "inv s \<Longrightarrow> lookup s k \<noteq> None \<Longrightarrow>
      fst (del k s) = 0 \<and> inv (snd (del k s)) \<and> lookup (snd (del k s)) = (lookup s)(k := None)"
    and del_none: "inv s \<Longrightarrow> key k \<Longrightarrow> lookup s k = None \<Longrightarrow> del k s = (- 1, s)"
begin

lemma del_after_put:
  assumes "inv s" "valid k v" "fst (put k v s) = 0"
  shows "lookup (snd (del k (snd (put k v s)))) = (lookup s)(k := None)"
proof -
  have room: "lookup s k \<noteq> None \<or> card (dom (lookup s)) < cap"
    using put_full [OF assms(1,2)] assms(3) finite_dom [OF assms(1)] by fastforce
  show ?thesis using put_ok [OF assms(1,2) room] del_ok [of "snd (put k v s)" k] by simp
qed

lemma del_frees:
  assumes "inv s" "lookup s k \<noteq> None" "valid k' v"
  shows "fst (put k' v (snd (del k s))) = 0"
proof -
  have d: "inv (snd (del k s))" "lookup (snd (del k s)) = (lookup s)(k := None)" using del_ok [OF assms(1,2)] by auto
  have "k \<in> dom (lookup s)" using assms(2) by auto
  then have "card (dom (lookup s) - {k}) < card (dom (lookup s))"
    using finite_dom [OF assms(1)] by (intro psubset_card_mono) auto
  then have "card (dom (lookup (snd (del k s)))) < cap" using d(2) finite_dom [OF assms(1)] by simp
  then show ?thesis using put_ok [OF d(1) assms(3)] by blast
qed

end

section \<open>The run-time table is a bounded map\<close>

definition entry_pair :: "dyn_entry_t \<Rightarrow> cstring \<times> cstring" where
  "entry_pair e = (cstr (dyn_name e), cstr (dyn_path e))"

definition dyn_pairs :: "dyn_entry_t list \<Rightarrow> (cstring \<times> cstring) list" where
  "dyn_pairs t = map entry_pair (filter dyn_used t)"

definition dyn_map :: "dyn_entry_t list \<Rightarrow> cstring \<Rightarrow> cstring option" where
  "dyn_map t = map_of (dyn_pairs t)"

definition dyn_ok :: "dyn_entry_t list \<Rightarrow> bool" where
  "dyn_ok t \<longleftrightarrow> length t = 32 \<and> (\<forall>e \<in> set t. length (dyn_name e) = 32 \<and> length (dyn_path e) = 64) \<and>
     distinct (map fst (dyn_pairs t))"

definition dyn_valid :: "cstring \<Rightarrow> cstring \<Rightarrow> bool" where
  "dyn_valid name path \<longleftrightarrow> 0 \<notin> set name \<and> length name < 32 \<and> 0 \<notin> set path \<and> length path < 64"

lemma first_entry_Some:
  "first_entry P es = Some i \<Longrightarrow> \<exists>xs e ys. es = xs @ e # ys \<and> i = length xs \<and> P e \<and> (\<forall>x \<in> set xs. \<not> P x)"
proof (induction es arbitrary: i)
  case (Cons a es)
  show ?case
  proof (cases "P a")
    case True
    then show ?thesis using Cons.prems by (intro exI [of _ "[]"] exI [of _ a] exI [of _ es]) auto
  next
    case False
    then obtain j where "first_entry P es = Some j" "i = Suc j" using Cons.prems by auto
    then show ?thesis using Cons.IH False by (metis append_Cons length_Cons set_ConsD)
  qed
qed simp

lemma first_entry_None: "first_entry P es = None \<longleftrightarrow> (\<forall>e \<in> set es. \<not> P e)"
  by (induction es) auto

lemma dyn_pairs_append [simp]: "dyn_pairs (xs @ e # ys) = dyn_pairs xs @ (if dyn_used e then [entry_pair e] else []) @ dyn_pairs ys"
  by (simp add: dyn_pairs_def)

lemma in_dyn_pairs: "k \<in> fst ` set (dyn_pairs t) \<longleftrightarrow> (\<exists>e \<in> set t. dyn_used e \<and> cstr (dyn_name e) = k)"
  by (force simp: dyn_pairs_def entry_pair_def)

lemma map_of_insert: "k \<notin> fst ` set xs \<Longrightarrow> map_of (xs @ (k, v) # ys) = (map_of (xs @ ys))(k \<mapsto> v)"
  by (induction xs) (auto simp: fun_eq_iff)

lemma map_of_remove:
  "k \<notin> fst ` set xs \<Longrightarrow> k \<notin> fst ` set ys \<Longrightarrow> map_of (xs @ ys) = (map_of (xs @ (k, v) # ys))(k := None)"
  by (induction xs) (auto simp: fun_eq_iff map_of_eq_None_iff)

lemma card_dyn_map: "dyn_ok t \<Longrightarrow> card (dom (dyn_map t)) = length (filter dyn_used t)"
  using distinct_card [of "map fst (dyn_pairs t)"]
  by (simp add: dyn_map_def dom_map_of_conv_image_fst dyn_ok_def) (simp add: dyn_pairs_def)

lemma register_known:
  assumes ok: "dyn_ok t" and v: "dyn_valid k p" and old: "dyn_map t k \<noteq> None"
  shows "fst (register_elf_command k p t) = 0 \<and> dyn_ok (snd (register_elf_command k p t)) \<and>
    dyn_map (snd (register_elf_command k p t)) = (dyn_map t)(k \<mapsto> p)"
proof -
  let ?P = "\<lambda>e. dyn_used e \<and> str_eq (dyn_name e) k"
  have k: "cstr k = k" "take 63 (cstr p) = p" using v by (simp_all add: dyn_valid_def cstr_id)
  have "\<exists>e \<in> set t. ?P e" using old by (auto simp: dyn_map_def map_of_eq_None_iff in_dyn_pairs str_eq_iff k)
  then obtain i where i: "first_entry ?P t = Some i" using first_entry_None [of ?P t] by auto
  from first_entry_Some [OF this] obtain xs e ys where t: "t = xs @ e # ys" "i = length xs" "?P e" by blast
  let ?e = "e\<lparr>dyn_path := str_cpy (dyn_path e) p 64\<rparr>"
  have pair: "entry_pair ?e = (k, p)" "fst (entry_pair e) = k"
    using ok t k by (simp_all add: entry_pair_def str_eq_iff cstr_str_cpy dyn_ok_def)
  have r: "register_elf_command k p t = (0, xs @ ?e # ys)"
    using i t by (simp add: register_elf_command_def)
  have d: "k \<notin> fst ` set (dyn_pairs xs)" "k \<notin> fst ` set (dyn_pairs ys)" using ok t pair by (auto simp: dyn_ok_def)
  obtain q where q: "entry_pair e = (k, q)" using pair(2) by (cases "entry_pair e") auto
  show ?thesis
    unfolding r fst_conv snd_conv using ok t(3) pair d q by (simp add: t(1) dyn_ok_def dyn_map_def map_of_insert del: map_of_append)
qed

lemma register_new:
  assumes ok: "dyn_ok t" and v: "dyn_valid k p" and new: "dyn_map t k = None" and room: "card (dom (dyn_map t)) < 32"
  shows "fst (register_elf_command k p t) = 0 \<and> dyn_ok (snd (register_elf_command k p t)) \<and>
    dyn_map (snd (register_elf_command k p t)) = (dyn_map t)(k \<mapsto> p)"
proof -
  let ?P = "\<lambda>e. dyn_used e \<and> str_eq (dyn_name e) k" and ?Q = "\<lambda>e. \<not> dyn_used e"
  have k: "cstr k = k" "take 31 (cstr k) = k" "take 63 (cstr p) = p" using v by (simp_all add: dyn_valid_def cstr_id)
  have kn: "k \<notin> fst ` set (dyn_pairs t)" using new by (simp add: dyn_map_def map_of_eq_None_iff)
  then have none: "first_entry ?P t = None" by (auto simp: first_entry_None in_dyn_pairs str_eq_iff k)
  have "\<exists>e \<in> set t. ?Q e"
  proof (rule ccontr)
    assume "\<not> (\<exists>e \<in> set t. ?Q e)"
    then have "filter dyn_used t = t" by (simp add: filter_id_conv)
    then show False using room card_dyn_map [OF ok] ok by (simp add: dyn_ok_def)
  qed
  then obtain i where i: "first_entry ?Q t = Some i" using first_entry_None [of ?Q t] by auto
  from first_entry_Some [OF this] obtain xs e ys where t: "t = xs @ e # ys" "i = length xs" "?Q e" by blast
  let ?e = "\<lparr>dyn_name = str_cpy (dyn_name e) k 32, dyn_path = str_cpy (dyn_path e) p 64, dyn_used = True\<rparr>"
  have pair: "entry_pair ?e = (k, p)" using ok t k by (simp add: entry_pair_def cstr_str_cpy dyn_ok_def)
  have r: "register_elf_command k p t = (0, xs @ ?e # ys)" using i none t by (simp add: register_elf_command_def)
  show ?thesis
    unfolding r fst_conv snd_conv using ok t(3) pair kn
    by (simp add: t(1) dyn_ok_def dyn_map_def map_of_insert image_Un del: map_of_append)
qed

lemma register_full:
  assumes ok: "dyn_ok t" and v: "dyn_valid k p" and new: "dyn_map t k = None" and full: "card (dom (dyn_map t)) = 32"
  shows "register_elf_command k p t = (- 1, t)"
proof -
  have k: "cstr k = k" using v by (simp add: dyn_valid_def cstr_id)
  have "\<forall>e \<in> set t. \<not> (dyn_used e \<and> str_eq (dyn_name e) k)"
    using new by (auto simp: dyn_map_def map_of_eq_None_iff in_dyn_pairs str_eq_iff k)
  moreover have "\<forall>e \<in> set t. dyn_used e"
    using full card_dyn_map [OF ok] ok by (metis dyn_ok_def filter_True length_filter_less less_irrefl)
  ultimately show ?thesis by (simp add: register_elf_command_def first_entry_None [THEN iffD2])
qed

lemma unregister_known:
  assumes ok: "dyn_ok t" and old: "dyn_map t k \<noteq> None"
  shows "fst (unregister_command k t) = 0 \<and> dyn_ok (snd (unregister_command k t)) \<and>
    dyn_map (snd (unregister_command k t)) = (dyn_map t)(k := None)"
proof -
  let ?P = "\<lambda>e. dyn_used e \<and> str_eq (dyn_name e) k"
  have "k \<in> fst ` set (dyn_pairs t)" using old by (simp add: dyn_map_def map_of_eq_None_iff)
  then obtain e0 where e0: "e0 \<in> set t" "dyn_used e0" "cstr (dyn_name e0) = k" by (auto simp: in_dyn_pairs)
  then have k: "cstr k = k" by auto
  then obtain i where i: "first_entry ?P t = Some i" using e0 first_entry_None [of ?P t] by (auto simp: str_eq_iff)
  from first_entry_Some [OF this] obtain xs e ys where t: "t = xs @ e # ys" "i = length xs" "?P e" by blast
  obtain q where q: "entry_pair e = (k, q)" using t(3) k by (simp add: entry_pair_def str_eq_iff)
  have r: "unregister_command k t = (0, xs @ e\<lparr>dyn_used := False\<rparr> # ys)" using i t by (simp add: unregister_command_def)
  have "k \<notin> fst ` set (dyn_pairs xs)" "k \<notin> fst ` set (dyn_pairs ys)" using ok t q by (auto simp: dyn_ok_def)
  then show ?thesis
    unfolding r fst_conv snd_conv using ok t(3) q map_of_remove [of k "dyn_pairs xs" "dyn_pairs ys" q]
    by (simp add: t(1) dyn_ok_def dyn_map_def del: map_of_append)
qed

interpretation dyn: bounded_map dyn_ok dyn_map register_elf_command unregister_command dyn_valid "\<lambda>k. 0 \<notin> set k" 32
proof (unfold_locales, goal_cases)
  case (1 t)
  then have "length (filter dyn_used t) \<le> 32" by (metis dyn_ok_def length_filter_le)
  then show ?case using card_dyn_map [OF 1] by (simp add: dyn_map_def finite_dom_map_of)
next
  case (2 t k p)
  then show ?case using register_known register_new by (cases "dyn_map t k = None") auto
next
  case (3 t k p)
  then show ?case by (rule register_full)
next
  case (4 t k)
  then show ?case by (rule unregister_known)
next
  case (5 t k)
  then have "\<forall>e \<in> set t. \<not> (dyn_used e \<and> str_eq (dyn_name e) k)"
    by (auto simp: dyn_map_def map_of_eq_None_iff in_dyn_pairs str_eq_iff cstr_id)
  then show ?case by (simp add: unregister_command_def first_entry_None [THEN iffD2])
qed

lemma cmd_lookup_found:
  assumes ok: "dyn_ok t" and k: "0 \<notin> set name" and none: "\<forall>c \<in> set cmdtable. cstr (cmd_name c) \<noteq> name"
    and m: "dyn_map t name = Some path" and buf: "64 \<le> length buf"
  shows "\<exists>b. cmd_lookup cmdtable name fn buf 64 e t = (1, fn, b, 1) \<and> cstr b = take 63 path"
proof -
  let ?P = "\<lambda>e. dyn_used e \<and> str_eq (dyn_name e) name"
  have st: "first_entry (\<lambda>c. str_eq (cmd_name c) name) cmdtable = None"
    using none k by (auto simp: first_entry_None str_eq_iff cstr_id)
  have "name \<in> fst ` set (dyn_pairs t)" using m by (force simp: dyn_map_def dest: map_of_SomeD)
  then obtain i where i: "first_entry ?P t = Some i"
    using first_entry_None [of ?P t] k by (auto simp: in_dyn_pairs str_eq_iff cstr_id)
  from first_entry_Some [OF this] obtain xs x ys where t: "t = xs @ x # ys" "i = length xs" "?P x" by blast
  have x: "entry_pair x = (name, cstr (dyn_path x))" using t(3) k by (simp add: entry_pair_def str_eq_iff cstr_id)
  have "name \<notin> fst ` set (dyn_pairs xs)" using ok t x by (auto simp: dyn_ok_def)
  then have "dyn_map t name = Some (cstr (dyn_path x))" using t x by (simp add: dyn_map_def map_of_insert del: map_of_append)
  then show ?thesis using m st i t buf by (simp add: cmd_lookup_def cstr_str_cpy)
qed

text \<open>C24. Registering a command of legal length succeeds exactly when the name is known or one of the
  32 entries is free. Then the command map has the new path and is otherwise unchanged, a name
  that no linked-in command has is found with that path, and unregistering removes exactly it.
  A registration that fails changes nothing.\<close>

theorem register_then_lookup:
  assumes ok: "dyn_ok t" and v: "dyn_valid name path"
    and none: "\<forall>c \<in> set cmdtable. cstr (cmd_name c) \<noteq> name" and buf: "64 \<le> length buf"
  shows "let (r, t') = register_elf_command name path t in
    if dyn_map t name \<noteq> None \<or> card (dom (dyn_map t)) < 32
    then r = 0 \<and> dyn_ok t' \<and> dyn_map t' = (dyn_map t)(name \<mapsto> path) \<and>
      (\<exists>b. cmd_lookup cmdtable name fn buf 64 e t' = (1, fn, b, 1) \<and> cstr b = path) \<and>
      dyn_map (snd (unregister_command name t')) = (dyn_map t)(name := None)
    else r = - 1 \<and> t' = t"
proof (cases "dyn_map t name \<noteq> None \<or> card (dom (dyn_map t)) < 32")
  case True
  let ?t = "snd (register_elf_command name path t)"
  have k: "0 \<notin> set name" "take 63 path = path" using v by (simp_all add: dyn_valid_def)
  have r: "fst (register_elf_command name path t) = 0" "dyn_ok ?t" "dyn_map ?t = (dyn_map t)(name \<mapsto> path)"
    using dyn.put_ok [OF ok v True] by auto
  show ?thesis
    using True r dyn.del_after_put [OF ok v r(1)] cmd_lookup_found [OF r(2) k(1) none _ buf, of path fn e] k(2)
    by (simp add: case_prod_beta)
next
  case False
  then have "card (dom (dyn_map t)) = 32" "dyn_map t name = None" using dyn.finite_dom [OF ok] by auto
  then show ?thesis using dyn.put_full [OF ok v] by simp
qed

theorem register_then_lookup_witness:
  "\<exists>b. cmd_lookup [] (lit ''hi'') (0 :: nat) (replicate 64 0) 64 0 (snd (register_elf_command (lit ''hi'') (lit ''/bin/hi'') g_dyn_table)) =
     (1, 0, b, 1) \<and> cstr b = lit ''/bin/hi''"
proof -
  have "dyn_ok g_dyn_table" by (simp add: dyn_ok_def g_dyn_table_def dyn_pairs_def)
  moreover have "dyn_valid (lit ''hi'') (lit ''/bin/hi'')" by (simp add: dyn_valid_def lit_def)
  moreover have "card (dom (dyn_map g_dyn_table)) < 32" by (simp add: dyn_map_def dyn_pairs_def g_dyn_table_def)
  ultimately show ?thesis
    using register_then_lookup [of g_dyn_table "lit ''hi''" "lit ''/bin/hi''" "[] :: nat cmd_entry_t list" "replicate 64 0" 0 0]
    by (simp add: case_prod_beta)
qed

end
