(* ===== verification/Pkg.thy ===== *)
theory Pkg
  imports Vfs Register "HOL-Library.Monad_Syntax"
begin

text \<open>
  \<open>userland/pkg.c\<close> and \<open>pkg.h\<close>: the package manager, which copies a program through the VFS,
  keeps a flat file of records and registers the command. Local arrays start with whatever the
  stack holds; their initial contents are the parameter \<open>pkg_locals\<close>.
\<close>

section \<open>Records\<close>

record pkg_entry_t =
  pkg_name :: cstring
  pkg_path :: cstring
  pkg_size :: u32

abbreviation (input) PKG_NAME_MAX :: nat where "PKG_NAME_MAX \<equiv> 32"
abbreviation (input) PKG_PATH_MAX :: nat where "PKG_PATH_MAX \<equiv> 64"
abbreviation (input) PKG_MAX_ENTRIES :: nat where "PKG_MAX_ENTRIES \<equiv> 64"
abbreviation (input) sizeof_pkg_entry :: nat where "sizeof_pkg_entry \<equiv> 100"

definition PKG_BIN_DIR :: cstring where "PKG_BIN_DIR = lit ''/bin''"
definition PKG_DB_PATH :: cstring where "PKG_DB_PATH = lit ''/pkg/installed.db''"

text \<open>The memory image of a record, 32 + 64 + 4 bytes, and reading one back.\<close>

definition encode_entry :: "pkg_entry_t \<Rightarrow> cstring" where
  "encode_entry e = pkg_name e @ pkg_path e @ le_bytes (pkg_size e)"

definition decode_entry :: "cstring \<Rightarrow> pkg_entry_t" where
  "decode_entry bs = \<lparr>pkg_name = take 32 bs, pkg_path = take 64 (drop 32 bs), pkg_size = le_word (drop 96 bs)\<rparr>"

record 'd pkg_state =
  pkg_vfs :: "'d vfs"
  pkg_dyn :: "dyn_entry_t list"

record pkg_locals =
  loc_dst :: cstring
  loc_buf :: cstring
  loc_entries :: "pkg_entry_t list"

abbreviation (input) no_file :: vfs_file_t where "no_file \<equiv> \<lparr>file_node = None, file_offset = 0, file_flags = 0\<rparr>"

section \<open>The record file\<close>

text \<open>The loop of \<open>db_load\<close> with \<open>rem\<close> records to go. A read that falls short still stores the bytes it got.\<close>

primrec db_load_loop ::
  "(u32 \<Rightarrow> 'd vfs_ops_t) \<Rightarrow> nat \<Rightarrow> vfs_file_t \<Rightarrow> pkg_entry_t list \<Rightarrow> nat \<Rightarrow> 'd vfs \<Rightarrow> nat \<times> pkg_entry_t list \<times> 'd vfs" where
  "db_load_loop ops 0 f out count v = (count, out, v)"
| "db_load_loop ops (Suc rem) f out count v =
     (let (n, data, f, v) = vfs_read ops f (of_nat sizeof_pkg_entry) v;
          out = out[count := decode_entry (data @ drop (length data) (encode_entry (out ! count)))]
      in if n \<noteq> int sizeof_pkg_entry then (count, out, v) else db_load_loop ops rem f out (count + 1) v)"

definition db_load :: "(u32 \<Rightarrow> 'd vfs_ops_t) \<Rightarrow> pkg_entry_t list \<Rightarrow> nat \<Rightarrow> 'd vfs \<Rightarrow> nat \<times> pkg_entry_t list \<times> 'd vfs" where
  "db_load ops out mx v =
     (if \<not> vfs_exists (Some PKG_DB_PATH) v then (0, out, v)
      else case vfs_open (Some PKG_DB_PATH) no_file v of (r, f) \<Rightarrow>
        if r \<noteq> 0 then (0, out, v) else db_load_loop ops mx f out 0 v)"

fun db_save_loop :: "(u32 \<Rightarrow> 'd vfs_ops_t) \<Rightarrow> pkg_entry_t list \<Rightarrow> vfs_file_t \<Rightarrow> 'd vfs \<Rightarrow> int \<times> 'd vfs" where
  "db_save_loop ops [] f v = (0, v)"
| "db_save_loop ops (e # es) f v =
     (case vfs_write ops f (encode_entry e) v of (n, f, v) \<Rightarrow>
      if n \<noteq> int sizeof_pkg_entry then (- 1, v) else db_save_loop ops es f v)"

definition db_save :: "(u32 \<Rightarrow> 'd vfs_ops_t) \<Rightarrow> pkg_entry_t list \<Rightarrow> nat \<Rightarrow> 'd vfs \<Rightarrow> int \<times> 'd vfs" where
  "db_save ops entries count v =
     (case vfs_open (Some PKG_DB_PATH) no_file v of (r, f) \<Rightarrow>
      if r \<noteq> 0 then (- 1, v) else db_save_loop ops (take count entries) f v)"

section \<open>Installing, updating, removing\<close>

partial_function (option) copy_loop ::
  "(u32 \<Rightarrow> 'd vfs_ops_t) \<Rightarrow> vfs_file_t \<Rightarrow> vfs_file_t \<Rightarrow> cstring \<Rightarrow> u32 \<Rightarrow> 'd vfs \<Rightarrow> (int \<times> u32 \<times> 'd vfs) option" where
  "copy_loop ops src dst buf tot v =
     (let (n, data, src, v) = vfs_read ops src 512 v;
          buf = data @ drop (length data) buf
      in if 0 < n then
           (let (w, dst, v) = vfs_write ops dst (take (nat n) buf) v
            in if w \<noteq> n then Some (- 1, tot, v) else copy_loop ops src dst buf (tot + of_int n) v)
         else Some (0, tot, v))"

text \<open>The copied length is stored only on success; \<open>out_total\<close> is what the caller had there.\<close>

definition copy_file ::
  "(u32 \<Rightarrow> 'd vfs_ops_t) \<Rightarrow> vfs_file_t \<Rightarrow> vfs_file_t \<Rightarrow> cstring \<Rightarrow> u32 \<Rightarrow> 'd vfs \<Rightarrow> (int \<times> u32 \<times> 'd vfs) option" where
  "copy_file ops src dst buf out_total v = do {
     (r, tot, v) \<leftarrow> copy_loop ops src dst buf 0 v;
     Some (r, if r = 0 then tot else out_total, v)
   }"

definition install_path :: "cstring \<Rightarrow> cstring \<Rightarrow> cstring" where
  "install_path dst0 name =
     (let dst = str_cpy dst0 PKG_BIN_DIR PKG_PATH_MAX;
          len = str_len dst;
          dst = dst[len := of_char CHR ''/'']
      in take (len + 1) dst @ str_cpy (drop (len + 1) dst) name (PKG_PATH_MAX - len - 1))"

definition pkg_install ::
  "(u32 \<Rightarrow> 'd vfs_ops_t) \<Rightarrow> pkg_locals \<Rightarrow> cstring \<Rightarrow> cstring \<Rightarrow> 'd pkg_state \<Rightarrow> (int \<times> 'd pkg_state) option" where
  "pkg_install ops l src_path name s =
     (if PKG_NAME_MAX \<le> str_len name then Some (- 1, s)
      else case vfs_open (Some src_path) no_file (pkg_vfs s) of (r, src) \<Rightarrow>
        if r \<noteq> 0 then Some (- 1, s)
        else
          let dst_path = install_path (loc_dst l) name in
          case vfs_open (Some dst_path) no_file (pkg_vfs s) of (r, dst) \<Rightarrow>
            if r \<noteq> 0 then Some (- 1, s)
            else do {
              (r, tot, v) \<leftarrow> copy_file ops src dst (loc_buf l) 0 (pkg_vfs s);
              if r \<noteq> 0 then Some (- 1, s\<lparr>pkg_vfs := v\<rparr>)
              else
                let (count, entries, v) = db_load ops (loc_entries l) PKG_MAX_ENTRIES v in
                case first_entry (\<lambda>e. str_eq (pkg_name e) name) (take count entries) of
                  Some i \<Rightarrow>
                    let entries = entries[i := (entries ! i)\<lparr>pkg_size := tot,
                          pkg_path := str_cpy (pkg_path (entries ! i)) dst_path PKG_PATH_MAX\<rparr>];
                        (r, v) = db_save ops entries count v;
                        (r, t) = register_elf_command name dst_path (pkg_dyn s)
                    in Some (0, \<lparr>pkg_vfs = v, pkg_dyn = t\<rparr>)
                | None \<Rightarrow>
                    if PKG_MAX_ENTRIES \<le> count then Some (- 1, s\<lparr>pkg_vfs := v\<rparr>)
                    else
                      let entries = entries[count := \<lparr>pkg_name = str_cpy (pkg_name (entries ! count)) name PKG_NAME_MAX,
                            pkg_path = str_cpy (pkg_path (entries ! count)) dst_path PKG_PATH_MAX, pkg_size = tot\<rparr>];
                          (r, v) = db_save ops entries (count + 1) v
                      in if r \<noteq> 0 then Some (- 1, s\<lparr>pkg_vfs := v\<rparr>)
                         else Some (0, \<lparr>pkg_vfs = v, pkg_dyn = snd (register_elf_command name dst_path (pkg_dyn s))\<rparr>)
            })"

definition pkg_update ::
  "(u32 \<Rightarrow> 'd vfs_ops_t) \<Rightarrow> pkg_locals \<Rightarrow> cstring \<Rightarrow> cstring \<Rightarrow> 'd pkg_state \<Rightarrow> (int \<times> 'd pkg_state) option" where
  "pkg_update ops l name new_src_path s =
     (let (count, entries, v) = db_load ops (loc_entries l) PKG_MAX_ENTRIES (pkg_vfs s); s = s\<lparr>pkg_vfs := v\<rparr> in
      case first_entry (\<lambda>e. str_eq (pkg_name e) name) (take count entries) of
        None \<Rightarrow> Some (- 1, s)
      | Some idx \<Rightarrow>
          case vfs_open (Some new_src_path) no_file v of (r, src) \<Rightarrow>
            if r \<noteq> 0 then Some (- 1, s)
            else case vfs_open (Some (pkg_path (entries ! idx))) no_file v of (r, dst) \<Rightarrow>
              if r \<noteq> 0 then Some (- 1, s)
              else do {
                (r, tot, v) \<leftarrow> copy_file ops src dst (loc_buf l) 0 v;
                if r \<noteq> 0 then Some (- 1, s\<lparr>pkg_vfs := v\<rparr>)
                else
                  let entries = entries[idx := (entries ! idx)\<lparr>pkg_size := tot\<rparr>];
                      (r, v) = db_save ops entries count v
                  in if r \<noteq> 0 then Some (- 1, s\<lparr>pkg_vfs := v\<rparr>)
                     else Some (0, \<lparr>pkg_vfs = v,
                       pkg_dyn = snd (register_elf_command (pkg_name (entries ! idx)) (pkg_path (entries ! idx)) (pkg_dyn s))\<rparr>)
              })"

function shift_loop :: "nat \<Rightarrow> nat \<Rightarrow> pkg_entry_t list \<Rightarrow> pkg_entry_t list" where
  "shift_loop i n es = (if i < n then shift_loop (i + 1) n (es[i := es ! (i + 1)]) else es)"
  by pat_completeness auto
termination by (relation "measure (\<lambda>(i, n, _). n - i)") auto

declare shift_loop.simps [simp del]

definition pkg_remove :: "(u32 \<Rightarrow> 'd vfs_ops_t) \<Rightarrow> pkg_locals \<Rightarrow> cstring \<Rightarrow> 'd pkg_state \<Rightarrow> int \<times> 'd pkg_state" where
  "pkg_remove ops l name s =
     (let (count, entries, v) = db_load ops (loc_entries l) PKG_MAX_ENTRIES (pkg_vfs s) in
      case first_entry (\<lambda>e. str_eq (pkg_name e) name) (take count entries) of
        None \<Rightarrow> (- 1, s\<lparr>pkg_vfs := v\<rparr>)
      | Some found \<Rightarrow>
          let entries = shift_loop found (count - 1) entries;
              t = snd (unregister_command name (pkg_dyn s));
              (r, v) = db_save ops entries (count - 1) v
          in (r, \<lparr>pkg_vfs = v, pkg_dyn = t\<rparr>))"

definition pkg_list :: "(u32 \<Rightarrow> 'd vfs_ops_t) \<Rightarrow> pkg_entry_t list \<Rightarrow> int \<Rightarrow> 'd pkg_state \<Rightarrow> nat \<times> pkg_entry_t list \<times> 'd pkg_state" where
  "pkg_list ops out mx s = (let (count, out, v) = db_load ops out (nat mx) (pkg_vfs s) in (count, out, s\<lparr>pkg_vfs := v\<rparr>))"

section \<open>Encoding\<close>

definition entry_wf :: "pkg_entry_t \<Rightarrow> bool" where
  "entry_wf e \<longleftrightarrow> length (pkg_name e) = 32 \<and> length (pkg_path e) = 64"

lemma encode_length [simp]: "entry_wf e \<Longrightarrow> length (encode_entry e) = 100"
  by (simp add: encode_entry_def entry_wf_def le_bytes_def)

lemma decode_encode: "entry_wf e \<Longrightarrow> decode_entry (encode_entry e) = e"
  by (cases e) (simp add: decode_entry_def encode_entry_def entry_wf_def le_word_bytes)

section \<open>The record file on a driver that stores bytes\<close>

definition db_file :: "(u32 \<Rightarrow> 'd vfs_ops_t) \<Rightarrow> ('d \<Rightarrow> u32 \<Rightarrow> cstring) \<Rightarrow> nat \<Rightarrow> cstring \<Rightarrow> 'd vfs \<Rightarrow> bool" where
  "db_file ops content n c v \<longleftrightarrow> vfs_ok v \<and> n < 128 \<and> vfs_lookup (Some PKG_DB_PATH) v = Some n \<and>
     node_ops (vfs_nodes v ! n) \<noteq> 0 \<and> stores (ops (node_ops (vfs_nodes v ! n))) content \<and>
     content (vfs_device v) (inode_id (vfs_nodes v ! n)) = c \<and> node_size (vfs_nodes v ! n) = of_nat (length c) \<and> length c < 2 ^ 31"

definition record_at :: "cstring \<Rightarrow> nat \<Rightarrow> pkg_entry_t" where
  "record_at c i = decode_entry (take 100 (drop (100 * i) c))"

definition records :: "cstring \<Rightarrow> pkg_entry_t list" where
  "records c = map (record_at c) [0..<length c div 100]"

text \<open>The file offset of record \<open>i\<close>.\<close>

definition rec_file :: "nat \<Rightarrow> nat \<Rightarrow> vfs_file_t" where
  "rec_file n i = \<lparr>file_node = Some n, file_offset = of_nat (100 * i), file_flags = 0\<rparr>"

lemma rec_file_open: "db_file ops content n c v \<Longrightarrow> vfs_open (Some PKG_DB_PATH) f v = (0, rec_file n 0)"
  by (simp add: db_file_def vfs_open_def rec_file_def)

lemma unat_rec: "100 * i < 2 ^ 31 \<Longrightarrow> unat (of_nat (100 * i) :: u32) = 100 * i"
  by (rule unat_of_nat_u32) simp

lemma read_record:
  assumes db: "db_file ops content n c v" and i: "100 * i + 100 \<le> length c"
  shows "vfs_read ops (rec_file n i) 100 v = (100, take 100 (drop (100 * i) c), rec_file n (i + 1), v)"
proof -
  have len: "length (vfs_nodes v) = 128" "length c < 2 ^ 31" using db by (simp_all add: db_file_def vfs_ok_def)
  have u: "unat (of_nat (length c) :: u32) = length c" "unat (of_nat (100 * i) :: u32) = 100 * i"
    using len i by (auto intro!: unat_of_nat_u32 simp del: of_nat_mult)
  have sum: "unat (of_nat (100 * i) + 100 :: u32) = 100 * i + 100"
    using i len u by (subst unat_add_nowrap) (simp_all del: of_nat_mult)
  have rq: "read_request (of_nat (length c)) (of_nat (100 * i)) 100 = 100"
    using i u sum by (simp add: read_request_def word_less_nat_alt del: of_nat_mult)
  have lt: "(of_nat (100 * i) :: u32) < of_nat (length c)" using i u by (simp add: word_less_nat_alt del: of_nat_mult)
  have "vfs_read ops (rec_file n i) 100 v = (int (length (take 100 (drop (100 * i) c))), take 100 (drop (100 * i) c),
      (rec_file n i)\<lparr>file_offset := of_nat (100 * i) + of_nat (length (take 100 (drop (100 * i) c)))\<rparr>, v)"
    using stores_read [of ops v n content "rec_file n i" "take 100 (drop (100 * i) c)" 100] db len rq lt u
    by (simp add: rec_file_def db_file_def del: of_nat_mult)
  moreover have "length (take 100 (drop (100 * i) c)) = 100" using i by simp
  ultimately show ?thesis by (simp add: rec_file_def)
qed

lemma read_tail:
  assumes db: "db_file ops content n c v" and i: "100 * i \<le> length c" "length c < 100 * i + 100"
  shows "\<exists>m data f. vfs_read ops (rec_file n i) 100 v = (m, data, f, v) \<and> m \<noteq> 100"
proof -
  have len: "length (vfs_nodes v) = 128" "length c < 2 ^ 31" using db by (simp_all add: db_file_def vfs_ok_def)
  have u: "unat (of_nat (length c) :: u32) = length c" "unat (of_nat (100 * i) :: u32) = 100 * i"
    using len i by (auto intro!: unat_of_nat_u32 simp del: of_nat_mult)
  show ?thesis
  proof (cases "100 * i = length c")
    case True
    obtain rd where "op_read (ops (node_ops (vfs_nodes v ! n))) = Some rd" using db by (auto simp: db_file_def stores_def)
    then have "vfs_read ops (rec_file n i) 100 v = (0, [], rec_file n i, v)"
      using db True by (simp add: vfs_read_def rec_file_def db_file_def Let_def del: of_nat_mult)
    then show ?thesis by simp
  next
    case False
    then have lt: "(of_nat (100 * i) :: u32) < of_nat (length c)" using i u by (simp add: word_less_nat_alt del: of_nat_mult)
    let ?b = "take (unat (read_request (of_nat (length c)) (of_nat (100 * i)) 100)) (drop (100 * i) c)"
    have "vfs_read ops (rec_file n i) 100 v = (int (length ?b), ?b, (rec_file n i)\<lparr>file_offset := of_nat (100 * i) + of_nat (length ?b)\<rparr>, v)"
      using stores_read [of ops v n content "rec_file n i" ?b 100] db len lt u
      by (simp add: rec_file_def db_file_def del: of_nat_mult)
    moreover have "length ?b < 100" using i(2) by simp
    ultimately show ?thesis by fastforce
  qed
qed

lemma db_load_loop_eq:
  assumes db: "db_file ops content n c v" and i: "i \<le> length c div 100" "i + k \<le> length out"
  shows "\<exists>out'. db_load_loop ops k (rec_file n i) out i v = (min (i + k) (length c div 100), out', v) \<and>
    length out' = length out \<and>
    take (min (i + k) (length c div 100)) out' = take i out @ map (record_at c) [i..<min (i + k) (length c div 100)]"
  using i
proof (induction k arbitrary: i out)
  case (Suc k)
  let ?q = "length c div 100"
  show ?case
  proof (cases "i < ?q")
    case True
    then have len: "100 * i + 100 \<le> length c" by linarith
    let ?d = "take 100 (drop (100 * i) c)"
    let ?out = "out[i := decode_entry (?d @ drop (length ?d) (encode_entry (out ! i)))]"
    have dec: "decode_entry (?d @ xs) = record_at c i" for xs
      using len by (simp add: record_at_def decode_entry_def le_word_def at_def nth_append)
    have rec: "db_load_loop ops (Suc k) (rec_file n i) out i v = db_load_loop ops k (rec_file n (Suc i)) ?out (Suc i) v"
      using read_record [OF db len] by simp
    have pre: "take (Suc i) ?out = take i out @ [record_at c i]"
      using Suc.prems True by (simp add: take_Suc_conv_app_nth dec)
    have up: "[i..<min (i + Suc k) ?q] = i # [Suc i..<min (Suc i + k) ?q]" using True by (simp add: upt_conv_Cons)
    show ?thesis using Suc.IH [of "Suc i" ?out] Suc.prems True unfolding rec up pre by simp
  next
    case False
    then have i: "i = ?q" using Suc.prems by simp
    then have "100 * i \<le> length c" "length c < 100 * i + 100" by (simp_all add: dividend_less_times_div)
    then obtain m data f where "vfs_read ops (rec_file n i) 100 v = (m, data, f, v)" "m \<noteq> 100"
      using read_tail [OF db] by blast
    then show ?thesis using i Suc.prems by simp
  qed
qed simp

text \<open>Loading gives the records the file holds.\<close>

lemma db_load_records:
  assumes db: "db_file ops content n c v" and out: "k \<le> length out"
  shows "\<exists>out'. db_load ops out k v = (min k (length c div 100), out', v) \<and> length out' = length out \<and>
    take (min k (length c div 100)) out' = take k (records c)"
proof -
  have "vfs_exists (Some PKG_DB_PATH) v" using db by (simp add: db_file_def vfs_exists_def)
  then have "db_load ops out k v = db_load_loop ops k (rec_file n 0) out 0 v"
    using rec_file_open [OF db] by (simp add: db_load_def)
  moreover have "take k (records c) = map (record_at c) [0..<min k (length c div 100)]"
    by (cases "k \<le> length c div 100") (simp_all add: records_def take_map take_upt)
  ultimately show ?thesis using db_load_loop_eq [OF db, of 0 k out] out by simp
qed

lemma write_record:
  assumes db: "db_file ops content n c v" and i: "100 * i \<le> length c" "100 * i + 100 < 2 ^ 31" and e: "entry_wf e"
  shows "\<exists>v'. vfs_write ops (rec_file n i) (encode_entry e) v = (100, rec_file n (i + 1), v') \<and>
    db_file ops content n (overwrite (100 * i) (encode_entry e) c) v'"
proof -
  let ?b = "encode_entry e" and ?node = "vfs_nodes v ! n"
  have len: "length (vfs_nodes v) = 128" "length c < 2 ^ 31" "length ?b = 100"
    using db e by (simp_all add: db_file_def vfs_ok_def)
  have ne: "?b \<noteq> []" using len(3) by auto
  have u: "unat (of_nat (100 * i) :: u32) = 100 * i" using i by (intro unat_rec) simp
  have uc: "unat (of_nat (length c) :: u32) = length c" using len by (intro unat_of_nat_u32) simp
  let ?sz = "max (length c) (100 * i + 100)"
  obtain d' where w: "vfs_write ops (rec_file n i) ?b v = (100, (rec_file n i)\<lparr>file_offset := of_nat (100 * i + 100)\<rparr>,
      v\<lparr>vfs_nodes := (vfs_nodes v)[n := ?node\<lparr>node_size := of_nat ?sz\<rparr>], vfs_device := d'\<rparr>)"
    and c: "content d' (inode_id ?node) = overwrite (100 * i) ?b c"
    using stores_write [of ops v n content "rec_file n i" ?b] db len ne i u uc
    by (auto simp: db_file_def rec_file_def simp del: of_nat_mult of_nat_add)
  have ol: "length (overwrite (100 * i) ?b c) = ?sz" using i len by (simp add: overwrite_def)
  have "db_file ops content n (overwrite (100 * i) ?b c)
      (v\<lparr>vfs_nodes := (vfs_nodes v)[n := ?node\<lparr>node_size := of_nat ?sz\<rparr>], vfs_device := d'\<rparr>)"
    using db c i len ol unfolding db_file_def by (simp add: vfs_lookup_node_size) (simp add: vfs_ok_def)
  moreover have "(rec_file n i)\<lparr>file_offset := of_nat (100 * i + 100)\<rparr> = rec_file n (i + 1)" by (simp add: rec_file_def)
  ultimately show ?thesis using w by auto
qed

lemma db_save_loop_eq:
  assumes "db_file ops content n c v" "100 * i \<le> length c" "100 * (i + length es) < 2 ^ 31" "\<forall>e \<in> set es. entry_wf e"
  shows "\<exists>v'. db_save_loop ops es (rec_file n i) v = (0, v') \<and>
    db_file ops content n (overwrite (100 * i) (concat (map encode_entry es)) c) v'"
  using assms
proof (induction es arbitrary: c v i)
  case Nil
  then show ?case by (simp add: overwrite_def)
next
  case (Cons e es)
  let ?c = "overwrite (100 * i) (encode_entry e) c"
  have e: "length (encode_entry e) = 100" using Cons.prems by simp
  obtain v1 where w: "vfs_write ops (rec_file n i) (encode_entry e) v = (100, rec_file n (i + 1), v1)"
    and db1: "db_file ops content n ?c v1"
    using write_record [OF Cons.prems(1,2), of e] Cons.prems by auto
  have "100 * (i + 1) \<le> length ?c" using Cons.prems(2) e by (simp add: overwrite_def)
  then obtain v' where "db_save_loop ops es (rec_file n (i + 1)) v1 = (0, v')"
    "db_file ops content n (overwrite (100 * (i + 1)) (concat (map encode_entry es)) ?c) v'"
    using Cons.IH [OF db1, of "i + 1"] Cons.prems(3,4) by auto
  moreover have "overwrite (100 * (i + 1)) (concat (map encode_entry es)) ?c =
      overwrite (100 * i) (concat (map encode_entry (e # es))) c"
    using Cons.prems(2) e by (simp add: overwrite_def ac_simps)
  ultimately show ?case using w by simp
qed

section \<open>Properties of the package manager\<close>

lemma concat_encode_length: "\<forall>e \<in> set es. entry_wf e \<Longrightarrow> length (concat (map encode_entry es)) = 100 * length es"
  by (induction es) auto

lemma record_at_encoded:
  "\<forall>e \<in> set es. entry_wf e \<Longrightarrow> i < length es \<Longrightarrow> record_at (concat (map encode_entry es) @ rest) i = es ! i"
proof (induction es arbitrary: i)
  case (Cons e es)
  then show ?case
    by (cases i) (auto simp: record_at_def decode_encode algebra_simps)
qed simp

lemma records_overwrite:
  assumes "\<forall>e \<in> set es. entry_wf e"
  shows "records (overwrite 0 (concat (map encode_entry es)) c) = es @ drop (length es) (records c)"
proof (rule nth_equalityI)
  let ?E = "concat (map encode_entry es)" and ?n = "length es"
  have L: "length ?E = 100 * ?n" by (rule concat_encode_length [OF assms])
  have "length (overwrite 0 ?E c) = max (100 * ?n) (length c)" using L by (simp add: overwrite_def)
  moreover have "max (100 * ?n) (length c) div 100 = max ?n (length c div 100)"
    by (cases "100 * ?n \<le> length c") (auto simp: max_def div_le_mono)
  ultimately show len: "length (records (overwrite 0 ?E c)) = length (es @ drop ?n (records c))"
    by (simp add: records_def)
  fix i assume i: "i < length (records (overwrite 0 ?E c))"
  have ri: "records (overwrite 0 ?E c) ! i = record_at (overwrite 0 ?E c) i" using i by (simp add: records_def)
  show "records (overwrite 0 ?E c) ! i = (es @ drop ?n (records c)) ! i"
  proof (cases "i < ?n")
    case True
    then show ?thesis using record_at_encoded [OF assms True] unfolding ri by (simp add: overwrite_def nth_append)
  next
    case False
    then have "drop (100 * i) (overwrite 0 ?E c) = drop (100 * i) c" using L by (simp add: overwrite_def)
    then have "record_at (overwrite 0 ?E c) i = record_at c i" by (simp add: record_at_def)
    then show ?thesis using False i len unfolding ri by (simp add: nth_append records_def)
  qed
qed

lemma db_save_records:
  assumes db: "db_file ops content n c v" and wf: "\<forall>e \<in> set (take k es). entry_wf e" and k: "k \<le> 64" "k \<le> length es"
  shows "\<exists>v' c'. db_save ops es k v = (0, v') \<and> db_file ops content n c' v' \<and>
    records c' = take k es @ drop k (records c)"
proof -
  obtain v' where "db_save_loop ops (take k es) (rec_file n 0) v = (0, v')"
    "db_file ops content n (overwrite 0 (concat (map encode_entry (take k es))) c) v'"
    using db_save_loop_eq [OF db, of 0 "take k es"] wf k by auto
  then show ?thesis using rec_file_open [OF db] records_overwrite [OF wf] k by (auto simp: db_save_def)
qed

text \<open>C25. On a driver that stores bytes, saving a list of records and loading it again gives the list
  back, followed by whatever records the file held beyond it: the file never gets shorter.\<close>

theorem pkg_db_roundtrip:
  assumes db: "db_file ops content n c v" and wf: "\<forall>e \<in> set es. entry_wf e" and k: "length es \<le> 64" and out: "length out = 64"
  shows "\<exists>v' out'. db_save ops es (length es) v = (0, v') \<and>
    (let l = take 64 (es @ drop (length es) (records c)) in
     db_load ops out 64 v' = (length l, out', v') \<and> take (length l) out' = l)"
proof -
  obtain v' c' where s: "db_save ops es (length es) v = (0, v')" "db_file ops content n c' v'"
    "records c' = es @ drop (length es) (records c)"
    using db_save_records [OF db, of "length es" es] wf k by auto
  have "length (take 64 (records c')) = min 64 (length c' div 100)" by (simp add: records_def)
  then show ?thesis using s(1) db_load_records [OF s(2), of 64 out] out unfolding s(3) [symmetric] Let_def by auto
qed

lemma shift_loop_eq:
  assumes "i \<le> n" "n < length es"
  shows "take n (shift_loop i n es) = take i es @ drop (Suc i) (take (Suc n) es) \<and> length (shift_loop i n es) = length es"
  using assms
proof (induction "n - i" arbitrary: i es)
  case 0
  then show ?case by (subst (1 2) shift_loop.simps) simp
next
  case (Suc k)
  let ?es = "es[i := es ! Suc i]"
  have i: "i < n" "Suc i \<le> n" "i < length es" and k: "k = n - Suc i" using Suc.hyps(2) Suc.prems by auto
  have "drop (Suc i) (take (Suc n) es) = es ! Suc i # drop (Suc (Suc i)) (take (Suc n) es)"
    using i Suc.prems by (subst Cons_nth_drop_Suc [symmetric]) auto
  moreover have "take (Suc i) ?es = take i es @ [es ! Suc i]" using i by (simp add: take_Suc_conv_app_nth)
  moreover have "drop (Suc (Suc i)) (take (Suc n) ?es) = drop (Suc (Suc i)) (take (Suc n) es)" using i by (simp add: take_update_swap)
  ultimately show ?case using Suc.hyps(1) [OF k i(2), of ?es] i Suc.prems by (subst (1 2) shift_loop.simps) simp
qed

lemma records_wf: "e \<in> set (records c) \<Longrightarrow> entry_wf e"
proof -
  assume "e \<in> set (records c)"
  then obtain i where i: "i < length c div 100" "e = record_at c i" by (auto simp: records_def)
  then have "100 * i + 100 \<le> length c" by linarith
  then show ?thesis using i by (simp add: record_at_def decode_entry_def entry_wf_def)
qed


text \<open>A record file on the in-memory driver.\<close>

definition pkg_ram :: "cstring \<Rightarrow> (u32 \<Rightarrow> cstring) vfs" where
  "pkg_ram c = \<lparr>vfs_nodes = (vfs_nodes vfs_boot)[0 := \<lparr>node_name = PKG_DB_PATH, node_size = of_nat (length c),
     node_flags = VFS_FILE, inode_id = 7, priv_data = 0, node_ops = 1\<rparr>], vfs_node_count = 1, vfs_device = (\<lambda>_. c)\<rparr>"

lemma pkg_ram_db: "length c < 2 ^ 31 \<Longrightarrow> db_file ram_ops (\<lambda>d. d) 0 c (pkg_ram c)"
  using stores_ram [of 1]
  by (simp add: db_file_def pkg_ram_def vfs_ok_def vfs_boot_def vfs_lookup_def lookup_loop.simps strcmp_eq_0)

definition sample_entry :: pkg_entry_t where
  "sample_entry = \<lparr>pkg_name = lit ''hi'' @ replicate 30 0, pkg_path = lit ''/bin/hi'' @ replicate 57 0, pkg_size = 42\<rparr>"

lemma sample_wf: "entry_wf sample_entry"
  by (simp add: entry_wf_def sample_entry_def lit_def)

theorem pkg_db_roundtrip_witness:
  "\<exists>v' out'. db_save ram_ops [sample_entry] 1 (pkg_ram []) = (0, v') \<and>
     db_load ram_ops (replicate 64 sample_entry) 64 v' = (1, out', v') \<and> take 1 out' = [sample_entry]"
  using pkg_db_roundtrip [OF pkg_ram_db [of "[]"], of "[sample_entry]" "replicate 64 sample_entry"] sample_wf
  by (auto simp: records_def Let_def)


end
