(* ===== verification/Network.thy ===== *)
theory Network
  imports Sys_Io
begin

text \<open>
  \<open>net/netdev.h\<close> and \<open>net/network.c\<close>: the registered network card and the frame layer above it.
  A driver is a record of operations on a device state \<open>'d\<close>: sending takes the bytes of a
  frame, receiving takes the caller's buffer and returns it filled. A missing operation is the
  null function pointer. \<open>netdev_get_default\<close>, which no file of the tree defines, is the
  parameter \<open>default_dev\<close>.
\<close>

type_synonym ipv4_address_t = "u8 \<times> u8 \<times> u8 \<times> u8"

record 'd netdev_t =
  nd_name :: cstring
  nd_mac :: "u8 list"
  nd_send :: "('d \<Rightarrow> u8 list \<Rightarrow> int \<times> 'd) option"
  nd_recv :: "('d \<Rightarrow> u8 list \<Rightarrow> int \<times> u8 list \<times> 'd) option"
  nd_irq_handler :: "('d \<Rightarrow> 'd) option"

record 'd network =
  g_dev :: "'d netdev_t option"
  g_initialized :: bool
  g_ip :: ipv4_address_t
  g_frames_sent :: u32
  g_frames_received :: u32
  net_hw :: 'd
  net_out :: out

definition network_init :: "'d netdev_t option \<Rightarrow> ('d, 'z) network_scheme \<Rightarrow> int \<times> ('d, 'z) network_scheme" where
  "network_init default_dev n =
     (if g_initialized n then (0, n)
      else let n = n\<lparr>g_dev := default_dev\<rparr> in
        case g_dev n of
          None \<Rightarrow> (- 1, n\<lparr>net_out := io_print (line ''[net] no NIC registered'') (net_out n)\<rparr>)
        | Some d \<Rightarrow>
            let n = n\<lparr>g_initialized := True\<rparr>;
                n = n\<lparr>net_out := io_print (Some (lit ''[net] network layer up on '')) (net_out n)\<rparr>;
                n = n\<lparr>net_out := io_print (Some (nd_name d)) (net_out n)\<rparr>;
                n = n\<lparr>net_out := io_print (Some [10]) (net_out n)\<rparr>
            in (0, n))"

definition network_is_initialized :: "('d, 'z) network_scheme \<Rightarrow> bool" where
  "network_is_initialized n = g_initialized n"

text \<open>The result arguments are \<open>None\<close> for the null pointer, otherwise what they point to.\<close>

definition network_get_mac_address :: "u8 list option \<Rightarrow> ('d, 'z) network_scheme \<Rightarrow> int \<times> u8 list option" where
  "network_get_mac_address mac n =
     (case (g_dev n, mac) of
        (Some d, Some _) \<Rightarrow> if g_initialized n then (0, Some (map (\<lambda>i. nd_mac d ! i) [0..<6])) else (- 1, mac)
      | _ \<Rightarrow> (- 1, mac))"

definition network_get_ipv4_address :: "ipv4_address_t option \<Rightarrow> ('d, 'z) network_scheme \<Rightarrow> int \<times> ipv4_address_t option" where
  "network_get_ipv4_address ip n = (case ip of None \<Rightarrow> (- 1, None) | Some _ \<Rightarrow> (0, Some (g_ip n)))"

definition network_set_ipv4_address :: "ipv4_address_t option \<Rightarrow> ('d, 'z) network_scheme \<Rightarrow> int \<times> ('d, 'z) network_scheme" where
  "network_set_ipv4_address ip n = (case ip of None \<Rightarrow> (- 1, n) | Some a \<Rightarrow> (0, n\<lparr>g_ip := a\<rparr>))"

definition network_send_frame :: "u8 list \<Rightarrow> ('d, 'z) network_scheme \<Rightarrow> int \<times> ('d, 'z) network_scheme" where
  "network_send_frame data n =
     (case g_dev n of None \<Rightarrow> (- 1, n) | Some d \<Rightarrow>
      case nd_send d of None \<Rightarrow> (- 1, n) | Some snd_fn \<Rightarrow>
      if \<not> g_initialized n then (- 1, n)
      else let (ret, hw) = snd_fn (net_hw n) data; n = n\<lparr>net_hw := hw\<rparr>
           in (ret, if ret = 0 then n\<lparr>g_frames_sent := g_frames_sent n + 1\<rparr> else n))"

definition network_receive_frame :: "u8 list \<Rightarrow> ('d, 'z) network_scheme \<Rightarrow> int \<times> u8 list \<times> ('d, 'z) network_scheme" where
  "network_receive_frame buf n =
     (case g_dev n of None \<Rightarrow> (- 1, buf, n) | Some d \<Rightarrow>
      case nd_recv d of None \<Rightarrow> (- 1, buf, n) | Some recv_fn \<Rightarrow>
      if \<not> g_initialized n then (- 1, buf, n)
      else let (k, buf, hw) = recv_fn (net_hw n) buf; n = n\<lparr>net_hw := hw\<rparr>
           in (k, buf, if 0 < k then n\<lparr>g_frames_received := g_frames_received n + 1\<rparr> else n))"

definition network_on_frame_received :: "('d, 'z) network_scheme \<Rightarrow> ('d, 'z) network_scheme" where
  "network_on_frame_received n = n\<lparr>g_frames_received := g_frames_received n + 1\<rparr>"

definition network_get_frames_sent :: "('d, 'z) network_scheme \<Rightarrow> int" where
  "network_get_frames_sent n = sint (g_frames_sent n)"

definition network_get_frames_received :: "('d, 'z) network_scheme \<Rightarrow> int" where
  "network_get_frames_received n = sint (g_frames_received n)"

section \<open>Network contracts\<close>

text \<open>The layer is up on a card, and that card takes or hands over a frame in its present state.\<close>

definition net_up :: "('d, 'z) network_scheme \<Rightarrow> bool" where
  "net_up n \<longleftrightarrow> g_initialized n \<and> (\<exists>d. g_dev n = Some d \<and> nd_send d \<noteq> None \<and> nd_recv d \<noteq> None)"

definition takes_frame :: "('d, 'z) network_scheme \<Rightarrow> u8 list \<Rightarrow> 'd \<Rightarrow> bool" where
  "takes_frame n f hw \<longleftrightarrow> (\<exists>d s. g_initialized n \<and> g_dev n = Some d \<and> nd_send d = Some s \<and> s (net_hw n) f = (0, hw))"

definition hands_over :: "('d, 'z) network_scheme \<Rightarrow> u8 list \<Rightarrow> 'd \<Rightarrow> bool" where
  "hands_over n f hw \<longleftrightarrow> (\<exists>d r. g_initialized n \<and> g_dev n = Some d \<and> nd_recv d = Some r \<and>
     (\<forall>buf. length f \<le> length buf \<longrightarrow> r (net_hw n) buf = (int (length f), f @ drop (length f) buf, hw)))"

lemma network_send_frame_ok:
  "takes_frame n f hw \<Longrightarrow>
   network_send_frame f n = (0, n\<lparr>net_hw := hw, g_frames_sent := g_frames_sent n + 1\<rparr>)"
  by (auto simp: takes_frame_def network_send_frame_def)

lemma network_receive_frame_ok:
  "hands_over n f hw \<Longrightarrow> f \<noteq> [] \<Longrightarrow> length f \<le> length buf \<Longrightarrow>
   network_receive_frame buf n =
     (int (length f), f @ drop (length f) buf, n\<lparr>net_hw := hw, g_frames_received := g_frames_received n + 1\<rparr>)"
  by (auto simp: hands_over_def network_receive_frame_def)

lemma network_send_frame_counts:
  "network_send_frame f n = (ret, n') \<Longrightarrow>
   g_frames_sent n' = g_frames_sent n + (if ret = 0 then 1 else 0) \<and> g_frames_received n' = g_frames_received n \<and>
   g_dev n' = g_dev n \<and> g_ip n' = g_ip n \<and> g_initialized n' = g_initialized n"
  by (auto simp: network_send_frame_def Let_def split: option.splits prod.splits if_splits)

lemma network_init_up:
  assumes "\<not> g_initialized n" "network_init dv n = (r, n')"
  shows "r = (case dv of None \<Rightarrow> - 1 | Some _ \<Rightarrow> 0)" "g_initialized n' \<longleftrightarrow> dv \<noteq> None" "g_dev n' = dv"
  using assms by (auto simp: network_init_def Let_def split: option.splits)

text \<open>The promise of a driver's send operation: a frame of at most \<open>mtu\<close> bytes goes out once, after
  the earlier ones; a longer one is refused. \<open>frames\<close> lists what has gone out.\<close>

locale transmitter =
  fixes tx :: "'d \<Rightarrow> u8 list \<Rightarrow> int \<times> 'd"
    and frames :: "'d \<Rightarrow> u8 list list"
    and mtu :: nat
  assumes tx_ok: "length f \<le> mtu \<Longrightarrow> \<exists>d'. tx d f = (0, d') \<and> frames d' = frames d @ [f]"
    and tx_long: "mtu < length f \<Longrightarrow> tx d f = (- 1, d)"
begin

lemma network_sends:
  assumes "g_dev n = Some d" "nd_send d = Some tx" "g_initialized n" "length f \<le> mtu"
  shows "\<exists>n'. network_send_frame f n = (0, n') \<and> frames (net_hw n') = frames (net_hw n) @ [f] \<and>
    g_dev n' = Some d \<and> g_initialized n' \<and> g_frames_sent n' = g_frames_sent n + 1"
  using tx_ok [OF assms(4), of "net_hw n"] assms(1-3) by (fastforce simp: network_send_frame_def)

lemma network_refuses:
  assumes "g_dev n = Some d" "nd_send d = Some tx" "g_initialized n" "mtu < length f"
  shows "network_send_frame f n = (- 1, n)"
  using tx_long [OF assms(4)] assms(1-3) by (simp add: network_send_frame_def)

end

end
