(* ===== verification/Tcp.thy ===== *)
theory Tcp
  imports Network
begin

text \<open>
  \<open>net/tcp.c\<close> and \<open>tcp.h\<close>: one TCP connection over the frame layer. Headers are packed
  structures on a little-endian machine, so a field without byte swap lies in memory with its
  low byte first. Local buffers are byte lists; the initial contents of the receive buffer
  on the stack are the parameter \<open>frame0\<close>, and a read outside that buffer is \<open>None\<close>.
\<close>

section \<open>Data\<close>

datatype tcp_state_t = TCP_CLOSED | TCP_SYN_SENT | TCP_ESTABLISHED | TCP_FIN_WAIT | TCP_CLOSING

record tcp_conn_t =
  conn_state :: tcp_state_t
  remote_ip :: ipv4_address_t
  remote_port :: u16
  local_port :: u16
  conn_seq :: u32
  conn_ack :: u32

abbreviation (input) TCP_FLAG_SYN :: u8 where "TCP_FLAG_SYN \<equiv> 0x02"
abbreviation (input) TCP_FLAG_ACK :: u8 where "TCP_FLAG_ACK \<equiv> 0x10"
abbreviation (input) TCP_FLAG_FIN :: u8 where "TCP_FLAG_FIN \<equiv> 0x01"
abbreviation (input) TCP_FLAG_PSH :: u8 where "TCP_FLAG_PSH \<equiv> 0x08"

record ipv4_hdr_t =
  ver_ihl :: u8
  tos :: u8
  total_len :: u16
  ip_id :: u16
  flags_frag :: u16
  ttl :: u8
  proto :: u8
  ip_checksum :: u16
  src_ip :: u32
  dst_ip :: u32

record tcp_hdr_t =
  src_port :: u16
  dst_port :: u16
  hdr_seq :: u32
  hdr_ack :: u32
  data_offset :: u8
  hdr_flags :: u8
  window :: u16
  tcp_checksum :: u16
  urgent :: u16

text \<open>The memory images of the two packed structures, and reading them at an offset of a buffer.\<close>

definition ipv4_bytes :: "ipv4_hdr_t \<Rightarrow> u8 list" where
  "ipv4_bytes h = [ver_ihl h, tos h] @ le16 (total_len h) @ le16 (ip_id h) @ le16 (flags_frag h) @ [ttl h, proto h] @
     le16 (ip_checksum h) @ le_bytes (src_ip h) @ le_bytes (dst_ip h)"

definition tcp_bytes :: "tcp_hdr_t \<Rightarrow> u8 list" where
  "tcp_bytes h = le16 (src_port h) @ le16 (dst_port h) @ le_bytes (hdr_seq h) @ le_bytes (hdr_ack h) @
     [data_offset h, hdr_flags h] @ le16 (window h) @ le16 (tcp_checksum h) @ le16 (urgent h)"

definition load_ipv4 :: "u8 list \<Rightarrow> ipv4_hdr_t" where
  "load_ipv4 b = \<lparr>ver_ihl = at b 0, tos = at b 1, total_len = le16_word (drop 2 b), ip_id = le16_word (drop 4 b),
     flags_frag = le16_word (drop 6 b), ttl = at b 8, proto = at b 9, ip_checksum = le16_word (drop 10 b),
     src_ip = le_word (drop 12 b), dst_ip = le_word (drop 16 b)\<rparr>"

definition load_tcp :: "u8 list \<Rightarrow> tcp_hdr_t" where
  "load_tcp b = \<lparr>src_port = le16_word b, dst_port = le16_word (drop 2 b), hdr_seq = le_word (drop 4 b),
     hdr_ack = le_word (drop 8 b), data_offset = at b 12, hdr_flags = at b 13, window = le16_word (drop 14 b),
     tcp_checksum = le16_word (drop 16 b), urgent = le16_word (drop 18 b)\<rparr>"

abbreviation (input) sizeof_ipv4_hdr :: nat where "sizeof_ipv4_hdr \<equiv> 20"
abbreviation (input) sizeof_tcp_hdr :: nat where "sizeof_tcp_hdr \<equiv> 20"

record 'd tcp_net = "'d network" +
  g_next_local_port :: u16

section \<open>Operations\<close>

definition hton16 :: "u16 \<Rightarrow> u16" where
  "hton16 v = push_bit 8 v OR drop_bit 8 v"

definition ip_to_u32 :: "ipv4_address_t \<Rightarrow> u32" where
  "ip_to_u32 ip = (case ip of (b0, b1, b2, b3) \<Rightarrow>
     push_bit 24 (ucast b0) OR push_bit 16 (ucast b1) OR push_bit 8 (ucast b2) OR ucast b3)"

text \<open>The bytes the segment occupies in the buffer; the payload is its \<open>payload_len\<close> bytes.\<close>

definition build_tcp_segment :: "tcp_conn_t \<Rightarrow> u8 \<Rightarrow> u8 list \<Rightarrow> u8 list" where
  "build_tcp_segment c flags payload =
     (let payload_len = of_nat (length payload) :: u16;
          ip = \<lparr>ver_ihl = 0x45, tos = 0, total_len = hton16 (20 + 20 + payload_len), ip_id = 0, flags_frag = 0,
                ttl = 64, proto = 6, ip_checksum = 0, src_ip = 0,
                dst_ip = push_bit 16 (ucast (hton16 (ucast (ip_to_u32 (remote_ip c))))) OR
                         ucast (hton16 (ucast (drop_bit 16 (ip_to_u32 (remote_ip c)))))\<rparr>;
          tcp = \<lparr>src_port = hton16 (local_port c), dst_port = hton16 (remote_port c), hdr_seq = conn_seq c,
                 hdr_ack = conn_ack c, data_offset = push_bit 4 (20 div 4), hdr_flags = flags,
                 window = hton16 4096, tcp_checksum = 0, urgent = 0\<rparr>
      in ipv4_bytes ip @ tcp_bytes tcp @ payload)"

definition tcp_connect :: "tcp_conn_t \<Rightarrow> ipv4_address_t \<Rightarrow> u16 \<Rightarrow> 'd tcp_net \<Rightarrow> int \<times> tcp_conn_t \<times> 'd tcp_net" where
  "tcp_connect c ip port n =
     (let c = c\<lparr>conn_state := TCP_SYN_SENT, remote_ip := ip, remote_port := port, local_port := g_next_local_port n\<rparr>;
          n = n\<lparr>g_next_local_port := g_next_local_port n + 1\<rparr>;
          c = c\<lparr>conn_seq := 1, conn_ack := 0\<rparr>;
          (ret, n) = network_send_frame (build_tcp_segment c TCP_FLAG_SYN []) n
      in if ret \<noteq> 0 then (- 1, c\<lparr>conn_state := TCP_CLOSED\<rparr>, n) else (0, c, n))"

definition tcp_send :: "tcp_conn_t \<Rightarrow> u8 list \<Rightarrow> 'd tcp_net \<Rightarrow> int \<times> tcp_conn_t \<times> 'd tcp_net" where
  "tcp_send c data n =
     (if conn_state c \<noteq> TCP_ESTABLISHED then (- 1, c, n)
      else let data = take 1024 data;
               (ret, n) = network_send_frame (build_tcp_segment c (TCP_FLAG_ACK OR TCP_FLAG_PSH) data) n
           in (ret, if ret = 0 then c\<lparr>conn_seq := conn_seq c + of_nat (length data)\<rparr> else c, n))"

definition tcp_on_frame :: "tcp_conn_t \<Rightarrow> u8 list \<Rightarrow> u32 \<Rightarrow> 'd tcp_net \<Rightarrow> tcp_conn_t \<times> 'd tcp_net" where
  "tcp_on_frame c frame len n =
     (if len < of_nat (sizeof_ipv4_hdr + sizeof_tcp_hdr) then (c, n)
      else let tcp = load_tcp (drop sizeof_ipv4_hdr frame)
           in if conn_state c = TCP_SYN_SENT \<and> hdr_flags tcp AND (TCP_FLAG_SYN OR TCP_FLAG_ACK) \<noteq> 0
              then let c = c\<lparr>conn_ack := hdr_seq tcp + 1, conn_seq := conn_seq c + 1, conn_state := TCP_ESTABLISHED\<rparr>;
                       (_, n) = network_send_frame (build_tcp_segment c TCP_FLAG_ACK []) n
                   in (c, n)
              else if hdr_flags tcp AND TCP_FLAG_FIN \<noteq> 0 then (c\<lparr>conn_state := TCP_CLOSING\<rparr>, n)
              else (c, n))"

function tcp_copy :: "nat \<Rightarrow> nat \<Rightarrow> u8 list \<Rightarrow> u8 list \<Rightarrow> u8 list option" where
  "tcp_copy i payload_len frame buf =
     (if i < payload_len then
        (if 40 + i < length frame then tcp_copy (i + 1) payload_len frame (buf[i := frame ! (40 + i)]) else None)
      else Some buf)"
  by pat_completeness auto
termination
  by (relation "measure (\<lambda>(i, k, _). k - i)") auto

declare tcp_copy.simps [simp del]

definition tcp_recv :: "tcp_conn_t \<Rightarrow> u8 list \<Rightarrow> u8 list \<Rightarrow> 'd tcp_net \<Rightarrow> (int \<times> u8 list \<times> tcp_conn_t \<times> 'd tcp_net) option" where
  "tcp_recv c buf frame0 n =
     (if conn_state c \<noteq> TCP_ESTABLISHED then Some (- 1, buf, c, n)
      else let (k, frame, n) = network_receive_frame frame0 n
           in if k \<le> 0 then Some (0, buf, c, n)
              else let (c, n) = tcp_on_frame c frame (word_of_int k) n;
                       payload_len = hton16 (total_len (load_ipv4 frame)) - 40
                   in if payload_len = 0 \<or> unat payload_len > length buf then Some (0, buf, c, n)
                      else case tcp_copy 0 (unat payload_len) frame buf of
                             None \<Rightarrow> None
                           | Some buf \<Rightarrow> Some (uint payload_len, buf, c\<lparr>conn_ack := conn_ack c + ucast payload_len\<rparr>, n))"

definition tcp_close :: "tcp_conn_t \<Rightarrow> 'd tcp_net \<Rightarrow> tcp_conn_t \<times> 'd tcp_net" where
  "tcp_close c n =
     (if conn_state c \<noteq> TCP_ESTABLISHED then (c\<lparr>conn_state := TCP_CLOSED\<rparr>, n)
      else let (_, n) = network_send_frame (build_tcp_segment c (TCP_FLAG_FIN OR TCP_FLAG_ACK) []) n
           in (c\<lparr>conn_state := TCP_CLOSED\<rparr>, n))"

section \<open>The bytes of a segment\<close>

lemma le_lengths [simp]: "length (le16 v) = 2" "length (le_bytes w) = 4"
  by (simp_all add: le16_def le_bytes_def)

lemma le_append [simp]: "le16_word (le16 v @ r) = v" "le_word (le_bytes w @ r) = w"
  using le16_word_bytes [of v] le_word_bytes [of w]
  by (simp_all add: le16_word_def le_word_def le16_def le_bytes_def at_def)

lemma hdr_lengths [simp]: "length (ipv4_bytes h) = 20" "length (tcp_bytes t) = 20"
  by (simp_all add: ipv4_bytes_def tcp_bytes_def)

lemma load_ipv4_bytes: "load_ipv4 (ipv4_bytes h @ r) = h"
  by (cases h) (simp add: load_ipv4_def ipv4_bytes_def at_def nth_append)

lemma load_tcp_bytes: "load_tcp (tcp_bytes t @ r) = t"
  by (cases t) (simp add: load_tcp_def tcp_bytes_def at_def nth_append)

lemma hton16_hton16 [simp]: "hton16 (hton16 v) = v"
proof (rule bit_word_eqI)
  fix n assume "n < LENGTH(16)"
  then show "bit (hton16 (hton16 v)) n = bit v n" by (auto simp: hton16_def bit_simps)
qed

lemma length_segment [simp]: "length (build_tcp_segment c fl pl) = 40 + length pl"
  by (simp add: build_tcp_segment_def Let_def)

lemma segment_headers:
  "total_len (load_ipv4 (build_tcp_segment c fl pl @ r)) = hton16 (40 + of_nat (length pl))"
  "hdr_flags (load_tcp (drop 20 (build_tcp_segment c fl pl @ r))) = fl"
  "hdr_seq (load_tcp (drop 20 (build_tcp_segment c fl pl @ r))) = conn_seq c"
  "drop 40 (build_tcp_segment c fl pl) = pl"
  by (simp_all add: build_tcp_segment_def Let_def load_ipv4_bytes load_tcp_bytes)

text \<open>Network byte order: the most significant byte first.\<close>

definition be16_at :: "u8 list \<Rightarrow> nat \<Rightarrow> nat" where
  "be16_at b i = 256 * unat (b ! i) + unat (b ! (i + 1))"

definition be32_at :: "u8 list \<Rightarrow> nat \<Rightarrow> nat" where
  "be32_at b i = 65536 * be16_at b i + be16_at b (i + 2)"

lemma be16_hton16: "256 * unat (le16 (hton16 v) ! 0) + unat (le16 (hton16 v) ! 1) = unat v"
proof -
  have "ucast (hton16 v) = (ucast (drop_bit 8 v) :: u8)" "ucast (drop_bit 8 (hton16 v)) = (ucast v :: u8)"
    by (rule bit_word_eqI, auto simp: hton16_def bit_simps)+
  moreover have "unat (ucast (drop_bit 8 v) :: u8) = unat v div 256"
    using unat_u16_less [of v] by (simp add: unsigned_ucast_eq drop_bit_eq_div unat_div take_bit_eq_mod del: unat_u16_less)
  moreover have "unat (ucast v :: u8) = unat v mod 256" by (simp add: unsigned_ucast_eq take_bit_eq_mod)
  ultimately show ?thesis by (simp add: le16_def)
qed

lemma segment_split:
  "build_tcp_segment c fl pl = ([0x45, 0] @ le16 (hton16 (40 + of_nat (length pl))) @ [0, 0, 0, 0, 64, 6, 0, 0, 0, 0, 0, 0] @
     (case remote_ip c of (b0, b1, b2, b3) \<Rightarrow> [b0, b1, b2, b3])) @
     (le16 (hton16 (local_port c)) @ le16 (hton16 (remote_port c)) @ le_bytes (conn_seq c) @ le_bytes (conn_ack c) @
     [0x50, fl, 0x10, 0, 0, 0, 0, 0]) @ pl"
proof -
  obtain b0 b1 b2 b3 where ip: "remote_ip c = (b0, b1, b2, b3)" by (metis prod.exhaust)
  let ?a = "ip_to_u32 (b0, b1, b2, b3)"
  have "le_bytes (push_bit 16 (ucast (hton16 (ucast ?a))) OR ucast (hton16 (ucast (drop_bit 16 ?a)))) = [b0, b1, b2, b3]"
    unfolding le_bytes_def list.inject
    by (intro conjI refl; rule bit_word_eqI) (auto simp: ip_to_u32_def hton16_def bit_simps dest: bit_imp_le_length)
  moreover have "le16 (hton16 4096) = [0x10, 0]" by code_simp
  ultimately show ?thesis
    by (simp add: build_tcp_segment_def ipv4_bytes_def tcp_bytes_def ip le16_def [of 0] le_bytes_def [of 0])
qed

lemma be16_at_append: "be16_at (xs @ le16 (hton16 v) @ ys) (length xs) = unat v"
  using be16_hton16 [of v] by (simp add: be16_at_def nth_append)

lemma segment_be16:
  "length pl < 65496 \<Longrightarrow> be16_at (build_tcp_segment c fl pl) 2 = 40 + length pl"
  "be16_at (build_tcp_segment c fl pl) 20 = unat (local_port c)"
  "be16_at (build_tcp_segment c fl pl) 22 = unat (remote_port c)"
proof -
  assume l: "length pl < 65496"
  have "unat (40 + of_nat (length pl) :: u16) = unat (of_nat (40 + length pl) :: u16)" by simp
  also have "\<dots> = 40 + length pl" using l by (simp only: unat_of_nat take_bit_eq_mod) simp
  finally show "be16_at (build_tcp_segment c fl pl) 2 = 40 + length pl"
    using be16_at_append [of "[0x45, 0]" "40 + of_nat (length pl)"]
    by (simp add: segment_split numeral_2_eq_2)
next
  let ?p = "[0x45, 0] @ le16 (hton16 (40 + of_nat (length pl))) @ [0, 0, 0, 0, 64, 6, 0, 0, 0, 0, 0, 0] @
     (case remote_ip c of (b0, b1, b2, b3) \<Rightarrow> [b0, b1, b2, b3])"
  have l: "length ?p = 20" by (simp split: prod.split)
  show "be16_at (build_tcp_segment c fl pl) 20 = unat (local_port c)"
    using be16_at_append [of ?p "local_port c"] unfolding segment_split append_assoc l by (simp only: append_assoc)
  have l: "length (?p @ le16 (hton16 (local_port c))) = 22" by (simp split: prod.split)
  show "be16_at (build_tcp_segment c fl pl) 22 = unat (remote_port c)"
    using be16_at_append [of "?p @ le16 (hton16 (local_port c))" "remote_port c"]
    unfolding segment_split append_assoc l [unfolded append_assoc] by (simp only: append_assoc)
qed

text \<open>A segment built by \<open>build_tcp_segment\<close> carries its length, both ports and the remote
  address in network byte order, then the flags, then the payload; but the sequence and
  acknowledgement numbers lie with the least significant byte first, so the number 1 that every
  connection starts with reads as 16777216 on the other side.\<close>

lemma tcp_segment_wire:
  assumes "length payload < 65496" and "remote_ip c = (b0, b1, b2, b3)"
    and seg: "seg = build_tcp_segment c flags payload"
  shows "be16_at seg 2 = 40 + length payload \<and> take 4 (drop 16 seg) = [b0, b1, b2, b3] \<and>
    be16_at seg 20 = unat (local_port c) \<and> be16_at seg 22 = unat (remote_port c) \<and>
    seg ! 33 = flags \<and> drop 40 seg = payload \<and>
    take 4 (drop 24 seg) = le_bytes (conn_seq c) \<and> take 4 (drop 28 seg) = le_bytes (conn_ack c) \<and>
    (conn_seq c = 1 \<longrightarrow> be32_at seg 24 = 16777216)"
  using assms(1) unfolding seg
  by (simp add: segment_be16 segment_headers)
    (simp add: segment_split assms(2) be32_at_def be16_at_def nth_append le_bytes_def)

definition conn0 :: tcp_conn_t where
  "conn0 = \<lparr>conn_state = TCP_ESTABLISHED, remote_ip = (10, 0, 0, 2), remote_port = 80, local_port = 40000, conn_seq = 1, conn_ack = 0\<rparr>"

section \<open>Receiving\<close>

lemma tcp_copy_eq:
  assumes "i \<le> k" "k \<le> length buf"
  shows "tcp_copy i k frame buf =
    (if 40 + k \<le> length frame \<or> i = k then Some (take i buf @ take (k - i) (drop (40 + i) frame) @ drop k buf) else None)"
  using assms
proof (induction i k frame buf rule: tcp_copy.induct)
  case (1 i k frame buf)
  show ?case
  proof (cases "i < k \<and> 40 + i < length frame")
    case True
    then have d: "drop (40 + i) frame = frame ! (40 + i) # drop (40 + Suc i) frame"
      using Cons_nth_drop_Suc [of "40 + i" frame] by simp
    have s: "k - i = Suc (k - Suc i)" using True by arith
    have "tcp_copy i k frame buf = tcp_copy (i + 1) k frame (buf[i := frame ! (40 + i)])"
      using True by (subst tcp_copy.simps) simp
    also have "\<dots> = (if 40 + k \<le> length frame \<or> i + 1 = k
        then Some (take i buf @ frame ! (40 + i) # take (k - Suc i) (drop (40 + Suc i) frame) @ drop k buf) else None)"
      using 1(1) 1(2,3) True by (simp add: take_Suc_conv_app_nth)
    finally show ?thesis using True by (auto simp: d s)
  next
    case False
    then show ?thesis using 1(2) by (subst tcp_copy.simps) auto
  qed
qed

lemma tcp_on_frame_keeps:
  "conn_state c = TCP_ESTABLISHED \<Longrightarrow> hdr_flags (load_tcp (drop 20 frame)) AND 1 = 0 \<Longrightarrow> tcp_on_frame c frame len n = (c, n)"
  by (simp add: tcp_on_frame_def Let_def)

lemma unat_payload: "length pl \<le> 1460 \<Longrightarrow> unat (of_nat (length pl) :: u16) = length pl"
  by (simp add: unat_of_nat take_bit_eq_mod)

lemma tcp_send_ok:
  assumes "conn_state c = TCP_ESTABLISHED" "length data \<le> 1024"
    and "takes_frame n (build_tcp_segment c 0x18 data) hw"
  shows "tcp_send c data n = (0, c\<lparr>conn_seq := conn_seq c + of_nat (length data)\<rparr>,
    n\<lparr>net_hw := hw, g_frames_sent := g_frames_sent n + 1\<rparr>)"
  using assms by (simp add: tcp_send_def network_send_frame_ok)

lemma tcp_recv_ok:
  assumes c: "conn_state c = TCP_ESTABLISHED" and fl: "fl AND 1 = 0"
    and data: "data \<noteq> []" "length data \<le> 1460" "length data \<le> length buf" "length frame0 = 1500"
    and f: "hands_over n (build_tcp_segment c1 fl data) hw"
  shows "tcp_recv c buf frame0 n = Some (int (length data), data @ drop (length data) buf,
    c\<lparr>conn_ack := conn_ack c + of_nat (length data)\<rparr>, n\<lparr>net_hw := hw, g_frames_received := g_frames_received n + 1\<rparr>)"
proof -
  let ?seg = "build_tcp_segment c1 fl data" and ?k = "length data"
  let ?frame = "?seg @ drop (length ?seg) frame0"
  have ne: "?seg \<noteq> []" by (metis length_segment list.size(3) add_is_0 zero_neq_numeral)
  have recv: "network_receive_frame frame0 n = (int (length ?seg), ?frame, n\<lparr>net_hw := hw, g_frames_received := g_frames_received n + 1\<rparr>)"
    using data by (intro network_receive_frame_ok [OF f ne]) simp
  have len: "hton16 (total_len (load_ipv4 ?frame)) - 40 = of_nat ?k" by (simp add: segment_headers)
  have ud: "unat (of_nat ?k :: u16) = ?k" using data by (rule_tac unat_payload)
  then have nz: "(of_nat ?k :: u16) \<noteq> 0" using data by (metis length_0_conv unat_0)
  have fr: "take ?k (drop 40 ?frame) = data" by (simp add: segment_headers)
  have copy: "tcp_copy 0 ?k ?frame buf = Some (data @ drop ?k buf)"
    using data fr by (simp add: tcp_copy_eq del: drop_append)
  have keep: "tcp_on_frame c ?frame l m = (c, m)" for l m
    using c fl by (intro tcp_on_frame_keeps) (simp_all add: segment_headers del: drop_append)
  have ui: "uint (of_nat ?k :: u16) = int ?k" "ucast (of_nat ?k :: u16) = (of_nat ?k :: u32)"
    using ud by (metis uint_nat, metis ud of_nat_unat)
  show ?thesis
    using c data(3) nz by (simp only: tcp_recv_def recv prod.case Let_def keep len ud copy ui) simp
qed

text \<open>C27. What one side sends the other side receives: on a link whose sending card takes a frame
  and whose receiving card then hands that frame over, \<open>tcp_send\<close> of up to 1024 bytes on an
  open connection succeeds and advances the sequence number by their count, and \<open>tcp_recv\<close>
  on the other side's open connection returns exactly these bytes at the start of the buffer,
  advances its acknowledgement number by the same count and changes nothing else of the
  connection.\<close>

theorem tcp_send_recv:
  fixes n n2 :: "'d tcp_net" and wire :: "u8 list \<Rightarrow> 'd"
  assumes "conn_state c = TCP_ESTABLISHED" "conn_state c2 = TCP_ESTABLISHED"
    and "data \<noteq> []" "length data \<le> 1024" "length data \<le> length buf" "length frame0 = 1500"
    and takes: "\<And>f. length f \<le> 1064 \<Longrightarrow> takes_frame n f (wire f)"
    and hands: "\<And>f. length f \<le> 1064 \<Longrightarrow> hands_over (n2\<lparr>net_hw := wire f\<rparr>) f hw2"
  shows "\<exists>c' n' n2'. tcp_send c data n = (0, c', n') \<and> conn_seq c' = conn_seq c + of_nat (length data) \<and>
    tcp_recv c2 buf frame0 (n2\<lparr>net_hw := net_hw n'\<rparr>) =
      Some (int (length data), data @ drop (length data) buf, c2\<lparr>conn_ack := conn_ack c2 + of_nat (length data)\<rparr>, n2')"
proof -
  let ?seg = "build_tcp_segment c 0x18 data"
  have "tcp_send c data n = (0, c\<lparr>conn_seq := conn_seq c + of_nat (length data)\<rparr>,
      n\<lparr>net_hw := wire ?seg, g_frames_sent := g_frames_sent n + 1\<rparr>)"
    using assms by (intro tcp_send_ok) simp_all
  moreover have "hands_over (n2\<lparr>net_hw := wire ?seg\<rparr>) ?seg hw2" using assms by simp
  ultimately show ?thesis
    using tcp_recv_ok [of c2 "0x18" data buf frame0 "n2\<lparr>net_hw := wire ?seg\<rparr>" c hw2] assms by simp
qed

text \<open>A link that holds one frame.\<close>

definition mailbox :: "u8 list netdev_t" where
  "mailbox = \<lparr>nd_name = lit ''mail'', nd_mac = [2, 0, 0, 0, 0, 1], nd_send = Some (\<lambda>_ f. (0, f)),
     nd_recv = Some (\<lambda>f buf. (int (length f), f @ drop (length f) buf, [])), nd_irq_handler = None\<rparr>"

definition mail_net :: "u8 list \<Rightarrow> u8 list tcp_net" where
  "mail_net f = \<lparr>g_dev = Some mailbox, g_initialized = True, g_ip = (10, 0, 0, 1), g_frames_sent = 0, g_frames_received = 0,
     net_hw = f, net_out = [], g_next_local_port = 40000\<rparr>"

lemma mailbox_link:
  "takes_frame (mail_net g) f f" "hands_over (mail_net f) f []"
  "(mail_net g)\<lparr>net_hw := f\<rparr> = mail_net f" "net_hw (mail_net f) = f"
  by (auto simp: takes_frame_def hands_over_def mail_net_def mailbox_def)

theorem tcp_send_recv_witness:
  "\<exists>c' n' n2'. tcp_send conn0 [104, 105] (mail_net []) = (0, c', n') \<and> conn_seq c' = 3 \<and>
    tcp_recv conn0 [0, 0, 0] (replicate 1500 0) (mail_net (net_hw n')) = Some (2, [104, 105, 0], conn0\<lparr>conn_ack := 2\<rparr>, n2')"
  using tcp_send_recv [of conn0 conn0 "[104, 105]" "[0, 0, 0]" "replicate 1500 0" "mail_net []" "\<lambda>f. f" "mail_net []" "[]"]
  by (simp add: mailbox_link conn0_def)

text \<open>C29. \<open>tcp_recv\<close> stays inside its receive buffer except in one case: the header of a received
  frame announces more than 1460 bytes of payload and the caller's buffer has room for them.
  Then, and only then, it reads behind the end of the buffer, however short the frame was.\<close>

theorem tcp_recv_faults_iff:
  assumes "length frame0 = 1500" and "network_receive_frame frame0 n = (k, frame, n1)" and "length frame = 1500"
    and "payload_len = hton16 (total_len (load_ipv4 frame)) - 40"
  shows "tcp_recv c buf frame0 n = None \<longleftrightarrow>
    conn_state c = TCP_ESTABLISHED \<and> 0 < k \<and> 1460 < unat payload_len \<and> unat payload_len \<le> length buf"
  using assms by (auto simp: tcp_recv_def Let_def tcp_copy_eq split: prod.splits)

theorem tcp_recv_faults_iff_witness:
  "tcp_recv conn0 (replicate 2000 0) (replicate 1500 0) (mail_net (take 40 (build_tcp_segment conn0 0x18 (replicate 1461 0)))) = None"
proof -
  let ?f = "take 40 (build_tcp_segment conn0 0x18 (replicate 1461 0))"
  let ?frame = "?f @ drop 40 (replicate 1500 0)"
  have tl: "total_len (load_ipv4 ?frame) = hton16 1501" by (simp add: build_tcp_segment_def Let_def load_ipv4_bytes)
  have l: "length ?f = 40" by simp
  then have "?f \<noteq> []" by (metis list.size(3) zero_neq_numeral)
  then obtain n1 where r: "network_receive_frame (replicate 1500 0) (mail_net ?f) = (40, ?frame, n1)"
    using network_receive_frame_ok [OF mailbox_link(2) [of ?f], of "replicate 1500 0"] unfolding l by simp
  show ?thesis
    using tcp_recv_faults_iff [OF _ r _ refl, of conn0 "replicate 2000 0"] unfolding tl by (simp add: conn0_def)
qed

text \<open>A refused connection counts as opened: after a successful \<open>tcp_connect\<close>, a frame with the
  flags RST and ACK, whatever its addresses and ports, opens the connection, and \<open>tcp_send\<close>
  then sends on it.\<close>

lemma tcp_refused_opens:
  assumes "tcp_connect c ip port n = (0, c1, n1)" and "40 \<le> len" and "hdr_flags (load_tcp (drop 20 frame)) = 0x14"
    and "tcp_on_frame c1 frame len n1 = (c2, n2)" and "takes_frame n2 (build_tcp_segment c2 0x18 data) hw" and "length data \<le> 1024"
  shows "conn_state c2 = TCP_ESTABLISHED \<and> conn_seq c2 = 2 \<and> conn_ack c2 = hdr_seq (load_tcp (drop 20 frame)) + 1 \<and>
    tcp_send c2 data n2 = (0, c2\<lparr>conn_seq := 2 + of_nat (length data)\<rparr>, n2\<lparr>net_hw := hw, g_frames_sent := g_frames_sent n2 + 1\<rparr>)"
proof -
  have c1: "conn_state c1 = TCP_SYN_SENT" "conn_seq c1 = 1"
    using assms(1) by (auto simp: tcp_connect_def Let_def split: prod.splits if_splits)
  have "\<not> len < 40" using assms(2) by simp
  then have c2: "conn_state c2 = TCP_ESTABLISHED \<and> conn_seq c2 = 2 \<and> conn_ack c2 = hdr_seq (load_tcp (drop 20 frame)) + 1"
    using assms(3,4) c1 by (auto simp: tcp_on_frame_def Let_def split: prod.splits)
  then show ?thesis using tcp_send_ok [OF _ assms(6,5)] by simp
qed

section \<open>A whole session\<close>

context transmitter
begin

lemma tcp_session:
  assumes dev: "g_dev n = Some d" "nd_send d = Some tx" "g_initialized n" and mtu: "1064 \<le> mtu"
    and data: "length data \<le> 1024"
    and answer: "40 \<le> len" "hdr_flags (load_tcp (drop 20 frame)) AND 0x12 \<noteq> 0"
  shows "\<exists>c1 n1 c2 n2 c3 n3 c4 n4. tcp_connect c ip port n = (0, c1, n1) \<and> tcp_on_frame c1 frame len n1 = (c2, n2) \<and>
    tcp_send c2 data n2 = (0, c3, n3) \<and> tcp_close c3 n3 = (c4, n4) \<and>
    frames (net_hw n4) = frames (net_hw n) @
      [build_tcp_segment c1 2 [], build_tcp_segment c2 0x10 [], build_tcp_segment c2 0x18 data, build_tcp_segment c3 0x11 []] \<and>
    conn_seq c1 = 1 \<and> conn_seq c2 = 2 \<and> conn_seq c3 = 2 + of_nat (length data) \<and>
    conn_ack c2 = hdr_seq (load_tcp (drop 20 frame)) + 1 \<and> conn_state c4 = TCP_CLOSED \<and> g_frames_sent n4 = g_frames_sent n + 4"
proof -
  have small: "length (build_tcp_segment c' fl []) \<le> mtu" for c' fl using mtu by simp
  define c1 where "c1 = c\<lparr>conn_state := TCP_SYN_SENT, remote_ip := ip, remote_port := port, local_port := g_next_local_port n, conn_seq := 1, conn_ack := 0\<rparr>"
  let ?n = "n\<lparr>g_next_local_port := g_next_local_port n + 1\<rparr>"
  obtain n1 where n1: "network_send_frame (build_tcp_segment c1 2 []) ?n = (0, n1)"
    "frames (net_hw n1) = frames (net_hw n) @ [build_tcp_segment c1 2 []]" "g_dev n1 = Some d" "g_initialized n1"
    "g_frames_sent n1 = g_frames_sent n + 1"
    using network_sends [of ?n d, OF _ dev(2) _ small [of c1 2]] dev by auto
  define c2 where "c2 = c1\<lparr>conn_ack := hdr_seq (load_tcp (drop 20 frame)) + 1, conn_seq := 2, conn_state := TCP_ESTABLISHED\<rparr>"
  obtain n2 where n2: "network_send_frame (build_tcp_segment c2 0x10 []) n1 = (0, n2)"
    "frames (net_hw n2) = frames (net_hw n1) @ [build_tcp_segment c2 0x10 []]" "g_dev n2 = Some d" "g_initialized n2"
    "g_frames_sent n2 = g_frames_sent n1 + 1"
    using network_sends [OF n1(3) dev(2) n1(4) small [of c2 "0x10"]] by auto
  obtain n3 where n3: "network_send_frame (build_tcp_segment c2 0x18 data) n2 = (0, n3)"
    "frames (net_hw n3) = frames (net_hw n2) @ [build_tcp_segment c2 0x18 data]" "g_dev n3 = Some d" "g_initialized n3"
    "g_frames_sent n3 = g_frames_sent n2 + 1"
    using network_sends [OF n2(3) dev(2) n2(4), of "build_tcp_segment c2 0x18 data"] mtu data by auto
  define c3 where "c3 = c2\<lparr>conn_seq := 2 + of_nat (length data)\<rparr>"
  obtain n4 where n4: "network_send_frame (build_tcp_segment c3 0x11 []) n3 = (0, n4)"
    "frames (net_hw n4) = frames (net_hw n3) @ [build_tcp_segment c3 0x11 []]" "g_frames_sent n4 = g_frames_sent n3 + 1"
    using network_sends [OF n3(3) dev(2) n3(4) small [of c3 "0x11"]] by auto
  have "tcp_connect c ip port n = (0, c1, n1)" using n1(1) by (simp add: tcp_connect_def Let_def c1_def)
  moreover have "tcp_on_frame c1 frame len n1 = (c2, n2)"
    using answer n2(1) by (simp add: tcp_on_frame_def Let_def not_less c1_def c2_def)
  moreover have "tcp_send c2 data n2 = (0, c3, n3)" using n3(1) data by (simp add: tcp_send_def c2_def c3_def)
  moreover have "tcp_close c3 n3 = (c3\<lparr>conn_state := TCP_CLOSED\<rparr>, n4)" using n4(1) by (simp add: tcp_close_def c2_def c3_def)
  moreover have "frames (net_hw n4) = frames (net_hw n) @
      [build_tcp_segment c1 2 [], build_tcp_segment c2 0x10 [], build_tcp_segment c2 0x18 data, build_tcp_segment c3 0x11 []]"
    using n1(2) n2(2) n3(2) n4(2) by simp
  moreover have "g_frames_sent n4 = g_frames_sent n + 4" using n1(5) n2(5) n3(5) n4(3) by simp
  moreover have "conn_seq c1 = 1" "conn_seq c2 = 2" "conn_seq c3 = 2 + of_nat (length data)"
    "conn_ack c2 = hdr_seq (load_tcp (drop 20 frame)) + 1" by (simp_all add: c1_def c2_def c3_def)
  ultimately show ?thesis by simp
qed

end

end
