(* ===== verification/Ne2000.thy ===== *)
theory Ne2000
  imports Tcp Port_Io
begin

text \<open>
  \<open>net/ne2000.c\<close>: the driver of the NE2000 card, as port accesses. The timeouts count down the
  way the source does, the value after the loop included. The card itself is only assumed to
  answer reads in some way; for the claim on sending, its documented reaction to port writes
  is a function of the log.
\<close>

abbreviation (input) NE_CMD :: u8 where "NE_CMD \<equiv> 0x00"
abbreviation (input) NE_PSTART :: u8 where "NE_PSTART \<equiv> 0x01"
abbreviation (input) NE_PSTOP :: u8 where "NE_PSTOP \<equiv> 0x02"
abbreviation (input) NE_BNRY :: u8 where "NE_BNRY \<equiv> 0x03"
abbreviation (input) NE_TPSR :: u8 where "NE_TPSR \<equiv> 0x04"
abbreviation (input) NE_TBCR0 :: u8 where "NE_TBCR0 \<equiv> 0x05"
abbreviation (input) NE_TBCR1 :: u8 where "NE_TBCR1 \<equiv> 0x06"
abbreviation (input) NE_ISR :: u8 where "NE_ISR \<equiv> 0x07"
abbreviation (input) NE_RSAR0 :: u8 where "NE_RSAR0 \<equiv> 0x08"
abbreviation (input) NE_RSAR1 :: u8 where "NE_RSAR1 \<equiv> 0x09"
abbreviation (input) NE_RBCR0 :: u8 where "NE_RBCR0 \<equiv> 0x0A"
abbreviation (input) NE_RBCR1 :: u8 where "NE_RBCR1 \<equiv> 0x0B"
abbreviation (input) NE_RCR :: u8 where "NE_RCR \<equiv> 0x0C"
abbreviation (input) NE_TCR :: u8 where "NE_TCR \<equiv> 0x0D"
abbreviation (input) NE_DCR :: u8 where "NE_DCR \<equiv> 0x0E"
abbreviation (input) NE_IMR :: u8 where "NE_IMR \<equiv> 0x0F"
abbreviation (input) NE_DATA :: u16 where "NE_DATA \<equiv> 0x10"
abbreviation (input) NE_RESET :: u16 where "NE_RESET \<equiv> 0x1F"
abbreviation (input) NE_PAGE_SIZE :: nat where "NE_PAGE_SIZE \<equiv> 256"
abbreviation (input) NE_RX_START :: u8 where "NE_RX_START \<equiv> 0x46"
abbreviation (input) NE_RX_STOP :: u8 where "NE_RX_STOP \<equiv> 0x60"
abbreviation (input) NE_TX_START :: u8 where "NE_TX_START \<equiv> 0x40"

text \<open>The static variables, the ports and the printed text. \<open>g_dev_set\<close> says whether
  \<open>ne2000_probe\<close> has filled in the device structure, which is zero before.\<close>

record ne2000 =
  g_io_base :: u16
  g_mac :: "u8 list"
  g_dev_set :: bool
  ne_io :: io
  ne_text :: out

definition ne_in :: "u8 \<Rightarrow> ne2000 \<Rightarrow> u8 \<times> ne2000" where
  "ne_in reg s = (let (v, d) = inb (g_io_base s + ucast reg) (ne_io s) in (v, s\<lparr>ne_io := d\<rparr>))"

definition ne_out :: "u8 \<Rightarrow> u8 \<Rightarrow> ne2000 \<Rightarrow> ne2000" where
  "ne_out reg val s = s\<lparr>ne_io := outb (g_io_base s + ucast reg) val (ne_io s)\<rparr>"

text \<open>The waiting loop \<open>while (!(ne_in(NE_ISR) & bits) && timeout--)\<close> and the value it leaves in
  the counter.\<close>

fun ne_wait :: "u8 \<Rightarrow> nat \<Rightarrow> ne2000 \<Rightarrow> int \<times> ne2000" where
  "ne_wait bits 0 s = (let (v, s) = ne_in NE_ISR s in (if v AND bits \<noteq> 0 then 0 else - 1, s))"
| "ne_wait bits (Suc t) s = (let (v, s) = ne_in NE_ISR s in if v AND bits \<noteq> 0 then (int (Suc t), s) else ne_wait bits t s)"

text \<open>\<open>ne2000_send\<close>: the bytes go through the data port, then the transmission is started.\<close>

fun ne_data_out :: "u8 list \<Rightarrow> ne2000 \<Rightarrow> ne2000" where
  "ne_data_out [] s = s"
| "ne_data_out (b # bs) s = ne_data_out bs (s\<lparr>ne_io := outb (g_io_base s + NE_DATA) b (ne_io s)\<rparr>)"

definition ne2000_send :: "ne2000 \<Rightarrow> u8 list \<Rightarrow> int \<times> ne2000" where
  "ne2000_send s frame =
     (if length frame > NE_PAGE_SIZE * 6 then (- 1, s)
      else let len = of_nat (length frame) :: u32;
               s = ne_out NE_ISR 0x40 s;
               s = ne_out NE_RSAR0 0 s;
               s = ne_out NE_RSAR1 NE_TX_START s;
               s = ne_out NE_RBCR0 (ucast (len AND 0xFF)) s;
               s = ne_out NE_RBCR1 (ucast (drop_bit 8 len)) s;
               s = ne_out NE_CMD 0x12 s;
               s = ne_data_out frame s;
               (_, s) = ne_wait 0x40 10000 s;
               s = ne_out NE_ISR 0x40 s;
               s = ne_out NE_TPSR NE_TX_START s;
               s = ne_out NE_TBCR0 (ucast (len AND 0xFF)) s;
               s = ne_out NE_TBCR1 (ucast (drop_bit 8 len)) s;
               s = ne_out NE_CMD 0x26 s
           in (0, s))"

definition ne2000_recv :: "ne2000 \<Rightarrow> u8 list \<Rightarrow> int \<times> u8 list \<times> ne2000" where
  "ne2000_recv s buf =
     (let (bound, s) = ne_in NE_BNRY s;
          s = ne_out NE_CMD 0x62 s;
          (curr, s) = ne_in 0x07 s;
          s = ne_out NE_CMD 0x22 s
      in if bound = curr then (0, buf, s) else (- 1, buf, s))"

definition ne2000_get_device :: "ne2000 \<Rightarrow> ne2000 netdev_t" where
  "ne2000_get_device s =
     (if g_dev_set s
      then \<lparr>nd_name = lit ''eth0'', nd_mac = g_mac s, nd_send = Some ne2000_send, nd_recv = Some ne2000_recv, nd_irq_handler = None\<rparr>
      else \<lparr>nd_name = [], nd_mac = replicate 6 0, nd_send = None, nd_recv = None, nd_irq_handler = None\<rparr>)"

fun ne_data_in :: "nat \<Rightarrow> ne2000 \<Rightarrow> u8 list \<times> ne2000" where
  "ne_data_in 0 s = ([], s)"
| "ne_data_in (Suc k) s =
     (let (v, d) = inb (g_io_base s + NE_DATA) (ne_io s); (vs, s) = ne_data_in k (s\<lparr>ne_io := d\<rparr>) in (v # vs, s))"

text \<open>The result, the device passed to \<open>netdev_register\<close> (if the code gets there) and the state.\<close>

definition ne2000_probe :: "u16 \<Rightarrow> ne2000 \<Rightarrow> int \<times> ne2000 netdev_t option \<times> ne2000" where
  "ne2000_probe io_base s =
     (let s = s\<lparr>g_io_base := io_base\<rparr>;
          (reset_val, d) = inb (io_base + NE_RESET) (ne_io s);
          s = s\<lparr>ne_io := outb (io_base + NE_RESET) reset_val d\<rparr>;
          (timeout, s) = ne_wait 0x80 10000 s
      in if timeout \<le> 0 then (- 1, None, s\<lparr>ne_text := io_print (line ''[ne2000] reset timeout, card not found'') (ne_text s)\<rparr>)
      else let
          s = ne_out NE_ISR 0xFF s;
          s = ne_out NE_CMD 0x21 s;
          s = ne_out NE_DCR 0x49 s;
          s = ne_out NE_RBCR0 0 s;
          s = ne_out NE_RBCR1 0 s;
          s = ne_out NE_RCR 0x20 s;
          s = ne_out NE_TCR 0x02 s;
          s = ne_out NE_PSTART NE_RX_START s;
          s = ne_out NE_PSTOP NE_RX_STOP s;
          s = ne_out NE_BNRY NE_RX_START s;
          s = ne_out NE_ISR 0xFF s;
          s = ne_out NE_IMR 0x00 s;
          s = ne_out NE_CMD 0x22 s;
          s = ne_out NE_RSAR0 0 s;
          s = ne_out NE_RSAR1 0 s;
          s = ne_out NE_RBCR0 32 s;
          s = ne_out NE_RBCR1 0 s;
          s = ne_out NE_CMD 0x0A s;
          (prom, s) = ne_data_in 32 s;
          s = s\<lparr>g_mac := map (\<lambda>i. prom ! (i * 2)) [0..<6]\<rparr>;
          s = ne_out NE_RCR 0x04 s;
          s = ne_out NE_TCR 0x00 s;
          s = ne_out NE_CMD 0x22 s;
          s = s\<lparr>g_dev_set := True\<rparr>;
          s = s\<lparr>ne_text := io_print (line ''[ne2000] initialized on io_base'') (ne_text s)\<rparr>
      in (0, Some (ne2000_get_device s), s))"

section \<open>The card\<close>

text \<open>What the card does with the writes to its registers in page 0, moving one byte for each
  access to the data port: the remote DMA address and count, its memory, the transmit page and
  count, and the frames it has sent.\<close>

record ne_card =
  rsar :: u16
  rbcr :: u16
  dma_write :: bool
  ram :: "u16 \<Rightarrow> u8"
  tpsr :: u8
  tbcr :: u16
  sent :: "u8 list list"

definition lo_byte :: "u8 \<Rightarrow> u16 \<Rightarrow> u16" where
  "lo_byte v w = push_bit 8 (drop_bit 8 w) OR ucast v"

definition hi_byte :: "u8 \<Rightarrow> u16 \<Rightarrow> u16" where
  "hi_byte v w = take_bit 8 w OR push_bit 8 (ucast v)"

definition card_cmd :: "u8 \<Rightarrow> ne_card \<Rightarrow> ne_card" where
  "card_cmd v k = (let k = k\<lparr>dma_write := (v AND 0x38 = 0x10)\<rparr> in
     if v AND 0x04 \<noteq> 0 then k\<lparr>sent := sent k @ [map (\<lambda>i. ram k (push_bit 8 (ucast (tpsr k)) + of_nat i)) [0..<unat (tbcr k)]]\<rparr> else k)"

definition card_data :: "u8 \<Rightarrow> ne_card \<Rightarrow> ne_card" where
  "card_data v k = (if dma_write k \<and> rbcr k \<noteq> 0
     then k\<lparr>ram := (ram k)(rsar k := v), rsar := rsar k + 1, rbcr := rbcr k - 1\<rparr> else k)"

definition card_write :: "u16 \<Rightarrow> u8 \<Rightarrow> ne_card \<Rightarrow> ne_card" where
  "card_write r v k =
     (if r = 0 then card_cmd v k else if r = 4 then k\<lparr>tpsr := v\<rparr>
      else if r = 5 then k\<lparr>tbcr := lo_byte v (tbcr k)\<rparr> else if r = 6 then k\<lparr>tbcr := hi_byte v (tbcr k)\<rparr>
      else if r = 8 then k\<lparr>rsar := lo_byte v (rsar k)\<rparr> else if r = 9 then k\<lparr>rsar := hi_byte v (rsar k)\<rparr>
      else if r = 0xA then k\<lparr>rbcr := lo_byte v (rbcr k)\<rparr> else if r = 0xB then k\<lparr>rbcr := hi_byte v (rbcr k)\<rparr>
      else if r = 0x10 then card_data v k else k)"

fun card_event :: "u16 \<Rightarrow> io_event \<Rightarrow> ne_card \<Rightarrow> ne_card" where
  "card_event base (Out8 p v) k = card_write (p - base) v k"
| "card_event base _ k = k"

text \<open>The card after the events the driver has caused.\<close>

definition nic :: "ne_card \<Rightarrow> ne2000 \<Rightarrow> ne_card" where
  "nic k0 s = fold (card_event (g_io_base s)) (io_log (ne_io s)) k0"

lemma card_ne_out [simp]: "nic k0 (ne_out r v s) = card_write (ucast r) v (nic k0 s)" "g_io_base (ne_out r v s) = g_io_base s"
  by (simp_all add: nic_def ne_out_def)

lemma card_ne_in: "ne_in r s = (v, s') \<Longrightarrow> nic k0 s' = nic k0 s \<and> g_io_base s' = g_io_base s"
  by (auto simp: ne_in_def inb_eq nic_def)

lemma card_ne_wait: "ne_wait bits t s = (r, s') \<Longrightarrow> nic k0 s' = nic k0 s \<and> g_io_base s' = g_io_base s"
  by (induction bits t s arbitrary: r s' rule: ne_wait.induct)
    (auto split: prod.splits if_splits dest: card_ne_in)

lemma card_ne_data_out: "nic k0 (ne_data_out bs s) = fold card_data bs (nic k0 s) \<and> g_io_base (ne_data_out bs s) = g_io_base s"
proof (induction bs arbitrary: s)
  case (Cons b bs)
  let ?s = "s\<lparr>ne_io := outb (g_io_base s + 0x10) b (ne_io s)\<rparr>"
  have "nic k0 ?s = card_data b (nic k0 s)" by (simp add: nic_def card_write_def)
  then show ?case using Cons [of ?s] by simp
qed simp

lemma fold_card_data:
  assumes "dma_write k" "unat (rbcr k) = length bs"
  shows "fold card_data bs k = k\<lparr>ram := (\<lambda>a. if unat (a - rsar k) < length bs then bs ! unat (a - rsar k) else ram k a),
    rsar := rsar k + of_nat (length bs), rbcr := 0\<rparr>"
  using assms
proof (induction bs arbitrary: k)
  case Nil
  then have "rbcr k = 0" by (simp add: unat_eq_0)
  then show ?case by simp
next
  case (Cons b bs)
  let ?k = "card_data b k"
  have nz: "rbcr k \<noteq> 0" using Cons.prems by auto
  have len: "unat (rbcr k - 1) = length bs" using Cons.prems nz by (simp add: unat_minus_one)
  have k: "?k = k\<lparr>ram := (ram k)(rsar k := b), rsar := rsar k + 1, rbcr := rbcr k - 1\<rparr>"
    using Cons.prems nz by (simp add: card_data_def)
  have lt: "length bs < 65535" using Cons.prems unat_u16_less [of "rbcr k"] by (simp del: unat_u16_less)
  have addr: "(if unat (a - (rsar k + 1)) < length bs then bs ! unat (a - (rsar k + 1)) else if a = rsar k then b else ram k a) =
      (if unat (a - rsar k) < Suc (length bs) then (b # bs) ! unat (a - rsar k) else ram k a)" for a
  proof (cases "a = rsar k")
    case True
    have "unat (- 1 :: u16) = 65535" by (simp add: unsigned_minus_1_eq_mask mask_eq_exp_minus_1)
    then show ?thesis using lt True by simp
  next
    case False
    then have nz: "a - rsar k \<noteq> 0" by simp
    then have "unat (a - rsar k) \<noteq> 0" using unat_eq_0 by blast
    moreover have "unat (a - rsar k - 1) = unat (a - rsar k) - 1" using nz by (rule unat_minus_one)
    ultimately have "unat (a - rsar k) = Suc (unat (a - (rsar k + 1)))" by (simp add: diff_diff_eq)
    then show ?thesis using False by simp
  qed
  have "fold card_data (b # bs) k = fold card_data bs ?k" by simp
  also have "\<dots> = ?k\<lparr>ram := (\<lambda>a. if unat (a - rsar ?k) < length bs then bs ! unat (a - rsar ?k) else ram ?k a),
      rsar := rsar ?k + of_nat (length bs), rbcr := 0\<rparr>"
    using Cons.prems len k by (intro Cons.IH) simp_all
  finally show ?case by (simp add: k addr add.assoc cong: if_cong)
qed

lemma split_word:
  "hi_byte (ucast (drop_bit 8 (n :: u32))) (lo_byte (ucast (n AND 0xFF)) w) = ucast n"
  "hi_byte v (lo_byte 0 w) = push_bit 8 (ucast v)"
proof -
  have "n AND 0xFF = take_bit 8 n" by (simp add: take_bit_eq_mask mask_eq_exp_minus_1)
  then show "hi_byte (ucast (drop_bit 8 n)) (lo_byte (ucast (n AND 0xFF)) w) = ucast n"
    by (intro bit_word_eqI) (auto simp: hi_byte_def lo_byte_def bit_simps)
  show "hi_byte v (lo_byte 0 w) = push_bit 8 (ucast v)"
    by (rule bit_word_eqI) (auto simp: hi_byte_def lo_byte_def bit_simps)
qed

text \<open>On a card that moves one byte for each access to its data port, \<open>ne2000_send\<close> makes the card
  transmit exactly the given frame, once, whatever the card answers to the reads; a frame longer
  than the six transmit pages is refused without touching a port.\<close>

lemma ne2000_send_transmits:
  "if length frame \<le> 1536
   then (\<exists>s'. ne2000_send s frame = (0, s') \<and> sent (nic k0 s') = sent (nic k0 s) @ [frame])
   else ne2000_send s frame = (- 1, s)"
proof (cases "length frame \<le> 1536")
  case True
  let ?len = "of_nat (length frame) :: u32"
  define s1 where "s1 = ne_out 0 0x12 (ne_out 0xB (ucast (drop_bit 8 ?len)) (ne_out 0xA (ucast (?len AND 0xFF))
    (ne_out 9 0x40 (ne_out 8 0 (ne_out 7 0x40 s)))))"
  define s2 where "s2 = ne_data_out frame s1"
  obtain r s3 where s3: "ne_wait 0x40 10000 s2 = (r, s3)" by fastforce
  define s4 where "s4 = ne_out 0 0x26 (ne_out 6 (ucast (drop_bit 8 ?len)) (ne_out 5 (ucast (?len AND 0xFF))
    (ne_out 4 0x40 (ne_out 7 0x40 s3))))"
  have send: "ne2000_send s frame = (0, s4)"
    using True s3 by (simp add: ne2000_send_def Let_def s1_def s2_def s4_def)
  let ?k = "nic k0 s"
  have k1: "nic k0 s1 = ?k\<lparr>rsar := 0x4000, rbcr := ucast ?len, dma_write := True\<rparr>"
    by (simp add: s1_def card_write_def split_word card_cmd_def)
  have ul: "unat (ucast ?len :: u16) = length frame"
    using True by (simp add: unsigned_ucast_eq unat_of_nat take_bit_eq_mod)
  have "nic k0 s2 = fold card_data frame (nic k0 s1)" by (simp add: s2_def card_ne_data_out)
  also have "\<dots> = (nic k0 s1)\<lparr>ram := (\<lambda>a. if unat (a - 0x4000) < length frame then frame ! unat (a - 0x4000) else ram ?k a),
      rsar := 0x4000 + of_nat (length frame), rbcr := 0\<rparr>"
    using ul by (subst fold_card_data) (simp_all add: k1 cong: if_cong)
  finally have k2: "nic k0 s2 = \<dots>" .
  have k3: "nic k0 s3 = nic k0 s2" using card_ne_wait [OF s3] by blast
  have "map (\<lambda>i. ram (nic k0 s2) (0x4000 + of_nat i)) [0..<length frame] = frame"
    using True by (intro nth_equalityI) (simp_all add: k2 unat_of_nat take_bit_eq_mod)
  then have "sent (nic k0 s4) = sent ?k @ [frame]"
    by (simp add: s4_def card_write_def card_cmd_def k3 split_word ul) (simp add: k2 k1)
  with send True show ?thesis by simp
next
  case False
  then show ?thesis by (simp add: ne2000_send_def)
qed

interpretation ne: transmitter ne2000_send "\<lambda>s. sent (nic k0 s)" 1536 for k0
proof unfold_locales
  fix f d
  show "length f \<le> 1536 \<Longrightarrow> \<exists>d'. ne2000_send d f = (0, d') \<and> sent (nic k0 d') = sent (nic k0 d) @ [f]"
    using ne2000_send_transmits [of f d k0] by simp
  show "1536 < length f \<Longrightarrow> ne2000_send d f = (- 1, d)"
    using ne2000_send_transmits [of f d k0] by simp
qed


definition ne_idle :: ne2000 where
  "ne_idle = \<lparr>g_io_base = 0x300, g_mac = [2, 0, 0, 0, 0, 1], g_dev_set = True,
     ne_io = \<lparr>io_log = [], dev8 = (\<lambda>_ _. 0), dev16 = (\<lambda>_ _. 0)\<rparr>, ne_text = []\<rparr>"

definition ne_net :: "ne2000 tcp_net" where
  "ne_net = \<lparr>g_dev = Some (ne2000_get_device ne_idle), g_initialized = True, g_ip = (10, 0, 0, 1), g_frames_sent = 0,
     g_frames_received = 0, net_hw = ne_idle, net_out = [], g_next_local_port = 40000\<rparr>"

definition ne_card0 :: ne_card where
  "ne_card0 = \<lparr>rsar = 0, rbcr = 0, dma_write = False, ram = (\<lambda>_. 0), tpsr = 0, tbcr = 0, sent = []\<rparr>"


end
