(* ===== verification/E1000.thy ===== *)
theory E1000
  imports Sys_Io
begin

text \<open>
  \<open>net/e1000.c\<close>: bringing up the E1000 card. The file uses names that no header of the tree defines:
  the register offsets, the PCI access, the EEPROM read, the system log and the descriptor
  arrays. They are the fields of \<open>e1000_platform\<close>. Register accesses are logged; a device is
  any function from the log to the value a register shows.
\<close>

datatype mmio_event = Mmio_Read u32 u32 | Mmio_Write u32 u32 | Pci_Write_Cmd u16 u16 u16

datatype log_level = LOG_ERR | LOG_INFO

record e1000_platform =
  INTEL_VEND :: u16
  E1000_DEV :: u16
  pci_get_bar0 :: "u16 \<Rightarrow> u16 \<Rightarrow> u32"
  pci_read_cmd :: "u16 \<Rightarrow> u16 \<Rightarrow> u16"
  REG_CTRL :: u32
  REG_MTA :: u32
  REG_RAL0 :: u32
  REG_RAH0 :: u32
  REG_RDBAL :: u32
  REG_RDBAH :: u32
  REG_RDLEN :: u32
  REG_RDH :: u32
  REG_RDT :: u32
  REG_RCTL :: u32
  REG_TDBAL :: u32
  REG_TDBAH :: u32
  REG_TDLEN :: u32
  REG_TDH :: u32
  REG_TDT :: u32
  REG_TCTL :: u32
  REG_IMS :: u32
  REG_STATUS :: u32
  e1000_eeprom_read :: "nat \<Rightarrow> mmio_event list \<Rightarrow> u32 \<times> mmio_event list"
  NUM_RX_DESC :: nat
  NUM_TX_DESC :: nat
  rx_descs_at :: u32
  tx_descs_at :: u32
  rx_buffers :: "u32 list"
  tx_buffers :: "u32 list"
  sizeof_rx_desc :: u32
  sizeof_tx_desc :: u32

record e1000_desc =
  desc_addr :: u64
  desc_cmd :: u8
  desc_status :: u8

record e1000 =
  e1000_mmio_base :: u32
  mmio_log :: "mmio_event list"
  mmio_dev :: "mmio_event list \<Rightarrow> u32 \<Rightarrow> u32"
  rx_descs :: "e1000_desc list"
  tx_descs :: "e1000_desc list"
  e_out :: out
  e_syslog :: "(log_level \<times> cstring \<times> cstring) list"

definition e1000_read :: "u32 \<Rightarrow> e1000 \<Rightarrow> u32 \<times> e1000" where
  "e1000_read r s = (let v = mmio_dev s (mmio_log s) r in (v, s\<lparr>mmio_log := mmio_log s @ [Mmio_Read r v]\<rparr>))"

definition e1000_write :: "u32 \<Rightarrow> u32 \<Rightarrow> e1000 \<Rightarrow> e1000" where
  "e1000_write r v s = s\<lparr>mmio_log := mmio_log s @ [Mmio_Write r v]\<rparr>"

definition e_print :: "cstring option \<Rightarrow> e1000 \<Rightarrow> e1000" where
  "e_print t s = s\<lparr>e_out := io_print t (e_out s)\<rparr>"

definition e_syslogd :: "log_level \<Rightarrow> string \<Rightarrow> string \<Rightarrow> e1000 \<Rightarrow> e1000" where
  "e_syslogd l d t s = s\<lparr>e_syslog := e_syslog s @ [(l, lit d, lit t)]\<rparr>"

text \<open>\<open>while ((e1000_read(REG_CTRL) & (1 << 26)) && reset_timeout--)\<close> and the value left in the counter.\<close>

fun reset_wait :: "e1000_platform \<Rightarrow> nat \<Rightarrow> e1000 \<Rightarrow> int \<times> e1000" where
  "reset_wait p 0 s = (let (v, s) = e1000_read (REG_CTRL p) s in (if bit v 26 then - 1 else 0, s))"
| "reset_wait p (Suc t) s = (let (v, s) = e1000_read (REG_CTRL p) s in if bit v 26 then reset_wait p t s else (int (Suc t), s))"

text \<open>The loop that waits for the link, and the last status it read.\<close>

fun link_wait :: "e1000_platform \<Rightarrow> nat \<Rightarrow> e1000 \<Rightarrow> u32 \<times> e1000" where
  "link_wait p t s =
     (let (status, s) = e1000_read (REG_STATUS p) s; t = t - 1
      in if \<not> bit status 1 \<and> 0 < t then link_wait p t s else (status, s))"

declare link_wait.simps [simp del]

definition clear_mta :: "e1000_platform \<Rightarrow> e1000 \<Rightarrow> e1000" where
  "clear_mta p s = fold (\<lambda>i. e1000_write (REG_MTA p + of_nat (i * 4)) 0) [0..<128] s"

definition e_eeprom :: "e1000_platform \<Rightarrow> nat \<Rightarrow> e1000 \<Rightarrow> u32 \<times> e1000" where
  "e_eeprom p i s = (let (w, ev) = e1000_eeprom_read p i (mmio_log s) in (w, s\<lparr>mmio_log := mmio_log s @ ev\<rparr>))"

fun read_mac :: "e1000_platform \<Rightarrow> nat list \<Rightarrow> e1000 \<Rightarrow> u8 list \<times> e1000" where
  "read_mac p [] s = ([], s)"
| "read_mac p (i # is) s =
     (let (word, s) = e_eeprom p i s; (mac, s) = read_mac p is s
      in (ucast (word AND 0xFF) # ucast (drop_bit 8 word AND 0xFF) # mac, s))"

definition rx_fill :: "e1000_platform \<Rightarrow> e1000_desc list \<Rightarrow> e1000_desc list" where
  "rx_fill p = fold (\<lambda>i ds. ds[i := (ds ! i)\<lparr>desc_addr := ucast (rx_buffers p ! i), desc_status := 0\<rparr>]) [0..<NUM_RX_DESC p]"

definition tx_fill :: "e1000_platform \<Rightarrow> e1000_desc list \<Rightarrow> e1000_desc list" where
  "tx_fill p = fold (\<lambda>i ds. ds[i := (ds ! i)\<lparr>desc_addr := ucast (tx_buffers p ! i), desc_cmd := 0, desc_status := 1\<rparr>]) [0..<NUM_TX_DESC p]"

definition rx_setup :: "e1000_platform \<Rightarrow> e1000 \<Rightarrow> e1000" where
  "rx_setup p s =
     (let s = s\<lparr>rx_descs := rx_fill p (rx_descs s)\<rparr>;
          n = of_nat (NUM_RX_DESC p);
          s = e1000_write (REG_RDBAL p) (rx_descs_at p) s;
          s = e1000_write (REG_RDBAH p) 0 s;
          s = e1000_write (REG_RDLEN p) (n * sizeof_rx_desc p) s;
          s = e1000_write (REG_RDH p) 0 s
      in e1000_write (REG_RDT p) (n - 1) s)"

definition tx_setup :: "e1000_platform \<Rightarrow> e1000 \<Rightarrow> e1000" where
  "tx_setup p s =
     (let s = s\<lparr>tx_descs := tx_fill p (tx_descs s)\<rparr>;
          n = of_nat (NUM_TX_DESC p);
          s = e1000_write (REG_TDBAL p) (tx_descs_at p) s;
          s = e1000_write (REG_TDBAH p) 0 s;
          s = e1000_write (REG_TDLEN p) (n * sizeof_tx_desc p) s;
          s = e1000_write (REG_TDH p) 0 s
      in e1000_write (REG_TDT p) 0 s)"

text \<open>The reset, the station address, the two rings and the link, in the order \<open>net_init\<close> has them.\<close>

definition e1000_reset :: "e1000_platform \<Rightarrow> e1000 \<Rightarrow> e1000" where
  "e1000_reset p s =
     (let (ctrl, s) = e1000_read (REG_CTRL p) s;
          s = e1000_write (REG_CTRL p) (ctrl OR push_bit 26 1) s;
          (reset_timeout, s) = reset_wait p 100000 s
      in if reset_timeout \<le> 0 then e_print (line ''[net_d] warning: reset did not clear in time'') s else s)"

definition mac_ral :: "u8 list \<Rightarrow> u32" where
  "mac_ral mac = ucast (mac ! 0) OR push_bit 8 (ucast (mac ! 1)) OR push_bit 16 (ucast (mac ! 2)) OR push_bit 24 (ucast (mac ! 3))"

definition mac_rah :: "u8 list \<Rightarrow> u32" where
  "mac_rah mac = ucast (mac ! 4) OR push_bit 8 (ucast (mac ! 5)) OR push_bit 31 1"

definition program_mac :: "e1000_platform \<Rightarrow> e1000 \<Rightarrow> e1000" where
  "program_mac p s =
     (let (mac, s) = read_mac p [0..<3] s;
          s = e1000_write (REG_RAL0 p) (mac_ral mac) s
      in e1000_write (REG_RAH0 p) (mac_rah mac) s)"

definition enable_rx :: "u32 \<Rightarrow> u32" where
  "enable_rx rctl = rctl OR push_bit 1 1 OR push_bit 3 1 OR push_bit 15 1 OR push_bit 26 1"

definition rx_start :: "e1000_platform \<Rightarrow> e1000 \<Rightarrow> e1000" where
  "rx_start p s = (let (rctl, s) = e1000_read (REG_RCTL p) s in e1000_write (REG_RCTL p) (enable_rx rctl) s)"

definition enable_tx :: "u32 \<Rightarrow> u32" where
  "enable_tx tctl = tctl OR push_bit 1 1 OR push_bit 3 1"

definition tx_start :: "e1000_platform \<Rightarrow> e1000 \<Rightarrow> e1000" where
  "tx_start p s = (let (tctl, s) = e1000_read (REG_TCTL p) s in e1000_write (REG_TCTL p) (enable_tx tctl) s)"

definition RX_CAUSES :: u32 where
  "RX_CAUSES = push_bit 7 1 OR push_bit 4 1"

definition report_link :: "e1000_platform \<Rightarrow> e1000 \<Rightarrow> e1000" where
  "report_link p s =
     (let (status, s) = link_wait p 100000 s
      in e_print (if bit status 1 then line ''[net_d] link up'' else line ''[net_d] warning: link not detected'') s)"

definition net_init :: "e1000_platform \<Rightarrow> u16 \<Rightarrow> e1000 \<Rightarrow> e1000" where
  "net_init p io_base s =
     (let s = s\<lparr>e1000_mmio_base := pci_get_bar0 p (INTEL_VEND p) (E1000_DEV p)\<rparr> in
      if e1000_mmio_base s = 0 then
        e_print (line ''[net_d] error: E1000 NIC not found on PCI bus'') (e_syslogd LOG_ERR ''net_d'' ''E1000 MMIO lookup failed'' s)
      else
        let pci_cmd = pci_read_cmd p (INTEL_VEND p) (E1000_DEV p);
            s = s\<lparr>mmio_log := mmio_log s @ [Pci_Write_Cmd (INTEL_VEND p) (E1000_DEV p) (pci_cmd OR 0x06)]\<rparr>;
            s = e1000_reset p s;
            s = clear_mta p s;
            s = program_mac p s;
            s = rx_setup p s;
            s = rx_start p s;
            s = tx_setup p s;
            s = tx_start p s;
            s = e1000_write (REG_IMS p) RX_CAUSES s;
            s = report_link p s
        in e_print (line ''[net_d] network daemon ready'') (e_syslogd LOG_INFO ''net_d'' ''initialized'' s))"

section \<open>What the card is left with\<close>

text \<open>The register writes of a log, in order.\<close>

fun writes :: "mmio_event list \<Rightarrow> (u32 \<times> u32) list" where
  "writes [] = []"
| "writes (Mmio_Write r v # l) = (r, v) # writes l"
| "writes (_ # l) = writes l"

lemma writes_append [simp]: "writes (l @ l') = writes l @ writes l'"
  by (induction l rule: writes.induct) simp_all

lemma writes_write [simp]: "writes (mmio_log (e1000_write r v s)) = writes (mmio_log s) @ [(r, v)]"
  by (simp add: e1000_write_def)

text \<open>Everything a step may change except the output: the writes, the rings and the base address.\<close>

definition view :: "e1000 \<Rightarrow> (u32 \<times> u32) list \<times> e1000_desc list \<times> e1000_desc list" where
  "view s = (writes (mmio_log s), rx_descs s, tx_descs s)"

lemma view_simps [simp]:
  "view (e1000_write r v s) = (fst (view s) @ [(r, v)], snd (view s))"
  "view (e_print t s) = view s"
  "view (e_syslogd l d m s) = view s"
  "view (s\<lparr>e1000_mmio_base := b\<rparr>) = view s"
  "view (s\<lparr>mmio_log := mmio_log s @ [Pci_Write_Cmd x y z]\<rparr>) = view s"
  by (simp_all add: view_def e1000_write_def e_print_def e_syslogd_def)

lemma view_read: "e1000_read r s = (v, s') \<Longrightarrow> view s' = view s"
  by (auto simp: e1000_read_def view_def Let_def)

lemma view_reset_wait: "reset_wait p t s = (r, s') \<Longrightarrow> view s' = view s"
  by (induction p t s arbitrary: r s' rule: reset_wait.induct) (auto split: prod.splits if_splits dest: view_read)

lemma view_link_wait: "link_wait p t s = (r, s') \<Longrightarrow> view s' = view s"
proof (induction p t s arbitrary: r s' rule: link_wait.induct)
  case (1 p t s)
  obtain v s1 where rd: "e1000_read (REG_STATUS p) s = (v, s1)" by fastforce
  show ?case
  proof (cases "\<not> bit v 1 \<and> 0 < t - 1")
    case True
    then have "link_wait p (t - 1) s1 = (r, s')" using 1(2) rd by (subst (asm) link_wait.simps) simp
    then show ?thesis using 1(1) rd True view_read [OF rd] by simp
  next
    case False
    then have "s' = s1" using 1(2) rd by (subst (asm) link_wait.simps) (auto split: if_splits)
    then show ?thesis using view_read [OF rd] by simp
  qed
qed

lemma view_clear_mta: "view (clear_mta p s) = (fst (view s) @ map (\<lambda>i. (REG_MTA p + of_nat (i * 4), 0)) [0..<128], snd (view s))"
proof -
  have "view (fold (\<lambda>i. e1000_write (REG_MTA p + of_nat (i * 4)) 0) js s) =
      (fst (view s) @ map (\<lambda>i. (REG_MTA p + of_nat (i * 4), 0)) js, snd (view s))" for js
    by (induction js arbitrary: s) simp_all
  then show ?thesis unfolding clear_mta_def .
qed

text \<open>An index loop over an array, and the two rings it fills.\<close>

lemma fold_update:
  assumes "n \<le> length ds"
  shows "fold (\<lambda>i ds. ds[i := f i (ds ! i)]) [0..<n] ds = map (\<lambda>i. f i (ds ! i)) [0..<n] @ drop n ds"
  using assms
proof (induction n)
  case (Suc n)
  then have "drop n ds = ds ! n # drop (Suc n) ds" by (simp add: Cons_nth_drop_Suc)
  then show ?case using Suc by (simp add: nth_append list_update_append)
qed simp

definition rx_ready :: "e1000_platform \<Rightarrow> e1000_desc list \<Rightarrow> e1000_desc list" where
  "rx_ready p ds = map2 (\<lambda>d b. d\<lparr>desc_addr := ucast b, desc_status := 0\<rparr>) ds (rx_buffers p)"

definition tx_ready :: "e1000_platform \<Rightarrow> e1000_desc list \<Rightarrow> e1000_desc list" where
  "tx_ready p ds = map2 (\<lambda>d b. d\<lparr>desc_addr := ucast b, desc_cmd := 0, desc_status := 1\<rparr>) ds (tx_buffers p)"

lemma rx_fill_ready:
  assumes "length ds = NUM_RX_DESC p" and "length (rx_buffers p) = NUM_RX_DESC p"
  shows "rx_fill p ds = rx_ready p ds"
  unfolding rx_fill_def rx_ready_def using assms
  by (subst fold_update [where f = "\<lambda>i d. d\<lparr>desc_addr := ucast (rx_buffers p ! i), desc_status := 0\<rparr>"])
    (simp_all add: list_eq_iff_nth_eq)

lemma tx_fill_ready:
  assumes "length ds = NUM_TX_DESC p" and "length (tx_buffers p) = NUM_TX_DESC p"
  shows "tx_fill p ds = tx_ready p ds"
  unfolding tx_fill_def tx_ready_def using assms
  by (subst fold_update [where f = "\<lambda>i d. d\<lparr>desc_addr := ucast (tx_buffers p ! i), desc_cmd := 0, desc_status := 1\<rparr>"])
    (simp_all add: list_eq_iff_nth_eq)

text \<open>The registers a ring is announced with.\<close>

definition rx_regs :: "e1000_platform \<Rightarrow> (u32 \<times> u32) list" where
  "rx_regs p = [(REG_RDBAL p, rx_descs_at p), (REG_RDBAH p, 0), (REG_RDLEN p, of_nat (NUM_RX_DESC p) * sizeof_rx_desc p),
     (REG_RDH p, 0), (REG_RDT p, of_nat (NUM_RX_DESC p) - 1)]"

definition tx_regs :: "e1000_platform \<Rightarrow> (u32 \<times> u32) list" where
  "tx_regs p = [(REG_TDBAL p, tx_descs_at p), (REG_TDBAH p, 0), (REG_TDLEN p, of_nat (NUM_TX_DESC p) * sizeof_tx_desc p),
     (REG_TDH p, 0), (REG_TDT p, 0)]"

lemma view_rx_setup: "view (rx_setup p s) = (fst (view s) @ rx_regs p, rx_fill p (fst (snd (view s))), snd (snd (view s)))"
  by (simp add: rx_setup_def rx_regs_def Let_def) (simp add: view_def)

lemma view_tx_setup: "view (tx_setup p s) = (fst (view s) @ tx_regs p, fst (snd (view s)), tx_fill p (snd (snd (view s))))"
  by (simp add: tx_setup_def tx_regs_def Let_def) (simp add: view_def)

lemma ucast_low_byte: "(ucast (y AND 0xFF) :: u8) = ucast (y :: u32)"
proof -
  have "y AND 0xFF = take_bit 8 y" by (simp add: take_bit_eq_mask mask_eq_exp_minus_1)
  then show ?thesis by (auto intro!: bit_word_eqI simp: bit_simps)
qed

text \<open>An EEPROM whose words do not change gives the address, low byte of each word first.\<close>

lemma view_read_mac:
  assumes "\<And>i l. fst (e1000_eeprom_read p i l) = w i" and "read_mac p is s = (mac, s')"
  shows "mac = concat (map (\<lambda>i. [ucast (w i), ucast (drop_bit 8 (w i))]) is) \<and>
    (\<exists>ev. view s' = (fst (view s) @ ev, snd (view s)))"
  using assms(2)
proof (induction "is" arbitrary: s mac)
  case (Cons i js)
  obtain x ev where e: "e1000_eeprom_read p i (mmio_log s) = (x, ev)" by fastforce
  have "x = w i" using assms(1) [of i "mmio_log s"] e by simp
  moreover obtain m where "read_mac p js (s\<lparr>mmio_log := mmio_log s @ ev\<rparr>) = (m, s')"
    and "mac = ucast (x AND 0xFF) # ucast (drop_bit 8 x AND 0xFF) # m"
    using Cons.prems e by (auto simp: e_eeprom_def split: prod.splits)
  moreover have "view (s\<lparr>mmio_log := mmio_log s @ ev\<rparr>) = (fst (view s) @ writes ev, snd (view s))" by (simp add: view_def)
  ultimately show ?case using Cons.IH [of "s\<lparr>mmio_log := mmio_log s @ ev\<rparr>" m] by (auto simp: ucast_low_byte)
qed (auto intro: exI [of _ "[]"])

text \<open>The two address registers for the three words of the EEPROM.\<close>

definition ral_of :: "(nat \<Rightarrow> u32) \<Rightarrow> u32" where
  "ral_of w = take_bit 16 (w 0) OR push_bit 16 (w 1)"

definition rah_of :: "(nat \<Rightarrow> u32) \<Rightarrow> u32" where
  "rah_of w = take_bit 16 (w 2) OR push_bit 31 1"

lemma byte_pair: "(ucast (ucast x :: u8) OR push_bit 8 (ucast (ucast (drop_bit 8 x) :: u8)) :: u32) = take_bit 16 (x :: u32)"
proof (rule bit_word_eqI)
  fix n assume "n < LENGTH(32)"
  consider "n < 8" | "8 \<le> n" "n < 16" | "16 \<le> n" by linarith
  then show "bit (ucast (ucast x :: u8) OR push_bit 8 (ucast (ucast (drop_bit 8 x) :: u8)) :: u32) n = bit (take_bit 16 x) n"
    by cases (auto simp: bit_simps)
qed

lemma push_take_16: "push_bit 16 (take_bit 16 y) = push_bit 16 (y :: u32)"
  by (auto intro!: bit_word_eqI simp: bit_simps)

lemma view_program_mac:
  assumes "\<And>i l. fst (e1000_eeprom_read p i l) = w i"
  shows "\<exists>ev. view (program_mac p s) = (fst (view s) @ ev @ [(REG_RAL0 p, ral_of w), (REG_RAH0 p, rah_of w)], snd (view s))"
proof -
  obtain mac s' where m: "read_mac p [0..<3] s = (mac, s')" by fastforce
  from view_read_mac [OF assms m] obtain ev where ev: "view s' = (fst (view s) @ ev, snd (view s))"
    and mac: "mac = concat (map (\<lambda>i. [ucast (w i), ucast (drop_bit 8 (w i))]) [0..<3])" by blast
  then have six: "mac = [ucast (w 0), ucast (drop_bit 8 (w 0)), ucast (w 1), ucast (drop_bit 8 (w 1)), ucast (w 2), ucast (drop_bit 8 (w 2))]"
    by (simp add: upt_rec numeral_2_eq_2)
  have "mac_ral mac = take_bit 16 (w 0) OR push_bit 16 (take_bit 16 (w 1))"
    unfolding mac_ral_def six byte_pair [symmetric] push_bit_or push_bit_push_bit by (simp add: or.assoc)
  then have "mac_ral mac = ral_of w" by (simp only: ral_of_def push_take_16)
  moreover have "mac_rah mac = rah_of w"
    unfolding mac_rah_def rah_of_def six byte_pair [symmetric] by (simp add: or.assoc)
  ultimately show ?thesis using m ev by (auto simp: program_mac_def)
qed

lemma view_reset: "\<exists>ctrl. view (e1000_reset p s) = (fst (view s) @ [(REG_CTRL p, ctrl OR push_bit 26 1)], snd (view s))"
proof -
  obtain ctrl s1 where s1: "e1000_read (REG_CTRL p) s = (ctrl, s1)" by fastforce
  obtain t s2 where s2: "reset_wait p 100000 (e1000_write (REG_CTRL p) (ctrl OR push_bit 26 1) s1) = (t, s2)" by fastforce
  have "view (e1000_reset p s) = view s2" by (simp only: e1000_reset_def Let_def s1 s2 prod.case) simp
  then show ?thesis using view_reset_wait [OF s2] view_read [OF s1] by (intro exI [of _ ctrl]) simp
qed

lemma view_rx_start: "\<exists>rctl. view (rx_start p s) = (fst (view s) @ [(REG_RCTL p, enable_rx rctl)], snd (view s))"
  using view_read by (fastforce simp: rx_start_def split: prod.splits)

lemma view_tx_start: "\<exists>tctl. view (tx_start p s) = (fst (view s) @ [(REG_TCTL p, enable_tx tctl)], snd (view s))"
  using view_read by (fastforce simp: tx_start_def split: prod.splits)

lemma view_report_link: "view (report_link p s) = view s"
  using view_link_wait by (fastforce simp: report_link_def split: prod.splits)

lemma net_init_view:
  assumes "pci_get_bar0 p (INTEL_VEND p) (E1000_DEV p) \<noteq> 0" and w: "\<And>i l. fst (e1000_eeprom_read p i l) = w i"
  shows "\<exists>ctrl rctl tctl ev. view (net_init p io_base s) =
    (fst (view s) @ [(REG_CTRL p, ctrl OR push_bit 26 1)] @ map (\<lambda>i. (REG_MTA p + of_nat (i * 4), 0)) [0..<128] @ ev @
       [(REG_RAL0 p, ral_of w), (REG_RAH0 p, rah_of w)] @ rx_regs p @ [(REG_RCTL p, enable_rx rctl)] @
       tx_regs p @ [(REG_TCTL p, enable_tx tctl), (REG_IMS p, RX_CAUSES)],
     rx_fill p (rx_descs s), tx_fill p (tx_descs s))"
proof -
  define s1 where "s1 = s\<lparr>e1000_mmio_base := pci_get_bar0 p (INTEL_VEND p) (E1000_DEV p)\<rparr>\<lparr>mmio_log := mmio_log s @
    [Pci_Write_Cmd (INTEL_VEND p) (E1000_DEV p) (pci_read_cmd p (INTEL_VEND p) (E1000_DEV p) OR 0x06)]\<rparr>"
  define s2 where "s2 = clear_mta p (e1000_reset p s1)"
  define s3 where "s3 = rx_setup p (program_mac p s2)"
  define s4 where "s4 = tx_setup p (rx_start p s3)"
  have i: "view (net_init p io_base s) = view (e1000_write (REG_IMS p) RX_CAUSES (tx_start p s4))"
    using assms(1) by (simp add: net_init_def Let_def view_report_link s1_def s2_def s3_def s4_def)
  have v1: "view s1 = view s" by (simp add: s1_def view_def)
  obtain ctrl where v2: "view (e1000_reset p s1) = (fst (view s1) @ [(REG_CTRL p, ctrl OR push_bit 26 1)], snd (view s1))"
    using view_reset by blast
  obtain ev where v3: "view (program_mac p s2) = (fst (view s2) @ ev @ [(REG_RAL0 p, ral_of w), (REG_RAH0 p, rah_of w)], snd (view s2))"
    using view_program_mac [OF w] by blast
  obtain rctl where v4: "view (rx_start p s3) = (fst (view s3) @ [(REG_RCTL p, enable_rx rctl)], snd (view s3))"
    using view_rx_start by blast
  obtain tctl where v5: "view (tx_start p s4) = (fst (view s4) @ [(REG_TCTL p, enable_tx tctl)], snd (view s4))"
    using view_tx_start by blast
  have v: "view s = (writes (mmio_log s), rx_descs s, tx_descs s)" by (simp add: view_def)
  have w2: "view s2 = (fst (view s) @ [(REG_CTRL p, ctrl OR push_bit 26 1)] @ map (\<lambda>i. (REG_MTA p + of_nat (i * 4), 0)) [0..<128], snd (view s))"
    unfolding s2_def view_clear_mta v2 v1 by (simp only: fst_conv snd_conv append_assoc)
  have w3: "view s3 = (fst (view s2) @ ev @ [(REG_RAL0 p, ral_of w), (REG_RAH0 p, rah_of w)] @ rx_regs p, rx_fill p (rx_descs s), tx_descs s)"
    unfolding s3_def view_rx_setup v3 by (simp add: w2 v)
  have w4: "view s4 = (fst (view s3) @ [(REG_RCTL p, enable_rx rctl)] @ tx_regs p, rx_fill p (rx_descs s), tx_fill p (tx_descs s))"
    unfolding s4_def view_tx_setup v4 by (simp add: w3)
  show ?thesis unfolding i
    by (rule exI [of _ ctrl], rule exI [of _ rctl], rule exI [of _ tctl], rule exI [of _ ev])
      (simp only: view_simps v5 w4 w3 w2 fst_conv snd_conv append_assoc append_Cons append_Nil)
qed

text \<open>When the card is found and its EEPROM words do not change, \<open>net_init\<close> writes exactly these
  registers in this order: the reset, 128 zeros for the multicast table, what the EEPROM read
  itself needs, the station address with its valid bit, the receive ring, the receiver
  enabled, the transmit ring, the transmitter enabled, the receive interrupts. So the receiver is
  never enabled before the table is clear and the address is set. Both rings then refer to their
  buffers, the receive ones empty and the transmit ones done.
\<close>

lemma net_init_programs:
  assumes "pci_get_bar0 p (INTEL_VEND p) (E1000_DEV p) \<noteq> 0"
    and "\<And>i l. fst (e1000_eeprom_read p i l) = w i"
    and "length (rx_descs s) = NUM_RX_DESC p" and "length (rx_buffers p) = NUM_RX_DESC p"
    and "length (tx_descs s) = NUM_TX_DESC p" and "length (tx_buffers p) = NUM_TX_DESC p"
  shows "(\<exists>ctrl rctl tctl ev. writes (mmio_log (net_init p io_base s)) =
      writes (mmio_log s) @ [(REG_CTRL p, ctrl OR push_bit 26 1)] @ map (\<lambda>i. (REG_MTA p + of_nat (i * 4), 0)) [0..<128] @ ev @
       [(REG_RAL0 p, ral_of w), (REG_RAH0 p, rah_of w)] @ rx_regs p @ [(REG_RCTL p, enable_rx rctl)] @
       tx_regs p @ [(REG_TCTL p, enable_tx tctl), (REG_IMS p, RX_CAUSES)]) \<and>
    rx_descs (net_init p io_base s) = rx_ready p (rx_descs s) \<and>
    tx_descs (net_init p io_base s) = tx_ready p (tx_descs s)"
  using net_init_view [OF assms(1,2), of io_base s] rx_fill_ready [OF assms(3,4)] tx_fill_ready [OF assms(5,6)]
  unfolding view_def by (auto simp del: append_assoc)

text \<open>A card at the documented register offsets, with one descriptor in each ring.\<close>

definition card0 :: e1000_platform where
  "card0 = \<lparr>INTEL_VEND = 0x8086, E1000_DEV = 0x100E, pci_get_bar0 = (\<lambda>_ _. 0xFEBC0000), pci_read_cmd = (\<lambda>_ _. 1),
     REG_CTRL = 0, REG_MTA = 0x5200, REG_RAL0 = 0x5400, REG_RAH0 = 0x5404,
     REG_RDBAL = 0x2800, REG_RDBAH = 0x2804, REG_RDLEN = 0x2808, REG_RDH = 0x2810, REG_RDT = 0x2818, REG_RCTL = 0x100,
     REG_TDBAL = 0x3800, REG_TDBAH = 0x3804, REG_TDLEN = 0x3808, REG_TDH = 0x3810, REG_TDT = 0x3818, REG_TCTL = 0x400,
     REG_IMS = 0xD0, REG_STATUS = 8, e1000_eeprom_read = (\<lambda>i _. ([0x5452, 0x1200, 0x5634] ! i, [])),
     NUM_RX_DESC = 1, NUM_TX_DESC = 1, rx_descs_at = 0x1000, tx_descs_at = 0x2000, rx_buffers = [0x3000], tx_buffers = [0x4000],
     sizeof_rx_desc = 16, sizeof_tx_desc = 16\<rparr>"

definition e1000_0 :: e1000 where
  "e1000_0 = \<lparr>e1000_mmio_base = 0, mmio_log = [], mmio_dev = (\<lambda>_ _. 2), rx_descs = [\<lparr>desc_addr = 0, desc_cmd = 0, desc_status = 7\<rparr>],
     tx_descs = [\<lparr>desc_addr = 0, desc_cmd = 9, desc_status = 0\<rparr>], e_out = [], e_syslog = []\<rparr>"

end
