(* ===== verification/Hfs.thy ===== *)
theory Hfs
  imports Mm_Heap Cstring
begin

text \<open>
  \<open>drivers/hfs/hfs.c\<close> and \<open>hfs_register.c\<close>: the tree of kernel objects. Nodes live at addresses,
  in a partial map beside the kernel heap they are allocated from; names are the strings the
  name pointers refer to. Following a pointer to no node, and a walk along a cyclic chain of
  siblings, is \<open>None\<close>.
\<close>

section \<open>Nodes and operations\<close>

record hfs_node_t =
  node_name :: cstring
  node_data :: u32
  parent :: u32
  first_child :: u32
  next_sibling :: u32

abbreviation (input) sizeof_hfs_node_t :: u32 where "sizeof_hfs_node_t \<equiv> 20"

type_synonym hfs_nodes = "u32 \<rightharpoonup> hfs_node_t"

record hfs =
  nodes :: hfs_nodes
  hfs_heap :: heap

definition hfs_node0 :: "cstring \<Rightarrow> u32 \<Rightarrow> hfs_node_t" where
  "hfs_node0 name data = \<lparr>node_name = name, node_data = data, parent = 0, first_child = 0, next_sibling = 0\<rparr>"

definition set_node :: "u32 \<Rightarrow> (hfs_node_t \<Rightarrow> hfs_node_t) \<Rightarrow> hfs_nodes \<Rightarrow> hfs_nodes option" where
  "set_node a f m = do { nd \<leftarrow> m a; Some (m(a \<mapsto> f nd)) }"

definition hfs_init :: "u32 \<Rightarrow> cstring \<Rightarrow> hfs \<Rightarrow> hfs" where
  "hfs_init root name st = st\<lparr>nodes := (nodes st)(root \<mapsto> hfs_node0 name 0)\<rparr>"

definition hfs_create_node :: "cstring \<Rightarrow> u32 \<Rightarrow> hfs \<Rightarrow> (u32 \<times> hfs) option" where
  "hfs_create_node name data st = do {
     (h, node) \<leftarrow> kmalloc (hfs_heap st) sizeof_hfs_node_t;
     if node = 0 then Some (0, st\<lparr>hfs_heap := h\<rparr>)
     else Some (node, st\<lparr>hfs_heap := h, nodes := (nodes st)(node \<mapsto> hfs_node0 name data)\<rparr>)
   }"

definition hfs_add_child :: "u32 \<Rightarrow> u32 \<Rightarrow> hfs \<Rightarrow> (bool \<times> hfs) option" where
  "hfs_add_child prnt child st =
     (if prnt = 0 \<or> child = 0 then Some (False, st)
      else do {
        m \<leftarrow> set_node child (\<lambda>nd. nd\<lparr>parent := prnt\<rparr>) (nodes st);
        p \<leftarrow> m prnt;
        m \<leftarrow> set_node child (\<lambda>nd. nd\<lparr>next_sibling := first_child p\<rparr>) m;
        m \<leftarrow> set_node prnt (\<lambda>nd. nd\<lparr>first_child := child\<rparr>) m;
        Some (True, st\<lparr>nodes := m\<rparr>)
      })"

partial_function (option) find_child_loop :: "hfs_nodes \<Rightarrow> cstring \<Rightarrow> u32 \<Rightarrow> u32 option" where
  "find_child_loop m name current =
     (if current = 0 then Some 0
      else do {
        nd \<leftarrow> m current;
        if str_eq (node_name nd) name then Some current
        else find_child_loop m name (next_sibling nd)
      })"

definition hfs_find_child :: "u32 \<Rightarrow> cstring \<Rightarrow> hfs \<Rightarrow> u32 option" where
  "hfs_find_child prnt name st = do { p \<leftarrow> nodes st prnt; find_child_loop (nodes st) name (first_child p) }"

definition hfs_find_path :: "u32 \<Rightarrow> cstring \<Rightarrow> hfs \<Rightarrow> u32 option" where
  "hfs_find_path root path st = hfs_find_child root path st"

partial_function (option) unlink_loop :: "hfs_nodes \<Rightarrow> u32 \<Rightarrow> u32 \<Rightarrow> u32 option" where
  "unlink_loop m node current =
     (if current = 0 then Some 0
      else do {
        nd \<leftarrow> m current;
        if next_sibling nd = node then Some current else unlink_loop m node (next_sibling nd)
      })"

definition hfs_unlink :: "u32 \<Rightarrow> hfs_node_t \<Rightarrow> hfs_nodes \<Rightarrow> hfs_nodes option" where
  "hfs_unlink node nd m = do {
     p \<leftarrow> m (parent nd);
     if first_child p = node then set_node (parent nd) (\<lambda>p. p\<lparr>first_child := next_sibling nd\<rparr>) m
     else do {
       current \<leftarrow> unlink_loop m node (first_child p);
       if current \<noteq> 0 then set_node current (\<lambda>c. c\<lparr>next_sibling := next_sibling nd\<rparr>) m else Some m
     }
   }"

definition hfs_remove :: "u32 \<Rightarrow> hfs \<Rightarrow> hfs option" where
  "hfs_remove node st =
     (if node = 0 then Some st
      else do {
        nd \<leftarrow> nodes st node;
        if parent nd = 0 then Some st
        else do {
          m \<leftarrow> hfs_unlink node nd (nodes st);
          h \<leftarrow> kfree (hfs_heap st) node;
          Some (st\<lparr>nodes := m(node := None), hfs_heap := h\<rparr>)
        }
      })"

section \<open>The static registry\<close>

record hfs_static_entry_t =
  parent_path :: "cstring option"
  entry_name :: cstring
  entry_data :: u32

text \<open>The entries between the two linker symbols are the list argument.\<close>

fun hfs_register_apply :: "hfs_static_entry_t list \<Rightarrow> u32 \<Rightarrow> hfs \<Rightarrow> hfs option" where
  "hfs_register_apply [] root st = Some st"
| "hfs_register_apply (e # es) root st = do {
     prnt \<leftarrow> (case parent_path e of
         Some path \<Rightarrow> if peek path \<noteq> 0 then do { found \<leftarrow> hfs_find_path root path st; Some (if found \<noteq> 0 then found else root) } else Some root
       | None \<Rightarrow> Some root);
     (node, st) \<leftarrow> hfs_create_node (entry_name e) (entry_data e) st;
     st \<leftarrow> (if node \<noteq> 0 then do { (_, st) \<leftarrow> hfs_add_child prnt node st; Some st } else Some st);
     hfs_register_apply es root st
   }"

section \<open>Sibling chains\<close>

fun chain :: "hfs_nodes \<Rightarrow> u32 \<Rightarrow> u32 list \<Rightarrow> bool" where
  "chain m a [] \<longleftrightarrow> a = 0"
| "chain m a (c # cs) \<longleftrightarrow> a = c \<and> c \<noteq> 0 \<and> (\<exists>nd. m c = Some nd \<and> chain m (next_sibling nd) cs)"

lemma chain_unique: "chain m a cs \<Longrightarrow> chain m a ds \<Longrightarrow> cs = ds"
proof (induction cs arbitrary: a ds)
  case Nil
  then show ?case by (cases ds) auto
next
  case (Cons c cs)
  then show ?case by (cases ds) auto
qed

lemma chain_cong:
  assumes "chain m a cs" "\<And>c nd. c \<in> set cs \<Longrightarrow> m c = Some nd \<Longrightarrow> \<exists>nd'. m' c = Some nd' \<and> next_sibling nd' = next_sibling nd"
  shows "chain m' a cs"
  using assms by (induction cs arbitrary: a) fastforce+

lemma chain_dom: "chain m a cs \<Longrightarrow> c \<in> set cs \<Longrightarrow> c \<noteq> 0 \<and> (\<exists>nd. m c = Some nd)"
  by (induction cs arbitrary: a) auto

lemma chain_append:
  "chain m a (xs @ c # ys) \<Longrightarrow> \<exists>nd. m c = Some nd \<and> chain m c (c # ys) \<and> chain m (next_sibling nd) ys"
  by (induction xs arbitrary: a) auto

lemma chain_distinct: "chain m a cs \<Longrightarrow> distinct cs"
proof (induction cs arbitrary: a)
  case (Cons c cs)
  then obtain nd where nd: "m c = Some nd" "chain m (next_sibling nd) cs" "chain m c (c # cs)" by auto
  have "c \<notin> set cs"
  proof
    assume "c \<in> set cs"
    then obtain xs ys where "cs = xs @ c # ys" by (meson split_list)
    then have "chain m c (c # ys)" "cs = xs @ c # ys" using chain_append nd(2) by blast+
    then have "c # ys = c # cs" using chain_unique nd(3) by blast
    then show False using \<open>cs = xs @ c # ys\<close> by simp
  qed
  then show ?case using Cons.IH nd(2) by simp
qed simp

lemma find_child_loop_chain:
  "chain m a cs \<Longrightarrow> find_child_loop m name a =
     Some (case find (\<lambda>c. cstr (node_name (the (m c))) = cstr name) cs of None \<Rightarrow> 0 | Some c \<Rightarrow> c)"
  by (induction cs arbitrary: a) (subst find_child_loop.simps; auto simp: str_eq_iff)+

lemma unlink_loop_chain:
  "chain m a (xs @ b # node # ys) \<Longrightarrow> unlink_loop m node a = Some b"
proof (induction xs arbitrary: a)
  case Nil
  then show ?case by (subst unlink_loop.simps) auto
next
  case (Cons c xs)
  then obtain nd where nd: "a = c" "c \<noteq> 0" "m c = Some nd" "chain m (next_sibling nd) (xs @ b # node # ys)" by auto
  have "node \<notin> set (xs @ [b])" using chain_distinct [OF nd(4)] by auto
  then have "next_sibling nd \<noteq> node" using nd(4) by (cases xs) auto
  then show ?case using nd Cons.IH by (subst unlink_loop.simps) simp
qed

lemma unlink_loop_absent:
  "chain m a cs \<Longrightarrow> node \<notin> set cs \<Longrightarrow> node \<noteq> 0 \<Longrightarrow> unlink_loop m node a = Some 0"
proof (induction cs arbitrary: a)
  case Nil
  then show ?case by (subst unlink_loop.simps) simp
next
  case (Cons c cs)
  then obtain nd where nd: "a = c" "c \<noteq> 0" "m c = Some nd" "chain m (next_sibling nd) cs" by auto
  then have "next_sibling nd \<noteq> node" using Cons.prems by (cases cs) auto
  then show ?case using nd Cons by (subst unlink_loop.simps) simp
qed

lemma chain_unlink:
  assumes "chain m a (xs @ b # node # ys)" "m b = Some bn" "m node = Some nd"
  shows "chain (m(b \<mapsto> bn\<lparr>next_sibling := next_sibling nd\<rparr>)) a (xs @ b # ys)"
  using assms
proof (induction xs arbitrary: a)
  case Nil
  then have "b \<notin> set ys" "chain m (next_sibling nd) ys" using chain_distinct by fastforce+
  then show ?case using Nil by (auto intro!: chain_cong [of m "next_sibling nd" ys])
next
  case (Cons c xs)
  then have "c \<noteq> b" using chain_distinct by fastforce
  then show ?case using Cons by auto
qed

section \<open>Trees\<close>

definition children :: "hfs_nodes \<Rightarrow> u32 \<Rightarrow> u32 list \<Rightarrow> bool" where
  "children m p cs \<longleftrightarrow> (\<exists>nd. m p = Some nd \<and> chain m (first_child nd) cs)"

text \<open>Every node has a proper list of children, and a child knows its parent. No node is its own
  parent; every node but the static root is a block of the heap.\<close>

definition tree_ok :: "hfs_nodes \<Rightarrow> bool" where
  "tree_ok m \<longleftrightarrow> m 0 = None \<and>
     (\<forall>p nd. m p = Some nd \<longrightarrow> parent nd \<noteq> p \<and>
        (\<exists>cs. chain m (first_child nd) cs \<and> (\<forall>c \<in> set cs. \<exists>cn. m c = Some cn \<and> parent cn = p)))"

definition hfs_ok :: "nat \<Rightarrow> u32 \<Rightarrow> hfs \<Rightarrow> bool" where
  "hfs_ok cap root st \<longleftrightarrow> heap_ok cap (hfs_heap st) \<and> unat root < unat (g_heap (hfs_heap st)) \<and>
     tree_ok (nodes st) \<and> nodes st root \<noteq> None \<and> (\<forall>a. nodes st a \<noteq> None \<longrightarrow> a = root \<or> owns cap (hfs_heap st) 20 a)"

lemma children_unique: "children m p cs \<Longrightarrow> children m p ds \<Longrightarrow> cs = ds"
  by (auto simp: children_def dest: chain_unique)

lemma tree_okD:
  assumes "tree_ok m" "children m p cs"
  shows "p \<noteq> 0" "\<And>c. c \<in> set cs \<Longrightarrow> \<exists>cn. m c = Some cn \<and> parent cn = p" "p \<notin> set cs" "distinct cs"
proof -
  obtain nd where nd: "m p = Some nd" "chain m (first_child nd) cs" using assms(2) by (auto simp: children_def)
  then show "p \<noteq> 0" "distinct cs" using assms(1) chain_distinct by (auto simp: tree_ok_def)
  obtain ds where ds: "chain m (first_child nd) ds" "\<forall>c \<in> set ds. \<exists>cn. m c = Some cn \<and> parent cn = p"
    using assms(1) nd(1) unfolding tree_ok_def by blast
  have "ds = cs" using chain_unique [OF ds(1) nd(2)] .
  then show c: "\<And>c. c \<in> set cs \<Longrightarrow> \<exists>cn. m c = Some cn \<and> parent cn = p" using ds(2) by blast
  show "p \<notin> set cs" using c assms(1) by (auto simp: tree_ok_def)
qed

lemma tree_ok_children: "tree_ok m \<Longrightarrow> m p = Some nd \<Longrightarrow> \<exists>cs. children m p cs"
  unfolding tree_ok_def children_def by blast

lemma tree_okI:
  assumes "m 0 = None" "\<And>p nd. m p = Some nd \<Longrightarrow> parent nd \<noteq> p"
    and "\<And>p nd. m p = Some nd \<Longrightarrow> \<exists>cs. children m p cs \<and> (\<forall>c \<in> set cs. \<exists>cn. m c = Some cn \<and> parent cn = p)"
  shows "tree_ok m"
  using assms unfolding tree_ok_def children_def by fastforce

text \<open>A change of the map that keeps the children of \<open>r\<close>.\<close>

lemma children_keep:
  assumes "children m r cs" "m' r = Some rn'" "m r = Some rn" "first_child rn' = first_child rn"
    and "\<And>c nd. c \<in> set cs \<Longrightarrow> m c = Some nd \<Longrightarrow> \<exists>nd'. m' c = Some nd' \<and> next_sibling nd' = next_sibling nd"
  shows "children m' r cs"
  using assms chain_cong [of m "first_child rn" cs m'] by (auto simp: children_def)

lemma add_tree:
  assumes ok: "tree_ok m" and p: "m p = Some pn" and q: "m q = Some qn" "parent qn = 0" and pq: "p \<noteq> q" and cs: "children m p cs"
  defines "m' \<equiv> m(q \<mapsto> qn\<lparr>parent := p, next_sibling := first_child pn\<rparr>, p \<mapsto> pn\<lparr>first_child := q\<rparr>)"
  shows "tree_ok m'" "children m' p (q # cs)" "\<And>r ds. r \<noteq> p \<Longrightarrow> children m r ds \<Longrightarrow> children m' r ds"
proof -
  have notin: "q \<notin> set ds" if "children m r ds" for r ds
    using tree_okD(1,2) [OF ok that] q by fastforce
  have q0: "q \<noteq> 0" "p \<noteq> 0" using ok q p unfolding tree_ok_def by auto
  have "chain m (first_child pn) cs" using cs p by (auto simp: children_def)
  then have "chain m' (first_child pn) cs"
    by (rule chain_cong) (use notin [OF cs] tree_okD(3) [OF ok cs] in \<open>auto simp: m'_def\<close>)
  then show c1: "children m' p (q # cs)" using pq q0 by (auto simp: children_def m'_def)
  show c2: "children m' r ds" if r: "r \<noteq> p" and d: "children m r ds" for r ds
  proof -
    obtain rn where rn: "m r = Some rn" using d by (auto simp: children_def)
    obtain rn' where rn': "m' r = Some rn'" "first_child rn' = first_child rn"
      using rn q r by (cases "r = q") (auto simp: m'_def)
    show ?thesis using notin [OF d] p
      by (intro children_keep [where m' = m', OF d rn'(1) rn rn'(2)]) (auto simp: m'_def)
  qed
  show "tree_ok m'"
  proof (rule tree_okI)
    show "m' 0 = None" using ok q0 by (simp add: m'_def tree_ok_def)
    have "parent nd \<noteq> r" if "m r = Some nd" for r nd using that ok by (simp add: tree_ok_def)
    then show "parent nd \<noteq> r" if "m' r = Some nd" for r nd
      using that p pq by (fastforce simp: m'_def split: if_splits)
    fix r rn' assume r: "m' r = Some rn'"
    show "\<exists>cs. children m' r cs \<and> (\<forall>c \<in> set cs. \<exists>cn. m' c = Some cn \<and> parent cn = r)"
    proof (cases "r = p")
      case True
      have "\<exists>cn. m' c = Some cn \<and> parent cn = r" if "c \<in> set (q # cs)" for c
        using that tree_okD(2,3) [OF ok cs] pq True by (auto simp: m'_def)
      then show ?thesis using c1 True by blast
    next
      case False
      obtain rn where "m r = Some rn" using r q False by (auto simp: m'_def split: if_splits)
      then obtain ds where ds: "children m r ds" using tree_ok_children [OF ok] by blast
      have "\<exists>cn. m' c = Some cn \<and> parent cn = r" if "c \<in> set ds" for c
        using tree_okD(2) [OF ok ds that] notin [OF ds] that p by (auto simp: m'_def)
      then show ?thesis using c2 [OF False ds] by blast
    qed
  qed
qed

lemma hfs_add_child_eq:
  assumes "nodes st p = Some pn" "nodes st q = Some qn" "p \<noteq> q" "p \<noteq> 0" "q \<noteq> 0"
  shows "hfs_add_child p q st = Some (True, st\<lparr>nodes :=
    (nodes st)(q \<mapsto> qn\<lparr>parent := p, next_sibling := first_child pn\<rparr>, p \<mapsto> pn\<lparr>first_child := q\<rparr>)\<rparr>)"
  using assms by (simp add: hfs_add_child_def set_node_def)

lemma hfs_add_child_ok:
  assumes ok: "hfs_ok cap root st" and cs: "children (nodes st) p cs" and q: "nodes st q = Some qn" "parent qn = 0" and "p \<noteq> q"
  shows "\<exists>st'. hfs_add_child p q st = Some (True, st') \<and> hfs_ok cap root st' \<and> hfs_heap st' = hfs_heap st \<and>
    children (nodes st') p (q # cs) \<and> (\<forall>r ds. r \<noteq> p \<longrightarrow> children (nodes st) r ds \<longrightarrow> children (nodes st') r ds) \<and>
    (\<forall>a. map_option node_name (nodes st' a) = map_option node_name (nodes st a))"
proof -
  obtain pn where pn: "nodes st p = Some pn" using cs by (auto simp: children_def)
  have t: "tree_ok (nodes st)" using ok by (simp add: hfs_ok_def)
  then have nz: "p \<noteq> 0" "q \<noteq> 0" using pn q by (auto simp: tree_ok_def)
  note add = add_tree [OF t pn q assms(5) cs]
  show ?thesis
    unfolding hfs_add_child_eq [OF pn q(1) assms(5) nz]
    using ok add pn q assms(5) by (auto simp: hfs_ok_def)
qed

text \<open>What unlinking a child of \<open>p\<close> may change: the first child of \<open>p\<close> and the links inside the chain.\<close>

definition relinked :: "u32 \<Rightarrow> u32 list \<Rightarrow> hfs_nodes \<Rightarrow> hfs_nodes \<Rightarrow> bool" where
  "relinked p cs m m' \<longleftrightarrow> (\<forall>a. case m a of None \<Rightarrow> m' a = None
     | Some nd \<Rightarrow> (\<exists>nd'. m' a = Some nd' \<and> parent nd' = parent nd \<and> node_name nd' = node_name nd \<and>
         (a = p \<or> first_child nd' = first_child nd) \<and> (a \<in> set cs \<or> next_sibling nd' = next_sibling nd)))"

lemma relinkedD:
  assumes "relinked p cs m m'"
  shows "m a = None \<longleftrightarrow> m' a = None" "m a = Some nd \<Longrightarrow> \<exists>nd'. m' a = Some nd' \<and> parent nd' = parent nd \<and>
    (a \<noteq> p \<longrightarrow> first_child nd' = first_child nd) \<and> (a \<notin> set cs \<longrightarrow> next_sibling nd' = next_sibling nd)"
    "map_option node_name (m' a) = map_option node_name (m a)"
  using assms [unfolded relinked_def, rule_format, of a] by (auto split: option.splits)

lemma relinked_refl: "relinked p cs m m"
  by (simp add: relinked_def split: option.split)

lemma hfs_unlink_children:
  assumes ok: "tree_ok m" and nd: "m node = Some nd" and cs: "children m (parent nd) cs"
  shows "\<exists>m'. hfs_unlink node nd m = Some m' \<and> children m' (parent nd) (remove1 node cs) \<and> relinked (parent nd) cs m m'"
proof -
  let ?p = "parent nd"
  obtain pn where pn: "m ?p = Some pn" "chain m (first_child pn) cs" using cs by (auto simp: children_def)
  have nz: "node \<noteq> 0" using ok nd by (auto simp: tree_ok_def)
  show ?thesis
  proof (cases "node \<in> set cs")
    case False
    then have "first_child pn \<noteq> node" using pn(2) nz by (cases cs) auto
    then show ?thesis
      using unlink_loop_absent [OF pn(2) False nz] pn cs False
      by (auto simp: hfs_unlink_def remove1_idem relinked_refl)
  next
    case True
    then obtain xs ys where xs: "cs = xs @ node # ys" "node \<notin> set xs" by (meson split_list_first)
    have r: "remove1 node cs = xs @ ys" using xs by (simp add: remove1_append)
    have pcs: "?p \<notin> set cs" by (rule tree_okD(3) [OF ok cs])
    show ?thesis
    proof (cases xs rule: rev_cases)
      case Nil
      let ?m = "m(?p \<mapsto> pn\<lparr>first_child := next_sibling nd\<rparr>)"
      have "hfs_unlink node nd m = Some ?m" using pn nd xs Nil by (simp add: hfs_unlink_def set_node_def)
      moreover have "chain m (next_sibling nd) ys" using pn(2) nd xs Nil by auto
      then have "chain ?m (next_sibling nd) ys" by (rule chain_cong) (use pcs xs in auto)
      then have "children ?m ?p (remove1 node cs)" using r Nil by (simp add: children_def)
      moreover have "relinked ?p cs m ?m" using pn by (auto simp: relinked_def split: option.split)
      ultimately show ?thesis by blast
    next
      case (snoc zs b)
      have ch: "chain m (first_child pn) (zs @ b # node # ys)" using pn(2) xs snoc by simp
      obtain bn where bn: "m b = Some bn" using chain_append [OF ch] by blast
      have b: "b \<noteq> 0" "b \<in> set cs" using chain_dom [OF ch, of b] xs snoc by auto
      have "node \<notin> set (zs @ [b])" using chain_distinct [OF ch] by auto
      then have "first_child pn \<noteq> node" using ch by (cases zs) auto
      let ?m = "m(b \<mapsto> bn\<lparr>next_sibling := next_sibling nd\<rparr>)"
      have "hfs_unlink node nd m = Some ?m"
        using pn(1) unlink_loop_chain [OF ch] \<open>first_child pn \<noteq> node\<close> b bn by (simp add: hfs_unlink_def set_node_def)
      moreover have "children ?m ?p (remove1 node cs)"
        using chain_unlink [OF ch bn nd] r snoc pn(1) pcs b by (auto simp: children_def)
      moreover have "relinked ?p cs m ?m" using bn b by (auto simp: relinked_def split: option.split)
      ultimately show ?thesis by blast
    qed
  qed
qed

lemma remove_tree:
  assumes ok: "tree_ok m" and nd: "m node = Some nd" and cs: "children m p cs" and p: "p = parent nd"
    and m1: "children m1 p (remove1 node cs)" "relinked p cs m m1"
  shows "tree_ok (m1(node := None))" "children (m1(node := None)) p (remove1 node cs)"
    "\<And>r ds. r \<noteq> p \<Longrightarrow> r \<noteq> node \<Longrightarrow> children m r ds \<Longrightarrow> children (m1(node := None)) r ds"
proof -
  let ?m = "m1(node := None)"
  have pn: "p \<noteq> node" using ok nd p by (auto simp: tree_ok_def)
  have dist: "distinct cs" by (rule tree_okD(4) [OF ok cs])
  obtain pn1 where pn1: "m1 p = Some pn1" using m1(1) by (auto simp: children_def)
  then show c1: "children ?m p (remove1 node cs)"
    using pn dist by (intro children_keep [where m' = ?m and rn' = pn1 and rn = pn1, OF m1(1)]) auto
  have notin: "node \<notin> set ds" "c \<in> set ds \<Longrightarrow> c \<notin> set cs" if "r \<noteq> p" "children m r ds" for r ds c
    using tree_okD(2) [OF ok that(2)] tree_okD(2) [OF ok cs] that(1) nd p by fastforce+
  show c2: "children ?m r ds" if r: "r \<noteq> p" "r \<noteq> node" and d: "children m r ds" for r ds
  proof -
    obtain rn where rn: "m r = Some rn" using d by (auto simp: children_def)
    obtain rn' where rn': "m1 r = Some rn'" "first_child rn' = first_child rn" using relinkedD(2) [OF m1(2) rn] r by auto
    show ?thesis
    proof (rule children_keep [where m' = ?m, OF d _ rn rn'(2)])
      show "?m r = Some rn'" using rn' r by simp
      fix c cn assume "c \<in> set ds" "m c = Some cn"
      then show "\<exists>nd'. ?m c = Some nd' \<and> next_sibling nd' = next_sibling cn"
        using relinkedD(2) [OF m1(2)] notin [OF r(1) d] by fastforce
    qed
  qed
  have par: "\<exists>cn'. ?m c = Some cn' \<and> parent cn' = q" if "m c = Some cn" "parent cn = q" "c \<noteq> node" for c cn q
    using relinkedD(2) [OF m1(2) that(1)] that by auto
  show "tree_ok ?m"
  proof (rule tree_okI)
    show "?m 0 = None" using ok relinkedD(1) [OF m1(2), of 0] by (simp add: tree_ok_def)
    show "parent an \<noteq> a" if a: "?m a = Some an" for a an
    proof -
      obtain an0 where an0: "m a = Some an0" using a relinkedD(1) [OF m1(2), of a] by (cases "m a") (auto split: if_splits)
      then have "parent an0 \<noteq> a" using ok by (simp add: tree_ok_def)
      then show ?thesis using par [OF an0 refl] a by (auto split: if_splits)
    qed
    fix r rn assume r: "?m r = Some rn"
    then have rn: "r \<noteq> node" by auto
    show "\<exists>cs. children ?m r cs \<and> (\<forall>c \<in> set cs. \<exists>cn. ?m c = Some cn \<and> parent cn = r)"
    proof (cases "r = p")
      case True
      have "\<exists>cn. ?m c = Some cn \<and> parent cn = p" if "c \<in> set (remove1 node cs)" for c
        using that dist tree_okD(2) [OF ok cs, of c] par by auto
      then show ?thesis using c1 True by blast
    next
      case False
      obtain rn0 where "m r = Some rn0" using r relinkedD(1) [OF m1(2), of r] by (cases "m r") (auto split: if_splits)
      then obtain ds where ds: "children m r ds" using tree_ok_children [OF ok] by blast
      have "\<exists>cn. ?m c = Some cn \<and> parent cn = r" if "c \<in> set ds" for c
        using tree_okD(2) [OF ok ds that] notin(1) [OF False ds] that par by metis
      then show ?thesis using c2 [OF False rn ds] by blast
    qed
  qed
qed

lemma hfs_remove_ok:
  assumes ok: "hfs_ok cap root st" and q: "nodes st q = Some nd" "q \<noteq> root" and cs: "children (nodes st) (parent nd) cs"
  shows "\<exists>st'. hfs_remove q st = Some st' \<and> hfs_ok cap root st' \<and> nodes st' q = None \<and>
    children (nodes st') (parent nd) (remove1 q cs) \<and>
    (\<forall>r ds. r \<noteq> parent nd \<longrightarrow> r \<noteq> q \<longrightarrow> children (nodes st) r ds \<longrightarrow> children (nodes st') r ds) \<and>
    (\<forall>a. a \<noteq> q \<longrightarrow> map_option node_name (nodes st' a) = map_option node_name (nodes st a))"
proof -
  have t: "tree_ok (nodes st)" using ok by (simp add: hfs_ok_def)
  obtain m1 where m1: "hfs_unlink q nd (nodes st) = Some m1" "children m1 (parent nd) (remove1 q cs)" "relinked (parent nd) cs (nodes st) m1"
    using hfs_unlink_children [OF t q(1) cs] by blast
  have own: "owns cap (hfs_heap st) 20 q" using ok q by (auto simp: hfs_ok_def)
  obtain h where h: "kfree (hfs_heap st) q = Some h" "heap_ok cap h" "\<forall>j p. owns cap (hfs_heap st) j p \<longrightarrow> p \<noteq> q \<longrightarrow> owns cap h j p"
    using free_owned [OF _ own] ok by (auto simp: hfs_ok_def)
  let ?st = "st\<lparr>nodes := m1(q := None), hfs_heap := h\<rparr>"
  note rt = remove_tree [OF t q(1) cs refl m1(2,3)]
  have nz: "q \<noteq> 0" "parent nd \<noteq> 0" using t q(1) tree_okD(1) [OF t cs] by (auto simp: tree_ok_def)
  then have "hfs_remove q st = Some ?st" using q(1) m1(1) h(1) by (simp add: hfs_remove_def)
  moreover have "hfs_ok cap root ?st"
    using ok rt(1) h q(2) kfree_g_heap [OF h(1)] relinkedD(1) [OF m1(3)] by (auto simp: hfs_ok_def)
  ultimately show ?thesis using rt(2,3) relinkedD(3) [OF m1(3)] by (intro exI [of _ ?st]) auto
qed

lemma hfs_create_node_ok:
  assumes ok: "hfs_ok cap root st"
  shows "\<exists>q st'. hfs_create_node name data st = Some (q, st') \<and> hfs_ok cap root st' \<and>
    (if q = 0 then st' = st else nodes st q = None \<and> nodes st' = (nodes st)(q \<mapsto> hfs_node0 name data) \<and>
       (\<forall>r ds. children (nodes st) r ds \<longrightarrow> children (nodes st') r ds))"
proof -
  let ?h = "hfs_heap st" and ?m = "nodes st"
  have hok: "heap_ok cap ?h" and t: "tree_ok ?m" using ok by (simp_all add: hfs_ok_def)
  obtain h q where h: "kmalloc ?h 20 = Some (h, q)" using heap_c.alloc_returns [OF hok] by blast
  show ?thesis
  proof (cases "q = 0")
    case True
    then have "h = ?h" using heap_c.alloc_null [OF hok] h by blast
    then show ?thesis using h True ok by (simp add: hfs_create_node_def)
  next
    case False
    note fr = alloc_fresh [OF hok h False]
    have own: "owns cap h 20 q" using fr(3) by simp
    have "unat root < unat (g_heap ?h)" using ok by (simp add: hfs_ok_def)
    then have qr: "q \<noteq> root" using owns_inside [OF own] kmalloc_g_heap [OF h] by auto
    have new: "?m q = None" using ok fr(4) qr by (auto simp: hfs_ok_def)
    let ?m' = "?m(q \<mapsto> hfs_node0 name data)"
    have keep: "children ?m' r ds" if d: "children ?m r ds" for r ds
    proof -
      obtain rn where "?m r = Some rn" using d by (auto simp: children_def)
      then show ?thesis using new by (intro children_keep [where m' = ?m' and rn' = rn and rn = rn, OF d]) auto
    qed
    have "tree_ok ?m'"
    proof (rule tree_okI)
      show "?m' 0 = None" using t False by (simp add: tree_ok_def)
      show "parent an \<noteq> a" if "?m' a = Some an" for a an
        using that t False by (auto simp: hfs_node0_def tree_ok_def split: if_splits)
      fix r rn assume r: "?m' r = Some rn"
      show "\<exists>cs. children ?m' r cs \<and> (\<forall>c \<in> set cs. \<exists>cn. ?m' c = Some cn \<and> parent cn = r)"
      proof (cases "r = q")
        case True
        then show ?thesis by (intro exI [of _ "[]"]) (simp add: children_def hfs_node0_def)
      next
        case r: False
        then obtain ds where ds: "children ?m r ds" using \<open>?m' r = Some rn\<close> tree_ok_children [OF t] by fastforce
        have "\<exists>cn. ?m' c = Some cn \<and> parent cn = r" if "c \<in> set ds" for c
          using tree_okD(2) [OF t ds that] new by auto
        then show ?thesis using keep [OF ds] by blast
      qed
    qed
    then have "hfs_ok cap root (st\<lparr>hfs_heap := h, nodes := ?m'\<rparr>)"
      using ok fr(1) own owns_mono [OF fr(2)] kmalloc_g_heap [OF h] by (auto simp: hfs_ok_def)
    then show ?thesis using h False new keep by (simp add: hfs_create_node_def)
  qed
qed

lemma hfs_find_child_eq:
  "children (nodes st) p cs \<Longrightarrow> hfs_find_child p name st =
     Some (case find (\<lambda>c. cstr (node_name (the (nodes st c))) = cstr name) cs of None \<Rightarrow> 0 | Some c \<Rightarrow> c)"
  by (auto simp: children_def hfs_find_child_def find_child_loop_chain)

lemma find_or_zero:
  fixes xs :: "u32 list"
  assumes "0 \<notin> set xs"
  shows "if (case find P xs of None \<Rightarrow> 0 | Some c \<Rightarrow> c) = 0 then \<forall>c \<in> set xs. \<not> P c
    else (case find P xs of None \<Rightarrow> 0 | Some c \<Rightarrow> c) \<in> set xs \<and> P (case find P xs of None \<Rightarrow> 0 | Some c \<Rightarrow> c)"
  using assms by (induction xs) auto

lemma hfs_create_add_ok:
  assumes ok: "hfs_ok cap root st" and cs: "children (nodes st) p cs"
    and q: "hfs_create_node name data st = Some (q, st1)" "q \<noteq> 0"
  shows "\<exists>st2. hfs_add_child p q st1 = Some (True, st2) \<and> hfs_ok cap root st2 \<and> children (nodes st2) p (q # cs) \<and>
    (\<forall>r ds. r \<noteq> p \<longrightarrow> children (nodes st) r ds \<longrightarrow> children (nodes st2) r ds) \<and>
    nodes st q = None \<and> (\<exists>qn. nodes st2 q = Some qn \<and> node_name qn = name \<and> parent qn = p) \<and>
    (\<forall>a. a \<noteq> q \<longrightarrow> map_option node_name (nodes st2 a) = map_option node_name (nodes st a))"
proof -
  have c: "hfs_ok cap root st1" "nodes st q = None" "nodes st1 = (nodes st)(q \<mapsto> hfs_node0 name data)"
    "\<And>r ds. children (nodes st) r ds \<Longrightarrow> children (nodes st1) r ds"
    using hfs_create_node_ok [OF ok, of name data] q by auto
  have qn: "nodes st1 q = Some (hfs_node0 name data)" "parent (hfs_node0 name data) = 0" by (simp_all add: c(3) hfs_node0_def)
  obtain pn where pn: "nodes st p = Some pn" using cs by (auto simp: children_def)
  have pq: "p \<noteq> q" using pn c(2) by auto
  obtain st2 where st2: "hfs_add_child p q st1 = Some (True, st2)" "hfs_ok cap root st2" "children (nodes st2) p (q # cs)"
    "\<forall>r ds. r \<noteq> p \<longrightarrow> children (nodes st1) r ds \<longrightarrow> children (nodes st2) r ds"
    "\<forall>a. map_option node_name (nodes st2 a) = map_option node_name (nodes st1 a)"
    using hfs_add_child_ok [OF c(1) c(4) [OF cs] qn pq] by blast
  have "tree_ok (nodes st2)" using st2(2) by (simp add: hfs_ok_def)
  then obtain qn2 where "nodes st2 q = Some qn2" "parent qn2 = p" using tree_okD(2) [OF _ st2(3), of q] by auto
  moreover have "node_name qn2 = name" using st2(5) [rule_format, of q] calculation(1) by (simp add: c(3) hfs_node0_def)
  ultimately show ?thesis using st2 c(2,4) by (auto simp: c(3))
qed

lemma hfs_register_apply_ok: "hfs_ok cap root st \<Longrightarrow> \<exists>st'. hfs_register_apply es root st = Some st' \<and> hfs_ok cap root st'"
proof (induction es arbitrary: st)
  case (Cons e es)
  have t: "tree_ok (nodes st)" and "nodes st root \<noteq> None" using Cons.prems by (auto simp: hfs_ok_def)
  then obtain rs where rs: "children (nodes st) root rs" using tree_ok_children by blast
  let ?prnt = "case parent_path e of
      Some path \<Rightarrow> if peek path \<noteq> 0 then do { found \<leftarrow> hfs_find_path root path st; Some (if found \<noteq> 0 then found else root) } else Some root
    | None \<Rightarrow> Some root"
  have "\<exists>p cs. ?prnt = Some p \<and> children (nodes st) p cs"
  proof (cases "\<exists>path c. parent_path e = Some path \<and> peek path \<noteq> 0 \<and> find (\<lambda>c. cstr (node_name (the (nodes st c))) = cstr path) rs = Some c")
    case True
    then obtain path c where c: "parent_path e = Some path" "peek path \<noteq> 0" "find (\<lambda>c. cstr (node_name (the (nodes st c))) = cstr path) rs = Some c" by blast
    then have "c \<in> set rs" by (auto simp: find_Some_iff)
    then obtain cn where cn: "nodes st c = Some cn" using tree_okD(2) [OF t rs] by blast
    then obtain cs where "children (nodes st) c cs" using tree_ok_children [OF t] by blast
    then show ?thesis using c rs hfs_find_child_eq [OF rs, of path] by (auto simp: hfs_find_path_def)
  next
    case False
    then have "?prnt = Some root"
      using hfs_find_child_eq [OF rs] by (auto simp: hfs_find_path_def split: option.split)
    then show ?thesis using rs by blast
  qed
  then obtain p cs where p: "?prnt = Some p" "children (nodes st) p cs" by blast
  obtain q st1 where q: "hfs_create_node (entry_name e) (entry_data e) st = Some (q, st1)" "hfs_ok cap root st1"
    using hfs_create_node_ok [OF Cons.prems, of "entry_name e" "entry_data e"] by blast
  show ?case
  proof (cases "q = 0")
    case True
    then show ?thesis using p(1) q Cons.IH [OF q(2)] by simp
  next
    case False
    obtain st2 where "hfs_add_child p q st1 = Some (True, st2)" "hfs_ok cap root st2"
      using hfs_create_add_ok [OF Cons.prems p(2) q(1) False] by blast
    then show ?thesis using p(1) q False Cons.IH [of st2] by simp
  qed
qed simp

section \<open>Reachable trees\<close>

text \<open>The operations as the kernel may use them: a new child is a node that has no parent yet, and only a
  node below a node of the tree is removed, never the root.\<close>

inductive hfs_step :: "u32 \<Rightarrow> hfs \<Rightarrow> hfs \<Rightarrow> bool" for root where
  hfs_create: "hfs_create_node name data st = Some (q, st') \<Longrightarrow> hfs_step root st st'"
| hfs_add: "nodes st p \<noteq> None \<Longrightarrow> nodes st q = Some nd \<Longrightarrow> parent nd = 0 \<Longrightarrow> p \<noteq> q \<Longrightarrow>
    hfs_add_child p q st = Some (r, st') \<Longrightarrow> hfs_step root st st'"
| hfs_rem: "nodes st q = Some nd \<Longrightarrow> q \<noteq> root \<Longrightarrow> nodes st (parent nd) \<noteq> None \<Longrightarrow>
    hfs_remove q st = Some st' \<Longrightarrow> hfs_step root st st'"
| hfs_reg: "hfs_register_apply es root st = Some st' \<Longrightarrow> hfs_step root st st'"

definition hfs_boot :: "nat \<Rightarrow> u32 \<Rightarrow> hfs \<Rightarrow> bool" where
  "hfs_boot cap root st \<longleftrightarrow> (\<exists>name st0. st = hfs_init root name st0 \<and> nodes st0 = Map.empty \<and> root \<noteq> 0 \<and>
     heap_ok cap (hfs_heap st0) \<and> unat root < unat (g_heap (hfs_heap st0)))"

lemma hfs_boot_ok: "hfs_boot cap root st \<Longrightarrow> hfs_ok cap root st \<and> children (nodes st) root []"
  by (auto simp: hfs_boot_def hfs_ok_def hfs_init_def tree_ok_def hfs_node0_def children_def split: if_splits intro!: exI [of _ "[]"])

interpretation hfs_sys: invariant "hfs_boot cap root" "hfs_step root" "hfs_ok cap root" for cap root
proof unfold_locales
  fix st st' assume "hfs_ok cap root st" "hfs_step root st st'"
  then have t: "tree_ok (nodes st)" and ok: "hfs_ok cap root st" by (simp_all add: hfs_ok_def)
  show "hfs_ok cap root st'"
    using \<open>hfs_step root st st'\<close>
  proof cases
    case (hfs_create name data q)
    then show ?thesis using hfs_create_node_ok [OF ok, of name data] by auto
  next
    case (hfs_add p q nd r)
    then obtain cs where "children (nodes st) p cs" using tree_ok_children [OF t] by blast
    then show ?thesis using hfs_add_child_ok [OF ok _ hfs_add(2,3,4)] hfs_add(5) by fastforce
  next
    case (hfs_rem q nd)
    then obtain cs where "children (nodes st) (parent nd) cs" using tree_ok_children [OF t] by blast
    then show ?thesis using hfs_remove_ok [OF ok hfs_rem(1,2)] hfs_rem(4) by fastforce
  next
    case (hfs_reg es)
    then show ?thesis using hfs_register_apply_ok [OF ok, of es] by auto
  qed
qed (simp add: hfs_boot_ok)


text \<open>C31. A node that is created and added is the first child of its parent and is found by its name,
  every other list of children stays as it was, and removing it gives back the old lists; an
  exhausted heap leaves the tree alone.\<close>

theorem hfs_add_find_remove:
  assumes ok: "hfs_ok cap root st" and cs: "children (nodes st) p cs"
  shows "\<exists>q st1. hfs_create_node name data st = Some (q, st1) \<and>
    (if q = 0 then st1 = st
     else \<exists>st2 st3. hfs_add_child p q st1 = Some (True, st2) \<and> children (nodes st2) p (q # cs) \<and>
       (\<forall>r ds. r \<noteq> p \<longrightarrow> children (nodes st) r ds \<longrightarrow> children (nodes st2) r ds) \<and>
       hfs_find_child p name st2 = Some q \<and> hfs_remove q st2 = Some st3 \<and> hfs_ok cap root st3 \<and>
       (\<forall>r ds. children (nodes st) r ds \<longrightarrow> children (nodes st3) r ds))"
proof -
  obtain q st1 where q: "hfs_create_node name data st = Some (q, st1)" "q = 0 \<longrightarrow> st1 = st"
    using hfs_create_node_ok [OF ok, of name data] by auto
  have "q \<noteq> 0 \<Longrightarrow> \<exists>st2 st3. hfs_add_child p q st1 = Some (True, st2) \<and> children (nodes st2) p (q # cs) \<and>
       (\<forall>r ds. r \<noteq> p \<longrightarrow> children (nodes st) r ds \<longrightarrow> children (nodes st2) r ds) \<and>
       hfs_find_child p name st2 = Some q \<and> hfs_remove q st2 = Some st3 \<and> hfs_ok cap root st3 \<and>
       (\<forall>r ds. children (nodes st) r ds \<longrightarrow> children (nodes st3) r ds)"
  proof -
    assume nz: "q \<noteq> 0"
    obtain st2 qn where st2: "hfs_add_child p q st1 = Some (True, st2)" "hfs_ok cap root st2" "children (nodes st2) p (q # cs)"
      "\<forall>r ds. r \<noteq> p \<longrightarrow> children (nodes st) r ds \<longrightarrow> children (nodes st2) r ds" "nodes st q = None"
      "nodes st2 q = Some qn" "node_name qn = name" "parent qn = p"
      using hfs_create_add_ok [OF ok cs q(1) nz] by blast
    have "q \<noteq> root" using st2(5) ok by (auto simp: hfs_ok_def)
    then obtain st3 where st3: "hfs_remove q st2 = Some st3" "hfs_ok cap root st3" "children (nodes st3) p cs"
      "\<forall>r ds. r \<noteq> p \<longrightarrow> r \<noteq> q \<longrightarrow> children (nodes st2) r ds \<longrightarrow> children (nodes st3) r ds"
      using hfs_remove_ok [OF st2(2,6)] st2(3,8) by fastforce
    have "children (nodes st3) r ds" if "children (nodes st) r ds" for r ds
    proof (cases "r = p")
      case True
      then show ?thesis using that cs st3(3) children_unique by blast
    next
      case False
      moreover have "r \<noteq> q" using that st2(5) by (auto simp: children_def)
      ultimately show ?thesis using that st2(4) st3(4) by blast
    qed
    moreover have "hfs_find_child p name st2 = Some q" using hfs_find_child_eq [OF st2(3), of name] st2(6,7) by simp
    ultimately show ?thesis using st2 st3 by blast
  qed
  then show ?thesis using q by auto
qed

definition hfs_example :: hfs where
  "hfs_example = hfs_init 256 (lit ''base'') \<lparr>nodes = Map.empty, hfs_heap = boot_heap\<rparr>"

lemma hfs_example_boot: "hfs_boot 65536 256 hfs_example"
  using boot_heap_ok by (auto simp: hfs_boot_def hfs_example_def intro!: exI [of _ "lit ''base''"] exI [of _ "\<lparr>nodes = Map.empty, hfs_heap = boot_heap\<rparr>"])


theorem hfs_add_find_remove_witness:
  "\<exists>q st1. hfs_create_node (lit ''net'') 7 hfs_example = Some (q, st1) \<and>
    (if q = 0 then st1 = hfs_example else \<exists>st2. hfs_add_child 256 q st1 = Some (True, st2) \<and> hfs_find_child 256 (lit ''net'') st2 = Some q)"
  using hfs_add_find_remove [of 65536 256 hfs_example 256 "[]" "lit ''net''" 7] hfs_boot_ok [OF hfs_example_boot] by fastforce

end
