(* ===== verification/Zsh_Args.thy ===== *)
theory Zsh_Args
  imports Cstring
begin

text \<open>
  \<open>userland/zsh.c\<close>, string helpers and the command line parser. The parser works on the input
  array in place: it ends every word with a zero byte and returns the positions where the words
  start. The input array holds a zero byte behind the line, which the reads past the end of the
  list give.
\<close>

section \<open>String helpers\<close>

function streq :: "cstring \<Rightarrow> cstring \<Rightarrow> int" where
  "streq s1 s2 =
     (if peek s1 \<noteq> 0 \<and> peek s1 = peek s2 then streq (tl s1) (tl s2) else uint (peek s1) - uint (peek s2))"
  by pat_completeness auto
termination
  by (relation "measure (\<lambda>(s1, _). length s1)") (auto simp: length_tl_less simp del: length_tl)

declare streq.simps [simp del]

text \<open>The rest of the string from the first \<open>c\<close> on, or the null pointer.\<close>

function find_char :: "cstring \<Rightarrow> u8 \<Rightarrow> cstring option" where
  "find_char s c = (if peek s \<noteq> 0 then (if peek s = c then Some s else find_char (tl s) c) else None)"
  by pat_completeness auto
termination
  by (relation "measure (\<lambda>(s, _). length s)") (auto simp: length_tl_less simp del: length_tl)

declare find_char.simps [simp del]

function starts_with :: "cstring \<Rightarrow> cstring \<Rightarrow> bool" where
  "starts_with s prfx = (if peek prfx \<noteq> 0 then (if peek s \<noteq> peek prfx then False else starts_with (tl s) (tl prfx)) else True)"
  by pat_completeness auto
termination
  by (relation "measure (\<lambda>(_, p). length p)") (auto simp: length_tl_less simp del: length_tl)

declare starts_with.simps [simp del]

section \<open>The parser\<close>

abbreviation (input) MAX_ARGS :: nat where "MAX_ARGS \<equiv> 16"

abbreviation (input) quote :: u8 where "quote \<equiv> 0x22"

definition is_space :: "u8 \<Rightarrow> bool" where
  "is_space c \<longleftrightarrow> c = 0x20 \<or> c = 0x09 \<or> c = 0x0A \<or> c = 0x0D"

text \<open>The three inner loops: advance the pointer while a condition on the byte under it holds. None of the
  conditions holds for the zero byte.\<close>

function advance :: "(u8 \<Rightarrow> bool) \<Rightarrow> cstring \<Rightarrow> nat \<Rightarrow> nat" where
  "advance P line p = (if at line p \<noteq> 0 \<and> P (at line p) then advance P line (p + 1) else p)"
  by pat_completeness auto
termination
  by (relation "measure (\<lambda>(_, line, p). length line - p)") (auto simp: at_def split: if_splits)

declare advance.simps [simp del]

lemma advance_ge: "p \<le> advance P line p"
proof (induction P line p rule: advance.induct)
  case (1 P line p)
  then show ?case by (subst advance.simps) auto
qed

lemma advance_stop: "at line (advance P line p) = 0 \<or> \<not> P (at line (advance P line p))"
proof (induction P line p rule: advance.induct)
  case (1 P line p)
  show ?case
  proof (cases "at line p \<noteq> 0 \<and> P (at line p)")
    case True
    then have "advance P line p = advance P line (p + 1)" by (subst advance.simps) simp
    then show ?thesis using 1 True by simp
  next
    case False
    then have "advance P line p = p" by (subst advance.simps) auto
    then show ?thesis using False by auto
  qed
qed

lemma advance_step: "at line p \<noteq> 0 \<Longrightarrow> P (at line p) \<Longrightarrow> p < advance P line p"
  using advance_ge [of "p + 1" P line] by (subst advance.simps) simp

definition end_word :: "nat \<Rightarrow> cstring \<Rightarrow> cstring \<times> nat" where
  "end_word p line = (line[p := 0], p + 1)"

function parse_loop :: "cstring \<Rightarrow> nat \<Rightarrow> nat list \<Rightarrow> cstring \<times> nat list" where
  "parse_loop line p args =
     (if at line p \<noteq> 0 \<and> length args < MAX_ARGS - 1 then
        let p = advance is_space line p in
        if at line p = 0 then (line, args)
        else if at line p = quote then
          let p = p + 1;
              args = args @ [p];
              p = advance (\<lambda>c. c \<noteq> quote) line p;
              (line, p) = (if at line p = quote then end_word p line else (line, p))
          in parse_loop line p args
        else
          let args = args @ [p];
              p = advance (\<lambda>c. \<not> is_space c) line p;
              (line, p) = (if at line p \<noteq> 0 then end_word p line else (line, p))
          in parse_loop line p args
      else (line, args))"
  by pat_completeness auto
termination
  by (relation "measure (\<lambda>(_, _, args). 15 - length args)") (auto simp: end_word_def split: if_splits)

declare parse_loop.simps [simp del]

definition parse_args :: "cstring \<Rightarrow> cstring \<times> nat list" where
  "parse_args line = parse_loop line 0 []"

text \<open>The string an argument pointer refers to.\<close>

definition arg_at :: "cstring \<Rightarrow> nat \<Rightarrow> cstring" where
  "arg_at line a = drop a line"

section \<open>The words of a line\<close>

text \<open>At most \<open>n\<close> words: separated by white space, or between double quotes.\<close>

fun words :: "nat \<Rightarrow> cstring \<Rightarrow> cstring list" where
  "words 0 s = []"
| "words (Suc n) s =
     (case dropWhile is_space s of
        [] \<Rightarrow> []
      | c # t \<Rightarrow>
          if c = quote then takeWhile (\<lambda>c. c \<noteq> quote) t # words n (drop 1 (dropWhile (\<lambda>c. c \<noteq> quote) t))
          else takeWhile (\<lambda>c. \<not> is_space c) (c # t) # words n (drop 1 (dropWhile (\<lambda>c. \<not> is_space c) (c # t))))"

lemma cstr_drop: "k \<le> length (cstr t) \<Longrightarrow> cstr (drop k t) = drop k (cstr t)"
proof (induction k arbitrary: t)
  case (Suc k)
  then show ?case by (cases t) (auto simp: cstr_Cons split: if_splits)
qed simp

lemma at_peek: "at s p = peek (drop p s)"
  by (cases "drop p s") (auto simp: at_def peek_def hd_drop_conv_nth [symmetric] not_less)

lemma peek_cstr: "peek (drop p s) = (case cstr (drop p s) of [] \<Rightarrow> 0 | c # _ \<Rightarrow> c)"
  by (subst cstr_peek) simp

lemma advance_eq: "advance P line p = p + length (takeWhile P (cstr (drop p line)))"
proof (induction P line p rule: advance.induct)
  case (1 P line p)
  have "cstr (drop p line) = (if at line p = 0 then [] else at line p # cstr (drop (p + 1) line))"
    using cstr_peek [of "drop p line"] by (simp add: at_peek tl_drop drop_Suc)
  then show ?case using 1 by (subst advance.simps) auto
qed

lemma cstr_advance: "cstr (drop (advance P line p) line) = dropWhile P (cstr (drop p line))"
proof -
  let ?s = "cstr (drop p line)"
  have "cstr (drop (length (takeWhile P ?s)) (drop p line)) = drop (length (takeWhile P ?s)) ?s"
    by (rule cstr_drop) (simp add: length_takeWhile_le)
  then show ?thesis by (simp add: advance_eq dropWhile_eq_drop add.commute)
qed

lemma cstr_eqI:
  assumes "\<And>i. i < length w \<Longrightarrow> at x (a + i) = w ! i \<and> w ! i \<noteq> 0" "at x (a + length w) = 0"
  shows "cstr (drop a x) = w"
  using assms
proof (induction w arbitrary: a)
  case Nil
  then show ?case by (subst cstr_peek) (simp add: at_peek)
next
  case (Cons c w)
  have "at x a = c" "c \<noteq> 0" using Cons.prems(1) [of 0] by simp_all
  moreover have "cstr (drop (a + 1) x) = w"
    using Cons.prems(1) [of "Suc i" for i] Cons.prems(2) by (intro Cons.IH) auto
  ultimately show ?case by (subst cstr_peek) (simp add: at_peek [symmetric] tl_drop drop_Suc)
qed

lemma at_takeWhile:
  assumes "i < length (takeWhile P (cstr (drop p line)))"
  shows "at line (p + i) = takeWhile P (cstr (drop p line)) ! i \<and> takeWhile P (cstr (drop p line)) ! i \<noteq> 0"
proof -
  have "i < length (cstr (drop p line))" using assms length_takeWhile_le less_le_trans by blast
  from at_cstr [OF this] show ?thesis using assms by (auto simp: at_peek takeWhile_nth add.commute)
qed

text \<open>What one word leaves behind: the scan stopped at \<open>q\<close>, either at the end of the line or at a byte
  that is replaced by zero.\<close>

lemma word_end:
  assumes q: "q = advance P line a" and r: "(line2, p2) = (if at line q \<noteq> 0 then end_word q line else (line, q))"
  shows "cstr (drop p2 line2) = drop 1 (dropWhile P (cstr (drop a line)))" "length line2 = length line"
    "\<And>i. i < q \<Longrightarrow> at line2 i = at line i" "\<And>i. at line i = 0 \<Longrightarrow> at line2 i = 0" "at line2 q = 0" "q \<le> p2"
proof -
  let ?s = "dropWhile P (cstr (drop a line))"
  have s: "cstr (drop q line) = ?s" unfolding q by (rule cstr_advance)
  have "length line2 = length line \<and> (\<forall>i < q. at line2 i = at line i) \<and> (\<forall>i. at line i = 0 \<longrightarrow> at line2 i = 0) \<and> at line2 q = 0 \<and> q \<le> p2"
    using r by (auto simp: end_word_def at_def nth_list_update split: if_splits)
  then show "length line2 = length line" "\<And>i. i < q \<Longrightarrow> at line2 i = at line i" "\<And>i. at line i = 0 \<Longrightarrow> at line2 i = 0"
    "at line2 q = 0" "q \<le> p2" by auto
  show "cstr (drop p2 line2) = drop 1 ?s"
  proof (cases "at line q = 0")
    case True
    then have "cstr (drop q line) = []" by (subst cstr_peek) (simp add: at_peek)
    then have "?s = []" using s by simp
    then show ?thesis using r True \<open>cstr (drop q line) = []\<close> by (simp del: dropWhile_eq_Nil_conv)
  next
    case False
    then have "cstr (drop q line) = at line q # cstr (drop (q + 1) line)"
      by (subst cstr_peek) (simp add: at_peek tl_drop drop_Suc)
    then show ?thesis using r False s by (simp add: end_word_def)
  qed
qed

lemma parse_loop_stop: "at line p = 0 \<or> at line (advance is_space line p) = 0 \<Longrightarrow> parse_loop line p args = (line, args)"
  by (subst parse_loop.simps) auto

lemma parse_loop_full: "\<not> length args < 15 \<Longrightarrow> parse_loop line p args = (line, args)"
  by (subst parse_loop.simps) simp

lemma parse_loop_step:
  assumes "at line p \<noteq> 0" "length args < 15" "at line s \<noteq> 0" "s = advance is_space line p"
    and "a = (if at line s = quote then s + 1 else s)" "q = advance (\<lambda>c. if at line s = quote then c \<noteq> quote else \<not> is_space c) line a"
    and "at line q = 0 \<or> at line s \<noteq> quote \<or> at line q = quote"
    and "(line2, p2) = (if at line q \<noteq> 0 then end_word q line else (line, q))"
  shows "parse_loop line p args = parse_loop line2 p2 (args @ [a])"
proof (cases "at line s = quote")
  case True
  then have "(if at line q = quote then end_word q line else (line, q)) = (line2, p2)" using assms(7,8) by auto
  then show ?thesis
    using assms(1-6) True by (subst parse_loop.simps) (auto simp: Let_def split: prod.split)
next
  case False
  then show ?thesis
    using assms(1-6) assms(8) [symmetric] by (subst parse_loop.simps) (auto simp: Let_def split: prod.split)
qed

lemma parse_loop_words:
  assumes "parse_loop line p args = (line', args')" "length args \<le> 15"
  shows "\<exists>new. args' = args @ new \<and> (\<forall>i < p. at line' i = at line i) \<and> (\<forall>i. at line i = 0 \<longrightarrow> at line' i = 0) \<and>
    length line' = length line \<and> map (\<lambda>a. cstr (arg_at line' a)) new = words (15 - length args) (cstr (drop p line))"
  using assms
proof (induction "15 - length args" arbitrary: line p args)
  case 0
  then show ?case using parse_loop_full [of args line p] by auto
next
  case (Suc n)
  let ?p = "advance is_space line p" and ?s = "cstr (drop p line)"
  have n: "15 - length args = Suc n" "length args < 15" using Suc.hyps(2) by simp_all
  have s: "cstr (drop ?p line) = dropWhile is_space ?s" by (rule cstr_advance)
  have hd: "at line ?p = (case dropWhile is_space ?s of [] \<Rightarrow> 0 | c # _ \<Rightarrow> c)"
    using peek_cstr [of ?p line] by (simp add: at_peek s)
  show ?case
  proof (cases "at line p = 0 \<or> at line ?p = 0")
    case True
    have "dropWhile is_space ?s = []"
    proof (cases "at line p = 0")
      case True
      then have "?s = []" by (subst cstr_peek) (simp add: at_peek)
      then show ?thesis by simp
    next
      case False
      then show ?thesis using True hd s cstr_nonzero [of 0 "drop ?p line"] by (auto split: list.splits)
    qed
    moreover have "line' = line" "args' = args" using Suc.prems(1) parse_loop_stop [OF True] by simp_all
    ultimately show ?thesis by (simp add: n del: dropWhile_eq_Nil_conv)
  next
    case False
    define a where "a = (if at line ?p = quote then ?p + 1 else ?p)"
    define P where "P = (\<lambda>c. if at line ?p = quote then c \<noteq> quote else \<not> is_space c)"
    define q where "q = advance P line a"
    obtain line2 p2 where l2: "(line2, p2) = (if at line q \<noteq> 0 then end_word q line else (line, q))" by (metis surj_pair)
    note we = word_end [OF q_def l2]
    let ?w = "takeWhile P (cstr (drop a line))"
    obtain t where t: "dropWhile is_space ?s = at line ?p # t" using False hd by (auto split: list.splits)
    have ca: "cstr (drop a line) = (if at line ?p = quote then t else at line ?p # t)"
      using s t cstr_drop [of 1 "drop ?p line"] by (simp add: a_def)
    have words: "words (15 - length args) ?s = ?w # words n (drop 1 (dropWhile P (cstr (drop a line))))"
      by (simp add: n t ca P_def)
    have stop: "at line q = 0 \<or> \<not> P (at line q)"
      unfolding q_def by (rule advance_stop)
    have loop: "parse_loop line2 p2 (args @ [a]) = (line', args')"
    proof -
      have "at line q = 0 \<or> at line ?p \<noteq> quote \<or> at line q = quote" using stop by (auto simp: P_def split: if_splits)
      from parse_loop_step [OF _ n(2) _ refl a_def q_def [unfolded P_def] this l2] show ?thesis
        using False Suc.prems(1) by simp
    qed
    have n': "n = 15 - length (args @ [a])" "length (args @ [a]) \<le> 15" using n by simp_all
    obtain new where new: "args' = (args @ [a]) @ new" "\<forall>i < p2. at line' i = at line2 i"
      "\<forall>i. at line2 i = 0 \<longrightarrow> at line' i = 0" "length line' = length line2"
      "map (\<lambda>a. cstr (arg_at line' a)) new = words n (cstr (drop p2 line2))"
      using Suc.hyps(1) [OF n'(1) loop n'(2)] unfolding n'(1) [symmetric] by blast
    have qw: "q = a + length ?w" by (simp add: q_def advance_eq)
    have le: "p \<le> q" using advance_ge [of p is_space line] advance_ge [of a P line] by (auto simp: q_def a_def split: if_splits)
    have "cstr (drop a line') = ?w"
    proof (rule cstr_eqI)
      show "at line' (a + i) = ?w ! i \<and> ?w ! i \<noteq> 0" if "i < length ?w" for i
        using at_takeWhile [OF that] new(2) we(3,6) qw that by simp
      show "at line' (a + length ?w) = 0" using new(3) we(5) qw by simp
    qed
    then have "map (\<lambda>a. cstr (arg_at line' a)) (a # new) = words (15 - length args) ?s"
      using new(5) we(1) words by (simp add: arg_at_def del: words.simps)
    moreover have "\<forall>i < p. at line' i = at line i" using new(2) we(3,6) le by simp
    moreover have "\<forall>i. at line i = 0 \<longrightarrow> at line' i = 0" using new(3) we(4) by blast
    ultimately show ?thesis using new(1,4) we(2) by (intro exI [of _ "a # new"]) simp
  qed
qed

lemma parse_args_eq:
  "parse_args line = (line', args) \<Longrightarrow> map (\<lambda>a. cstr (arg_at line' a)) args = words 15 (cstr line)"
  using parse_loop_words [of line 0 "[]" line' args] by (auto simp: parse_args_def)

lemma words_length: "length (words n s) \<le> n"
  by (induction n s rule: words.induct) (auto split: list.split)

section \<open>Quoted lines\<close>

definition quoted :: "cstring list \<Rightarrow> cstring" where
  "quoted ts = concat (map (\<lambda>t. quote # t @ [quote, 0x20]) ts)"

lemma quoted_simps [simp]: "quoted [] = []" "quoted (t # ts) = quote # t @ quote # 0x20 # quoted ts"
  by (simp_all add: quoted_def)

lemma words_space: "words n (0x20 # s) = words n s"
  by (cases n) (simp_all add: is_space_def)

lemma words_quoted:
  assumes "\<And>t. t \<in> set ts \<Longrightarrow> quote \<notin> set t" "length ts \<le> n"
  shows "words n (quoted ts) = ts"
  using assms
proof (induction ts arbitrary: n)
  case Nil
  then show ?case by (cases n) simp_all
next
  case (Cons t ts)
  obtain k where n: "n = Suc k" using Cons.prems(2) by (cases n) auto
  have t: "\<forall>c \<in> set t. c \<noteq> quote" using Cons.prems(1) [of t] by auto
  have "words n (quoted (t # ts)) = t # words k (0x20 # quoted ts)"
    using t by (simp add: n is_space_def takeWhile_append2 dropWhile_append2)
  then show ?case using Cons by (simp add: words_space n)
qed

text \<open>C32. \<open>parse_args\<close>, which splits the line in place, finds the words a reading of the line from left
  to right gives: separated by white space or enclosed in double quotes, at most fifteen. The
  positions it returns refer to these words, each ended by a zero byte, and the array keeps its
  length.\<close>

theorem parse_args_words:
  "\<exists>line' args. parse_args line = (line', args) \<and> map (\<lambda>a. cstr (arg_at line' a)) args = words 15 (cstr line) \<and>
     length args \<le> 15 \<and> length line' = length line"
proof -
  obtain line' args where p: "parse_args line = (line', args)" by fastforce
  then have "length line' = length line" using parse_loop_words [of line 0 "[]" line' args] by (auto simp: parse_args_def)
  then show ?thesis using p parse_args_eq [OF p] words_length [of 15 "cstr line"] by (metis length_map)
qed

text \<open>Quoting is undone by the parser: a line with up to fifteen strings in double quotes, none of
  which contains a double quote or a zero byte, gives back exactly these strings, white space in
  them included.\<close>

lemma parse_args_quoted:
  assumes "length ts \<le> 15" and "\<And>t. t \<in> set ts \<Longrightarrow> quote \<notin> set t \<and> 0 \<notin> set t"
  shows "\<exists>line' args. parse_args (quoted ts) = (line', args) \<and> map (\<lambda>a. cstr (arg_at line' a)) args = ts"
proof -
  have "0 \<notin> set (quoted ts)" using assms(2) by (induction ts) auto
  then have "words 15 (cstr (quoted ts)) = ts" using assms by (simp add: cstr_id words_quoted)
  then show ?thesis using parse_args_eq by (metis surj_pair)
qed

section \<open>The helpers in terms of strings\<close>

lemma streq_eq: "streq s1 s2 = vfs_strcmp s1 s2"
proof (induction s1 s2 rule: streq.induct)
  case (1 s1 s2)
  then show ?case by (subst streq.simps, subst vfs_strcmp.simps) auto
qed

lemma streq_eq_0: "streq s1 s2 = 0 \<longleftrightarrow> cstr s1 = cstr s2"
  by (simp add: streq_eq strcmp_eq_0)

lemma find_char_None: "c \<noteq> 0 \<Longrightarrow> find_char s c = None \<longleftrightarrow> c \<notin> set (cstr s)"
proof (induction s c rule: find_char.induct)
  case (1 s c)
  then show ?case by (subst find_char.simps, subst cstr_peek) auto
qed

lemma starts_with_iff: "starts_with s prfx \<longleftrightarrow> (\<exists>r. cstr s = cstr prfx @ r)"
proof (induction s prfx rule: starts_with.induct)
  case (1 s prfx)
  then show ?case
    by (subst starts_with.simps, subst cstr_peek [of s], subst cstr_peek [of prfx]) auto
qed

end
