(* ===== verification/Zsh.thy ===== *)
theory Zsh
  imports Zsh_Args Pkg Port_Io Sys_Io
begin

text \<open>
  \<open>userland/zsh.c\<close>: the shell. The state holds the environment pool, the text written to
  standard output, the package manager's state, the serial line, and the kernel behind
  \<open>int 0x80\<close>. What the kernel does on the system calls is the record \<open>zsh_calls\<close>; it also
  carries \<open>dyn_lookup\<close>, which no file of the tree defines, the file drivers of the VFS and
  the contents of local arrays. \<open>None\<close> is a command that does not return.
\<close>

section \<open>State\<close>

abbreviation (input) MAX_INPUT :: nat where "MAX_INPUT \<equiv> 256"
abbreviation (input) MAX_ENV :: nat where "MAX_ENV \<equiv> 32"
abbreviation (input) ENV_POOL_SZ :: u32 where "ENV_POOL_SZ \<equiv> 2048"

record zsh_env =
  g_env_pool :: "u8 list"
  g_env_pool_used :: u32
  g_env_slots :: "u32 option list"
  g_env_count :: nat

record ('k, 'd) zsh =
  z_env :: zsh_env
  z_out :: out
  z_pkg :: "'d pkg_state"
  z_io :: io
  z_kernel :: 'k

record ('k, 'd) zsh_calls =
  call_read :: "nat \<Rightarrow> 'k \<Rightarrow> int \<times> u8 list \<times> 'k"
  call_exec :: "cstring \<Rightarrow> 'k \<Rightarrow> int \<times> 'k"
  dyn_lookup :: "cstring \<Rightarrow> dyn_entry_t list \<Rightarrow> cstring option"
  file_ops :: "u32 \<Rightarrow> 'd vfs_ops_t"
  locals :: pkg_locals

text \<open>A command gets the argument strings; \<open>argc\<close> is their number.\<close>

type_synonym ('k, 'd) zsh_cmd = "cstring list \<Rightarrow> ('k, 'd) zsh \<Rightarrow> (int \<times> ('k, 'd) zsh) option"

definition print :: "cstring \<Rightarrow> ('k, 'd) zsh \<Rightarrow> ('k, 'd) zsh" where
  "print str s = s\<lparr>z_out := z_out s @ [take (str_len str) str]\<rparr>"

definition sys_exec_call :: "('k, 'd) zsh_calls \<Rightarrow> cstring \<Rightarrow> ('k, 'd) zsh \<Rightarrow> int \<times> ('k, 'd) zsh" where
  "sys_exec_call c path s = (let (ret, k) = call_exec c path (z_kernel s) in (ret, s\<lparr>z_kernel := k\<rparr>))"

section \<open>The environment\<close>

definition env0 :: zsh_env where
  "env0 = \<lparr>g_env_pool = replicate 2048 0, g_env_pool_used = 0, g_env_slots = replicate MAX_ENV None, g_env_count = 0\<rparr>"

fun env_copy :: "u8 list \<Rightarrow> nat \<Rightarrow> cstring \<Rightarrow> nat \<Rightarrow> u8 list" where
  "env_copy pool dst entry 0 = pool[dst := at entry 0]"
| "env_copy pool dst entry (Suc n) = (env_copy pool dst entry n)[dst + Suc n := at entry (Suc n)]"

definition env_set :: "cstring \<Rightarrow> zsh_env \<Rightarrow> int \<times> zsh_env" where
  "env_set entry e =
     (let len = str_len entry in
      if g_env_count e \<ge> MAX_ENV - 1 then (- 1, e)
      else if g_env_pool_used e + of_nat len + 1 > ENV_POOL_SZ then (- 1, e)
      else
        let dst = g_env_pool_used e;
            e = e\<lparr>g_env_pool := env_copy (g_env_pool e) (unat dst) entry len\<rparr>;
            e = e\<lparr>g_env_pool_used := g_env_pool_used e + (of_nat len + 1)\<rparr>;
            e = e\<lparr>g_env_slots := (g_env_slots e)[g_env_count e := Some dst], g_env_count := g_env_count e + 1\<rparr>;
            e = e\<lparr>g_env_slots := (g_env_slots e)[g_env_count e := None]\<rparr>
        in (0, e))"

text \<open>The string a slot refers to.\<close>

definition env_string :: "zsh_env \<Rightarrow> nat \<Rightarrow> cstring" where
  "env_string e i = (case g_env_slots e ! i of None \<Rightarrow> [] | Some a \<Rightarrow> drop (unat a) (g_env_pool e))"

definition env_print_all :: "('k, 'd) zsh \<Rightarrow> ('k, 'd) zsh" where
  "env_print_all s = fold (\<lambda>i s. print [10] (print (env_string (z_env s) i) s)) [0..<g_env_count (z_env s)] s"

section \<open>Commands\<close>

definition cmd_clear :: "('k, 'd) zsh_cmd" where
  "cmd_clear argv s = Some (0, print ([0x1B] @ lit ''[H'' @ [0x1B] @ lit ''[2J'') s)"

fun echo_loop :: "cstring list \<Rightarrow> ('k, 'd) zsh \<Rightarrow> ('k, 'd) zsh" where
  "echo_loop [] s = s"
| "echo_loop [a] s = print a s"
| "echo_loop (a # as) s = echo_loop as (print (lit '' '') (print a s))"

definition cmd_echo :: "('k, 'd) zsh_cmd" where
  "cmd_echo argv s = Some (0, print [10] (echo_loop (tl argv) s))"

definition cmd_export :: "('k, 'd) zsh_cmd" where
  "cmd_export argv s =
     (if length argv < 2 then Some (- 1, print (lit ''export: missing VAR=VALUE'' @ [10]) s)
      else if find_char (argv ! 1) (of_char CHR ''='') = None then Some (- 1, print (lit ''export: usage: export VAR=VALUE'' @ [10]) s)
      else let (r, e) = env_set (argv ! 1) (z_env s); s = s\<lparr>z_env := e\<rparr> in
        if r \<noteq> 0 then Some (- 1, print (lit ''export: environment full'' @ [10]) s)
        else Some (0, print (lit ''[export set]'' @ [10]) s))"

definition cmd_env :: "('k, 'd) zsh_cmd" where
  "cmd_env argv s = Some (0, env_print_all s)"

definition cmd_elf :: "('k, 'd) zsh_calls \<Rightarrow> ('k, 'd) zsh_cmd" where
  "cmd_elf c argv s =
     (if length argv < 2 then Some (- 1, print (lit ''elf: usage: elf <path>'' @ [10]) s)
      else let (ret, s) = sys_exec_call c (argv ! 1) s;
               s = (if ret \<noteq> 0 then print [10] (print (argv ! 1) (print (lit ''elf: failed to load '') s)) else s)
           in Some (ret, s))"

fun pkg_print :: "pkg_entry_t list \<Rightarrow> ('k, 'd) zsh \<Rightarrow> ('k, 'd) zsh" where
  "pkg_print [] s = s"
| "pkg_print (e # es) s = pkg_print es (print [10] (print (pkg_path e) (print (lit ''  '') (print (pkg_name e) s))))"

definition cmd_pkg :: "('k, 'd) zsh_calls \<Rightarrow> ('k, 'd) zsh_cmd" where
  "cmd_pkg c argv s =
     (if length argv < 2
      then Some (- 1, print (lit ''usage: pkg install <src> <name> | remove <name> | list'' @ [10]) s)
      else if streq (argv ! 1) (lit ''install'') = 0 \<and> length argv \<ge> 4 then do {
        (r, p) \<leftarrow> pkg_install (file_ops c) (locals c) (argv ! 2) (argv ! 3) (z_pkg s);
        Some (r, s\<lparr>z_pkg := p\<rparr>)
      }
      else if streq (argv ! 1) (lit ''remove'') = 0 \<and> length argv \<ge> 3 then
        (let (r, p) = pkg_remove (file_ops c) (locals c) (argv ! 2) (z_pkg s) in Some (r, s\<lparr>z_pkg := p\<rparr>))
      else if streq (argv ! 1) (lit ''list'') = 0 then
        (let (n, entries, p) = pkg_list (file_ops c) (loc_entries (locals c)) (int PKG_MAX_ENTRIES) (z_pkg s);
             s = s\<lparr>z_pkg := p\<rparr>
         in Some (0, pkg_print (take n entries) s))
      else Some (- 1, print (lit ''pkg: unknown subcommand'' @ [10]) s))"

text \<open>The commands this file registers, in the order of the file.\<close>

definition zsh_commands :: "('k, 'd) zsh_calls \<Rightarrow> ('k, 'd) zsh_cmd cmd_entry_t list" where
  "zsh_commands c =
     [\<lparr>cmd_name = lit ''clear'', cmd_fn = cmd_clear\<rparr>, \<lparr>cmd_name = lit ''echo'', cmd_fn = cmd_echo\<rparr>,
      \<lparr>cmd_name = lit ''export'', cmd_fn = cmd_export\<rparr>, \<lparr>cmd_name = lit ''env'', cmd_fn = cmd_env\<rparr>,
      \<lparr>cmd_name = lit ''elf'', cmd_fn = cmd_elf c\<rparr>, \<lparr>cmd_name = lit ''pkg'', cmd_fn = cmd_pkg c\<rparr>]"

section \<open>Dispatch and the main loop\<close>

definition exec_or_report :: "('k, 'd) zsh_calls \<Rightarrow> cstring \<Rightarrow> cstring \<Rightarrow> ('k, 'd) zsh \<Rightarrow> ('k, 'd) zsh" where
  "exec_or_report c path args0 s =
     (let (ret, s) = sys_exec_call c path s
      in if ret \<noteq> 0 then print (lit '': exec failed'' @ [10]) (print args0 s) else s)"

definition dispatch ::
  "('k, 'd) zsh_calls \<Rightarrow> ('k, 'd) zsh_cmd cmd_entry_t list \<Rightarrow> cstring \<Rightarrow> cstring list \<Rightarrow> ('k, 'd) zsh \<Rightarrow> ('k, 'd) zsh option" where
  "dispatch c cmdtable args0 args s =
     (case first_entry (\<lambda>e. streq (cmd_name e) args0 = 0) cmdtable of
        Some i \<Rightarrow> do { (_, s) \<leftarrow> cmd_fn (cmdtable ! i) args s; Some s }
      | None \<Rightarrow>
          case dyn_lookup c args0 (pkg_dyn (z_pkg s)) of
            Some path \<Rightarrow> Some (exec_or_report c path args0 s)
          | None \<Rightarrow>
              if starts_with args0 (lit ''./'') \<or> peek args0 = of_char CHR ''/''
              then Some (exec_or_report c args0 args0 s)
              else Some (print [10] (print args0 (print (lit ''zsh: command not found: '') s))))"

text \<open>One turn of the loop with the input array: \<open>Inl\<close> when the loop is left.\<close>

definition zsh_turn ::
  "('k, 'd) zsh_calls \<Rightarrow> ('k, 'd) zsh_cmd cmd_entry_t list \<Rightarrow> u8 list \<Rightarrow> ('k, 'd) zsh \<Rightarrow>
   (('k, 'd) zsh + u8 list \<times> ('k, 'd) zsh) option" where
  "zsh_turn c cmdtable input s =
     (let s = print (lit ''$ '') s;
          (bytes, data, k) = call_read c (MAX_INPUT - 1) (z_kernel s);
          s = s\<lparr>z_kernel := k\<rparr>;
          input = data @ drop (length data) input
      in if bytes \<le> 0 then Some (Inl s)
         else
           let input = input[nat bytes := 0];
               (input, as) = parse_args input;
               args = map (arg_at input) as
           in if as = [] then Some (Inr (input, s))
              else if streq (hd args) (lit ''exit'') = 0 then Some (Inl s)
              else do { s \<leftarrow> dispatch c cmdtable (hd args) args s; Some (Inr (input, s)) })"

partial_function (option) zsh_loop ::
  "('k, 'd) zsh_calls \<Rightarrow> ('k, 'd) zsh_cmd cmd_entry_t list \<Rightarrow> u8 list \<Rightarrow> ('k, 'd) zsh \<Rightarrow> ('k, 'd) zsh option" where
  "zsh_loop c cmdtable input s = do {
     r \<leftarrow> zsh_turn c cmdtable input s;
     case r of Inl s \<Rightarrow> Some s | Inr (input, s) \<Rightarrow> zsh_loop c cmdtable input s
   }"

definition zsh_main ::
  "('k, 'd) zsh_calls \<Rightarrow> ('k, 'd) zsh_cmd cmd_entry_t list \<Rightarrow> u8 list \<Rightarrow> ('k, 'd) zsh \<Rightarrow> (int \<times> ('k, 'd) zsh) option" where
  "zsh_main c cmdtable input s = do {
     d \<leftarrow> serial_puts (lit ''[INIT] Userland shell initialized.'' @ [10]) (serial_init (z_io s));
     s \<leftarrow> zsh_loop c cmdtable input (s\<lparr>z_io := d\<rparr>);
     Some (0, s)
   }"

section \<open>The environment as a list of strings\<close>

definition env_block :: "cstring list \<Rightarrow> u8 list" where
  "env_block ws = concat (map (\<lambda>w. w @ [0]) ws)"

definition env_rel :: "zsh_env \<Rightarrow> cstring list \<Rightarrow> bool" where
  "env_rel e ws \<longleftrightarrow> length (g_env_pool e) = 2048 \<and> length (g_env_slots e) = 32 \<and> length ws < 32 \<and> g_env_count e = length ws \<and>
     (\<forall>w \<in> set ws. 0 \<notin> set w) \<and> length (env_block ws) \<le> 2048 \<and> g_env_pool_used e = of_nat (length (env_block ws)) \<and>
     take (length (env_block ws)) (g_env_pool e) = env_block ws \<and>
     (\<forall>i < length ws. g_env_slots e ! i = Some (of_nat (length (env_block (take i ws)))))"

lemma env_block_append [simp]: "env_block (xs @ ys) = env_block xs @ env_block ys" "env_block [] = []" "env_block [w] = w @ [0]"
  by (simp_all add: env_block_def)

lemma env0_rel: "env_rel env0 []"
  by (simp add: env_rel_def env0_def)

lemma env_copy_eq:
  assumes "n \<le> length (cstr entry)" "d + n < length pool"
  shows "env_copy pool d entry n = take d pool @ map (at entry) [0..<Suc n] @ drop (d + n + 1) pool"
  using assms
proof (induction n)
  case 0
  then show ?case by (simp add: upd_conv_take_nth_drop)
next
  case (Suc n)
  have d: "drop (d + n + 1) pool = pool ! (d + n + 1) # drop (d + n + 2) pool"
    using Suc.prems Cons_nth_drop_Suc [of "d + n + 1" pool] by simp
  have "env_copy pool d entry (Suc n) = (take d pool @ map (at entry) [0..<Suc n] @ drop (d + n + 1) pool)[d + Suc n := at entry (Suc n)]"
    using Suc by simp
  also have "\<dots> = take d pool @ map (at entry) [0..<Suc n] @ (drop (d + n + 1) pool)[0 := at entry (Suc n)]"
    using Suc.prems by (simp add: list_update_append)
  also have "\<dots> = take d pool @ map (at entry) [0..<Suc (Suc n)] @ drop (d + Suc n + 1) pool"
    unfolding d by simp
  finally show ?case .
qed

lemma map_at_cstr: "map (at s) [0..<Suc (length (cstr s))] = cstr s @ [0]"
proof (rule nth_equalityI)
  fix i assume i: "i < length (map (at s) [0..<Suc (length (cstr s))])"
  show "map (at s) [0..<Suc (length (cstr s))] ! i = (cstr s @ [0]) ! i"
  proof (cases "i < length (cstr s)")
    case True
    then show ?thesis using at_cstr [OF True] by (simp add: nth_append del: upt_Suc)
  next
    case False
    then have "i = length (cstr s)" using i by simp
    then show ?thesis by (simp add: nth_append at_end del: upt_Suc)
  qed
qed simp

lemma print_eq: "print str s = s\<lparr>z_out := z_out s @ [cstr str]\<rparr>"
proof -
  have "take (length (cstr str)) str = cstr str" unfolding cstr_def by (simp add: takeWhile_eq_take [symmetric])
  then show ?thesis by (simp add: print_def str_len_eq)
qed

lemma env_set_rel:
  assumes rel: "env_rel e ws" and small: "length (cstr entry) < 4294960000"
  shows "if length ws < 31 \<and> length (env_block ws) + length (cstr entry) + 1 \<le> 2048
    then \<exists>e'. env_set entry e = (0, e') \<and> env_rel e' (ws @ [cstr entry]) else env_set entry e = (- 1, e)"
proof -
  let ?u = "length (env_block ws)" and ?n = "length (cstr entry)"
  have u: "?u \<le> 2048" "g_env_pool_used e = of_nat ?u" "g_env_count e = length ws" using rel by (simp_all add: env_rel_def)
  have "g_env_pool_used e + of_nat ?n + 1 = of_nat (?u + ?n + 1)" by (simp add: u(2))
  moreover have "unat (of_nat (?u + ?n + 1) :: u32) = ?u + ?n + 1"
    using u(1) small by (intro unat_of_nat_u32) simp
  ultimately have fits: "g_env_pool_used e + of_nat ?n + 1 > 2048 \<longleftrightarrow> ?u + ?n + 1 > 2048"
    by (simp only: word_less_nat_alt) simp
  show ?thesis
  proof (cases "length ws < 31 \<and> ?u + ?n + 1 \<le> 2048")
    case True
    have uu: "unat (g_env_pool_used e) = ?u" using u by (simp add: unat_of_nat_u32)
    let ?pool = "env_copy (g_env_pool e) ?u entry ?n"
    let ?e = "\<lparr>g_env_pool = ?pool, g_env_pool_used = g_env_pool_used e + (of_nat ?n + 1),
      g_env_slots = (g_env_slots e)[length ws := Some (g_env_pool_used e), length ws + 1 := None], g_env_count = length ws + 1\<rparr>"
    have set: "env_set entry e = (0, ?e)"
      using True fits u uu by (simp add: env_set_def str_len_eq Let_def not_le not_less)
    have lp: "length (g_env_pool e) = 2048" using rel by (simp add: env_rel_def)
    have tp: "take ?u (g_env_pool e) = env_block ws" using rel by (simp add: env_rel_def)
    have pool: "?pool = env_block ws @ (cstr entry @ [0]) @ drop (?u + ?n + 1) (g_env_pool e)"
      using True by (subst env_copy_eq) (simp_all only: map_at_cstr tp lp, simp_all)
    have nz: "0 \<notin> set (cstr entry)" using cstr_nonzero [of 0 entry] by blast
    have slots: "\<forall>i < length (ws @ [cstr entry]). g_env_slots ?e ! i = Some (of_nat (length (env_block (take i (ws @ [cstr entry])))))"
      using rel True u(2) by (auto simp: env_rel_def nth_list_update less_Suc_eq)
    have "env_rel ?e (ws @ [cstr entry])"
      unfolding env_rel_def using rel True nz slots lp by (auto simp: env_rel_def pool)
    then show ?thesis using set True by simp
  next
    case False
    then show ?thesis using fits u by (auto simp: env_set_def str_len_eq Let_def not_le)
  qed
qed

lemma env_string_rel:
  assumes rel: "env_rel e ws" and i: "i < length ws"
  shows "cstr (env_string e i) = ws ! i"
proof -
  let ?a = "length (env_block (take i ws))" and ?u = "length (env_block ws)"
  have ws: "ws = take i ws @ ws ! i # drop (Suc i) ws" using i by (rule id_take_nth_drop)
  have blk: "env_block ws = env_block (take i ws) @ ws ! i @ [0] @ env_block (drop (Suc i) ws)"
    by (subst ws) (simp add: env_block_def)
  have a: "?a \<le> ?u" by (simp add: blk)
  have "?u \<le> 2048" using rel by (simp add: env_rel_def)
  then have ua: "unat (of_nat ?a :: u32) = ?a" using a by (intro unat_of_nat_u32) simp
  have "g_env_pool e = env_block ws @ drop ?u (g_env_pool e)"
    using rel by (metis append_take_drop_id env_rel_def)
  then have "drop ?a (g_env_pool e) = ws ! i @ 0 # env_block (drop (Suc i) ws) @ drop ?u (g_env_pool e)"
    using a by (metis (no_types, lifting) append.assoc append_Cons append_Nil append_eq_conv_conj blk)
  moreover have "0 \<notin> set (ws ! i)" using rel i by (auto simp: env_rel_def)
  moreover have "env_string e i = drop ?a (g_env_pool e)"
    using rel i ua by (simp add: env_string_def env_rel_def)
  ultimately show ?thesis by (simp add: cstr_append_zero)
qed

lemma env_print_all_rel:
  assumes rel: "env_rel (z_env s) ws"
  shows "env_print_all s = s\<lparr>z_out := z_out s @ concat (map (\<lambda>w. [w, [10]]) ws)\<rparr>"
proof -
  have "fold (\<lambda>i s. print [10] (print (env_string (z_env s) i) s)) [0..<n] s =
      s\<lparr>z_out := z_out s @ concat (map (\<lambda>w. [w, [10]]) (take n ws))\<rparr>" if "n \<le> length ws" for n
    using that
  proof (induction n)
    case (Suc n)
    then have "cstr (env_string (z_env s) n) = ws ! n" using env_string_rel [OF rel, of n] by simp
    then show ?case using Suc by (simp add: print_eq cstr_Cons take_Suc_conv_app_nth)
  qed simp
  from this [of "length ws"] show ?thesis using rel by (simp add: env_print_all_def env_rel_def)
qed

text \<open>C33. \<open>export\<close> and \<open>env\<close>: with the environment holding the strings \<open>ws\<close>, exporting an assignment succeeds
  exactly when fewer than 31 strings are stored and the pool of 2048 bytes has room for it; it is
  then the last line \<open>env\<close> prints, after all earlier ones, also when they assign to the same
  variable. Otherwise the environment is unchanged.\<close>

theorem export_then_env:
  assumes rel: "env_rel (z_env s) ws" and eq: "of_char CHR ''='' \<in> set (cstr entry)" and "length entry \<le> 256"
  shows "\<exists>r s' s''. cmd_export [cmd, entry] s = Some (r, s') \<and> cmd_env [] s' = Some (0, s'') \<and>
    (r = 0 \<longleftrightarrow> length ws < 31 \<and> length (env_block ws) + length (cstr entry) + 1 \<le> 2048) \<and>
    z_out s'' = z_out s' @ concat (map (\<lambda>w. [w, [10]]) (if r = 0 then ws @ [cstr entry] else ws))"
proof -
  have f: "find_char entry (of_char CHR ''='') \<noteq> None" using eq by (simp add: find_char_None)
  have small: "length (cstr entry) < 4294960000" using assms(3) length_cstr [of entry] by simp
  show ?thesis
  proof (cases "length ws < 31 \<and> length (env_block ws) + length (cstr entry) + 1 \<le> 2048")
    case True
    obtain e where e: "env_set entry (z_env s) = (0, e)" "env_rel e (ws @ [cstr entry])"
      using env_set_rel [OF rel small] True by auto
    define s' where "s' = print (lit ''[export set]'' @ [10]) (s\<lparr>z_env := e\<rparr>)"
    have "env_rel (z_env s') (ws @ [cstr entry])" using e(2) by (simp add: s'_def print_eq)
    note env_print_all_rel [OF this]
    moreover have "cmd_export [cmd, entry] s = Some (0, s')" using f e(1) by (auto simp: cmd_export_def s'_def)
    ultimately show ?thesis using True by (simp add: cmd_env_def)
  next
    case False
    then have e: "env_set entry (z_env s) = (- 1, z_env s)" using env_set_rel [OF rel small] by (simp split: if_splits)
    define s' where "s' = print (lit ''export: environment full'' @ [10]) s"
    have "env_rel (z_env s') ws" using rel by (simp add: s'_def print_eq)
    note env_print_all_rel [OF this]
    moreover have "cmd_export [cmd, entry] s = Some (- 1, s')" using f e by (auto simp: cmd_export_def s'_def)
    ultimately show ?thesis using False by (auto simp: cmd_env_def)
  qed
qed

section \<open>The end of a session\<close>

text \<open>A measure of the input that is left: a read that delivers something takes from it, nothing else adds to it.\<close>

definition input_shrinks :: "('k \<Rightarrow> nat) \<Rightarrow> ('k, 'd) zsh_calls \<Rightarrow> bool" where
  "input_shrinks left c \<longleftrightarrow> (\<forall>n k b d k'. call_read c n k = (b, d, k') \<longrightarrow> 0 < b \<longrightarrow> left k' < left k) \<and>
     (\<forall>p k r k'. call_exec c p k = (r, k') \<longrightarrow> left k' \<le> left k)"

definition cmd_returns :: "('k \<Rightarrow> nat) \<Rightarrow> ('k, 'd) zsh_cmd \<Rightarrow> bool" where
  "cmd_returns left f \<longleftrightarrow> (\<forall>args s. \<exists>r s'. f args s = Some (r, s') \<and> left (z_kernel s') \<le> left (z_kernel s))"

lemma print_kernel [simp]: "z_kernel (print t s) = z_kernel s"
  by (simp add: print_def)

lemma exec_left: "input_shrinks left c \<Longrightarrow> left (z_kernel (exec_or_report c p a s)) \<le> left (z_kernel s)"
  by (auto simp: exec_or_report_def sys_exec_call_def input_shrinks_def split: prod.splits)

lemma dispatch_returns:
  assumes c: "input_shrinks left c" and t: "\<And>e. e \<in> set tbl \<Longrightarrow> cmd_returns left (cmd_fn e)"
  shows "\<exists>s'. dispatch c tbl a args s = Some s' \<and> left (z_kernel s') \<le> left (z_kernel s)"
proof (cases "first_entry (\<lambda>e. streq (cmd_name e) a = 0) tbl")
  case None
  then show ?thesis using exec_left [OF c] by (auto simp: dispatch_def split: option.split)
next
  case (Some i)
  then have "i < length tbl" using first_entry_Some by fastforce
  then have "cmd_returns left (cmd_fn (tbl ! i))" using t by simp
  then obtain r s' where "cmd_fn (tbl ! i) args s = Some (r, s')" "left (z_kernel s') \<le> left (z_kernel s)"
    unfolding cmd_returns_def by blast
  then show ?thesis using Some by (simp add: dispatch_def)
qed

lemma zsh_turn_returns:
  assumes c: "input_shrinks left c" and t: "\<And>e. e \<in> set tbl \<Longrightarrow> cmd_returns left (cmd_fn e)"
  shows "\<exists>r. zsh_turn c tbl input s = Some r \<and> (\<forall>input' s'. r = Inr (input', s') \<longrightarrow> left (z_kernel s') < left (z_kernel s))"
proof -
  obtain b d k where rd: "call_read c 255 (z_kernel s) = (b, d, k)" by (metis surj_pair)
  show ?thesis
  proof (cases "0 < b")
    case True
    then have lt: "left k < left (z_kernel s)" using c rd by (simp add: input_shrinks_def)
    obtain input2 as where pa: "parse_args ((d @ drop (length d) input)[nat b := 0]) = (input2, as)" by fastforce
    define args where "args = map (arg_at input2) as"
    define s1 where "s1 = (print (lit ''$ '') s)\<lparr>z_kernel := k\<rparr>"
    obtain s2 where s2: "dispatch c tbl (hd args) args s1 = Some s2" "left (z_kernel s2) \<le> left (z_kernel s1)"
      using dispatch_returns [OF c t] by blast
    have "left (z_kernel s2) < left (z_kernel s)" "left (z_kernel s1) < left (z_kernel s)" using s2(2) lt by (simp_all add: s1_def)
    moreover have "zsh_turn c tbl input s = (if as = [] then Some (Inr (input2, s1)) else if streq (hd args) (lit ''exit'') = 0 then Some (Inl s1)
        else Some (Inr (input2, s2)))"
      using rd True pa s2(1) by (simp add: zsh_turn_def Let_def s1_def args_def)
    ultimately show ?thesis by auto
  next
    case False
    then show ?thesis using rd by (simp add: zsh_turn_def Let_def)
  qed
qed

lemma zsh_loop_returns:
  assumes c: "input_shrinks left c" and t: "\<And>e. e \<in> set tbl \<Longrightarrow> cmd_returns left (cmd_fn e)"
  shows "\<exists>s'. zsh_loop c tbl input s = Some s'"
proof (induction "left (z_kernel s)" arbitrary: input s rule: less_induct)
  case less
  obtain r where r: "zsh_turn c tbl input s = Some r" "\<forall>input' s'. r = Inr (input', s') \<longrightarrow> left (z_kernel s') < left (z_kernel s)"
    using zsh_turn_returns [OF c t] by blast
  show ?case
  proof (cases r)
    case (Inl s')
    then show ?thesis using r by (subst zsh_loop.simps) simp
  next
    case (Inr x)
    then obtain input' s' where x: "x = (input', s')" by fastforce
    then show ?thesis using r Inr less [of s' input'] by (subst zsh_loop.simps) simp
  qed
qed

definition pkg_none :: "unit pkg_state" where
  "pkg_none = \<lparr>pkg_vfs = vfs_boot, pkg_dyn = g_dyn_table\<rparr>"

text \<open>A terminal with the lines still to be typed, and the silent device of a serial line that is always ready.\<close>

definition typed_calls :: "(cstring list, unit) zsh_calls" where
  "typed_calls = \<lparr>call_read = (\<lambda>n k. case k of [] \<Rightarrow> (0, [], []) | l # ls \<Rightarrow> (int (length (take n l)), take n l, ls)),
     call_exec = (\<lambda>p k. (- 1, k)), dyn_lookup = (\<lambda>_ _. None), file_ops = (\<lambda>_. \<lparr>op_read = None, op_write = None\<rparr>),
     locals = \<lparr>loc_dst = [], loc_buf = [], loc_entries = []\<rparr>\<rparr>"

definition typed_shell :: "cstring list \<Rightarrow> (cstring list, unit) zsh" where
  "typed_shell ls = \<lparr>z_env = env0, z_out = [], z_pkg = pkg_none, z_io = \<lparr>io_log = [], dev8 = (\<lambda>_ _. 0x20), dev16 = (\<lambda>_ _. 0)\<rparr>, z_kernel = ls\<rparr>"

theorem export_then_env_witness:
  "\<exists>r s' s''. cmd_export [lit ''export'', lit ''A=1''] (typed_shell []) = Some (r, s') \<and> cmd_env [] s' = Some (0, s'') \<and>
    r = 0 \<and> z_out s'' = z_out s' @ [lit ''A=1'', [10]]"
  using export_then_env [of "typed_shell []" "[]" "lit ''A=1''" "lit ''export''"] env0_rel
  by (auto simp: typed_shell_def lit_def cstr_Cons)

text \<open>C34. The shell ends with its input: when every read that delivers bytes takes from a finite supply,
  the commands of the table return and neither they nor \<open>exec\<close> add to the supply, \<open>main\<close> prints
  its greeting on the serial line and returns 0, whatever is typed.\<close>

theorem zsh_main_returns:
  assumes "uart_live (dev8 (z_io s))" and "input_shrinks left c"
    and "\<And>e. e \<in> set tbl \<Longrightarrow> cmd_returns left (cmd_fn e)"
  shows "\<exists>s'. zsh_main c tbl input s = Some (0, s')"
proof -
  have "uart_live (dev8 (serial_init (z_io s)))" using assms(1) by (simp add: serial_init_def Let_def)
  then obtain d where "serial_puts (lit ''[INIT] Userland shell initialized.'' @ [10]) (serial_init (z_io s)) = Some d"
    using prints_serial_puts unfolding prints_def by blast
  moreover obtain s' where "zsh_loop c tbl input (s\<lparr>z_io := d\<rparr>) = Some s'" using zsh_loop_returns [OF assms(2,3)] by blast
  ultimately show ?thesis by (simp add: zsh_main_def)
qed

lemma typed_calls_shrink: "input_shrinks length typed_calls"
  by (auto simp: input_shrinks_def typed_calls_def split: list.splits)

lemma echo_kernel: "z_kernel (echo_loop as s) = z_kernel s"
  by (induction as s rule: echo_loop.induct) simp_all

lemma env_fold_kernel:
  "z_kernel (fold (\<lambda>i s. print [10] (print (env_string (z_env s) i) s)) is s) = z_kernel s"
  by (induction "is" arbitrary: s) simp_all

lemma builtin_returns:
  "cmd_returns left cmd_clear" "cmd_returns left cmd_echo" "cmd_returns left cmd_export" "cmd_returns left cmd_env"
  by (auto simp: cmd_returns_def cmd_clear_def cmd_echo_def cmd_export_def cmd_env_def env_print_all_def
    echo_kernel env_fold_kernel Let_def split: prod.splits)

theorem zsh_main_returns_witness:
  "\<exists>s'. zsh_main typed_calls (take 4 (zsh_commands typed_calls)) (replicate 256 0)
     (typed_shell [lit ''export A=1'', lit ''env'', lit ''ls'']) = Some (0, s')"
proof (rule zsh_main_returns [OF _ typed_calls_shrink])
  show "uart_live (dev8 (z_io (typed_shell [lit ''export A=1'', lit ''env'', lit ''ls''])))"
    by (simp add: typed_shell_def uart_live_def)
  fix e assume "e \<in> set (take 4 (zsh_commands typed_calls))"
  then show "cmd_returns length (cmd_fn e)" by (auto simp: zsh_commands_def builtin_returns)
qed

end
