(* ===== verification/Syscalls.thy ===== *)
theory Syscalls
  imports Sys_Io
begin

text \<open>
  \<open>kernel/include/syscalls.h\<close>: the user side of system calls for six architectures, and
  \<open>kernel/kill.c\<close>, which uses it. A call is the trap instruction with the registers the inline
  assembly loads and the register it takes the result from, \<open>None\<close> where the constraint leaves
  that register to the compiler. What the kernel answers is the parameter \<open>kern\<close>.
\<close>

section \<open>Numbers and registers\<close>

datatype arch = X86_64 | I386 | Aarch64 | Arm | Mips | Riscv

datatype sysname = SYS_read | SYS_write | SYS_open | SYS_close
  | SYS_newstat | SYS_lseek | SYS_chdir | SYS_mkdir | SYS_exit | SYS_getdents64
  | SYS_stat64 | SYS_openat | SYS_mkdirat | SYS_fstatat

fun sys_number :: "arch \<Rightarrow> sysname \<Rightarrow> int option" where
  "sys_number X86_64 n = map_of [(SYS_read, 0), (SYS_write, 1), (SYS_open, 2), (SYS_close, 3),
     (SYS_newstat, 4), (SYS_lseek, 8), (SYS_chdir, 80), (SYS_mkdir, 83), (SYS_exit, 60),
     (SYS_getdents64, 217)] n"
| "sys_number I386 n = map_of [(SYS_exit, 1), (SYS_read, 3), (SYS_write, 4), (SYS_open, 5),
     (SYS_close, 6), (SYS_mkdir, 39), (SYS_lseek, 19), (SYS_stat64, 195), (SYS_chdir, 12),
     (SYS_getdents64, 220)] n"
| "sys_number Aarch64 n = map_of [(SYS_exit, 93), (SYS_read, 63), (SYS_write, 64), (SYS_openat, 56),
     (SYS_close, 57), (SYS_mkdirat, 34), (SYS_lseek, 62), (SYS_fstatat, 79), (SYS_chdir, 49),
     (SYS_getdents64, 61)] n"
| "sys_number Arm n = map_of [(SYS_exit, 1), (SYS_read, 3), (SYS_write, 4), (SYS_open, 5),
     (SYS_close, 6), (SYS_mkdir, 39), (SYS_lseek, 19), (SYS_stat64, 195), (SYS_chdir, 12),
     (SYS_getdents64, 217)] n"
| "sys_number Mips n = map_of [(SYS_exit, 4001), (SYS_read, 4003), (SYS_write, 4004), (SYS_open, 4005),
     (SYS_close, 4006), (SYS_mkdir, 4039), (SYS_lseek, 4019), (SYS_stat64, 4188), (SYS_chdir, 4012),
     (SYS_getdents64, 4219)] n"
| "sys_number Riscv n = map_of [(SYS_exit, 93), (SYS_read, 63), (SYS_write, 64), (SYS_openat, 56),
     (SYS_close, 57), (SYS_mkdirat, 34), (SYS_lseek, 62), (SYS_fstatat, 79), (SYS_chdir, 49),
     (SYS_getdents64, 61)] n"

definition sys_num :: "arch \<Rightarrow> sysname \<Rightarrow> int" where
  "sys_num a n = (case sys_number a n of Some k \<Rightarrow> k | None \<Rightarrow> - 1)"

datatype insn = Insn_syscall | Insn_int80 | Insn_svc | Insn_swi | Insn_ecall

record trap =
  trap_insn :: insn
  trap_regs :: "(string \<times> int) list"
  trap_result :: "string option"

definition my_syscall0 :: "arch \<Rightarrow> int \<Rightarrow> trap" where
  "my_syscall0 a num = (case a of
     X86_64 \<Rightarrow> \<lparr>trap_insn = Insn_syscall, trap_regs = [(''rax'', num)], trap_result = Some ''rax''\<rparr>
   | I386 \<Rightarrow> \<lparr>trap_insn = Insn_int80, trap_regs = [(''eax'', num)], trap_result = Some ''eax''\<rparr>
   | Aarch64 \<Rightarrow> \<lparr>trap_insn = Insn_svc, trap_regs = [(''x8'', num)], trap_result = None\<rparr>
   | Arm \<Rightarrow> \<lparr>trap_insn = Insn_swi, trap_regs = [(''r7'', num)], trap_result = None\<rparr>
   | Mips \<Rightarrow> \<lparr>trap_insn = Insn_syscall, trap_regs = [(''v0'', num)], trap_result = Some ''v0''\<rparr>
   | Riscv \<Rightarrow> \<lparr>trap_insn = Insn_ecall, trap_regs = [(''a7'', num)], trap_result = None\<rparr>)"

definition my_syscall1 :: "arch \<Rightarrow> int \<Rightarrow> int \<Rightarrow> trap" where
  "my_syscall1 a num a1 = (case a of
     X86_64 \<Rightarrow> \<lparr>trap_insn = Insn_syscall, trap_regs = [(''rax'', num), (''rdi'', a1)], trap_result = Some ''rax''\<rparr>
   | I386 \<Rightarrow> \<lparr>trap_insn = Insn_int80, trap_regs = [(''eax'', num), (''ebx'', a1)], trap_result = Some ''eax''\<rparr>
   | Aarch64 \<Rightarrow> \<lparr>trap_insn = Insn_svc, trap_regs = [(''x0'', a1), (''x8'', num)], trap_result = None\<rparr>
   | Arm \<Rightarrow> \<lparr>trap_insn = Insn_swi, trap_regs = [(''r0'', a1), (''r7'', num)], trap_result = None\<rparr>
   | Mips \<Rightarrow> \<lparr>trap_insn = Insn_syscall, trap_regs = [(''v0'', num), (''$4'', a1)], trap_result = Some ''v0''\<rparr>
   | Riscv \<Rightarrow> \<lparr>trap_insn = Insn_ecall, trap_regs = [(''a0'', a1), (''a7'', num)], trap_result = None\<rparr>)"

definition my_syscall2 :: "arch \<Rightarrow> int \<Rightarrow> int \<Rightarrow> int \<Rightarrow> trap" where
  "my_syscall2 a num a1 a2 = (case a of
     X86_64 \<Rightarrow> \<lparr>trap_insn = Insn_syscall, trap_regs = [(''rax'', num), (''rdi'', a1), (''rsi'', a2)], trap_result = Some ''rax''\<rparr>
   | I386 \<Rightarrow> \<lparr>trap_insn = Insn_int80, trap_regs = [(''eax'', num), (''ebx'', a1), (''ecx'', a2)], trap_result = Some ''eax''\<rparr>
   | Aarch64 \<Rightarrow> \<lparr>trap_insn = Insn_svc, trap_regs = [(''x0'', a1), (''x1'', a2), (''x8'', num)], trap_result = None\<rparr>
   | Arm \<Rightarrow> \<lparr>trap_insn = Insn_swi, trap_regs = [(''r0'', a1), (''r1'', a2), (''r7'', num)], trap_result = None\<rparr>
   | Mips \<Rightarrow> \<lparr>trap_insn = Insn_syscall, trap_regs = [(''v0'', num), (''$4'', a1), (''$5'', a2)], trap_result = Some ''v0''\<rparr>
   | Riscv \<Rightarrow> \<lparr>trap_insn = Insn_ecall, trap_regs = [(''a0'', a1), (''a1'', a2), (''a7'', num)], trap_result = None\<rparr>)"

definition my_syscall3 :: "arch \<Rightarrow> int \<Rightarrow> int \<Rightarrow> int \<Rightarrow> int \<Rightarrow> trap" where
  "my_syscall3 a num a1 a2 a3 = (case a of
     X86_64 \<Rightarrow> \<lparr>trap_insn = Insn_syscall, trap_regs = [(''rax'', num), (''rdi'', a1), (''rsi'', a2), (''rdx'', a3)], trap_result = Some ''rax''\<rparr>
   | I386 \<Rightarrow> \<lparr>trap_insn = Insn_int80, trap_regs = [(''eax'', num), (''ebx'', a1), (''ecx'', a2), (''edx'', a3)], trap_result = Some ''eax''\<rparr>
   | Aarch64 \<Rightarrow> \<lparr>trap_insn = Insn_svc, trap_regs = [(''x0'', a1), (''x1'', a2), (''x2'', a3), (''x8'', num)], trap_result = None\<rparr>
   | Arm \<Rightarrow> \<lparr>trap_insn = Insn_swi, trap_regs = [(''r0'', a1), (''r1'', a2), (''r2'', a3), (''r7'', num)], trap_result = None\<rparr>
   | Mips \<Rightarrow> \<lparr>trap_insn = Insn_syscall, trap_regs = [(''v0'', num), (''$4'', a1), (''$5'', a2), (''$6'', a3)], trap_result = Some ''v0''\<rparr>
   | Riscv \<Rightarrow> \<lparr>trap_insn = Insn_ecall, trap_regs = [(''a0'', a1), (''a1'', a2), (''a2'', a3), (''a7'', num)], trap_result = None\<rparr>)"

definition my_syscall4 :: "arch \<Rightarrow> int \<Rightarrow> int \<Rightarrow> int \<Rightarrow> int \<Rightarrow> int \<Rightarrow> trap" where
  "my_syscall4 a num a1 a2 a3 a4 = (case a of
     X86_64 \<Rightarrow> \<lparr>trap_insn = Insn_syscall,
       trap_regs = [(''rax'', num), (''rdi'', a1), (''rsi'', a2), (''rdx'', a3), (''r10'', a4)], trap_result = Some ''rax''\<rparr>
   | I386 \<Rightarrow> \<lparr>trap_insn = Insn_int80,
       trap_regs = [(''eax'', num), (''ebx'', a1), (''ecx'', a2), (''edx'', a3), (''esi'', a4)], trap_result = Some ''eax''\<rparr>
   | Aarch64 \<Rightarrow> \<lparr>trap_insn = Insn_svc,
       trap_regs = [(''x0'', a1), (''x1'', a2), (''x2'', a3), (''x3'', a4), (''x8'', num)], trap_result = None\<rparr>
   | Arm \<Rightarrow> \<lparr>trap_insn = Insn_swi,
       trap_regs = [(''r0'', a1), (''r1'', a2), (''r2'', a3), (''r3'', a4), (''r7'', num)], trap_result = None\<rparr>
   | Mips \<Rightarrow> \<lparr>trap_insn = Insn_syscall,
       trap_regs = [(''v0'', num), (''$4'', a1), (''$5'', a2), (''$6'', a3), (''$7'', a4)], trap_result = Some ''v0''\<rparr>
   | Riscv \<Rightarrow> \<lparr>trap_insn = Insn_ecall,
       trap_regs = [(''a0'', a1), (''a1'', a2), (''a2'', a3), (''a3'', a4), (''a7'', num)], trap_result = None\<rparr>)"

section \<open>The wrappers\<close>

text \<open>The answer of the kernel as the register holds it, and cut to a C \<open>int\<close>.\<close>

type_synonym 'k kernel_call = "trap \<Rightarrow> 'k \<Rightarrow> int \<times> 'k"

definition to_int :: "int \<times> 'k \<Rightarrow> int \<times> 'k" where
  "to_int r = (sint (word_of_int (fst r) :: u32), snd r)"

text \<open>\<open>sys_exit\<close> loops if the trap comes back, so it never returns; the model gives the kernel's state then.\<close>

definition sys_exit :: "'k kernel_call \<Rightarrow> arch \<Rightarrow> int \<Rightarrow> 'k \<Rightarrow> 'k" where
  "sys_exit kern a status k = snd (kern (my_syscall1 a (sys_num a SYS_exit) status) k)"

definition sys_write :: "'k kernel_call \<Rightarrow> arch \<Rightarrow> int \<Rightarrow> int \<Rightarrow> int \<Rightarrow> 'k \<Rightarrow> int \<times> 'k" where
  "sys_write kern a fd buf count = kern (my_syscall3 a (sys_num a SYS_write) fd buf count)"

definition user_read :: "'k kernel_call \<Rightarrow> arch \<Rightarrow> int \<Rightarrow> int \<Rightarrow> int \<Rightarrow> 'k \<Rightarrow> int \<times> 'k" where
  "user_read kern a fd buf count = kern (my_syscall3 a (sys_num a SYS_read) fd buf count)"

definition sys_open :: "'k kernel_call \<Rightarrow> arch \<Rightarrow> int \<Rightarrow> int \<Rightarrow> int \<Rightarrow> 'k \<Rightarrow> int \<times> 'k" where
  "sys_open kern a pathname flags mode k = to_int (case sys_number a SYS_openat of
     Some n \<Rightarrow> kern (my_syscall4 a n (- 100) pathname flags mode) k
   | None \<Rightarrow> kern (my_syscall3 a (sys_num a SYS_open) pathname flags mode) k)"

definition sys_close :: "'k kernel_call \<Rightarrow> arch \<Rightarrow> int \<Rightarrow> 'k \<Rightarrow> int \<times> 'k" where
  "sys_close kern a fd k = to_int (kern (my_syscall1 a (sys_num a SYS_close) fd) k)"

definition sys_lseek :: "'k kernel_call \<Rightarrow> arch \<Rightarrow> int \<Rightarrow> int \<Rightarrow> int \<Rightarrow> 'k \<Rightarrow> int \<times> 'k" where
  "sys_lseek kern a fd offset whence = kern (my_syscall3 a (sys_num a SYS_lseek) fd offset whence)"

definition sys_stat :: "'k kernel_call \<Rightarrow> arch \<Rightarrow> int \<Rightarrow> int \<Rightarrow> 'k \<Rightarrow> int \<times> 'k" where
  "sys_stat kern a pathname statbuf k = to_int (case sys_number a SYS_fstatat of
     Some n \<Rightarrow> kern (my_syscall4 a n (- 100) pathname statbuf 0) k
   | None \<Rightarrow> case sys_number a SYS_stat64 of
       Some n \<Rightarrow> kern (my_syscall2 a n pathname statbuf) k
     | None \<Rightarrow> kern (my_syscall2 a (sys_num a SYS_newstat) pathname statbuf) k)"

definition sys_mkdir :: "'k kernel_call \<Rightarrow> arch \<Rightarrow> int \<Rightarrow> int \<Rightarrow> 'k \<Rightarrow> int \<times> 'k" where
  "sys_mkdir kern a pathname mode k = to_int (case sys_number a SYS_mkdirat of
     Some n \<Rightarrow> kern (my_syscall3 a n (- 100) pathname mode) k
   | None \<Rightarrow> kern (my_syscall2 a (sys_num a SYS_mkdir) pathname mode) k)"

definition sys_getdents64 :: "'k kernel_call \<Rightarrow> arch \<Rightarrow> int \<Rightarrow> int \<Rightarrow> int \<Rightarrow> 'k \<Rightarrow> int \<times> 'k" where
  "sys_getdents64 kern a fd dirp count k = to_int (kern (my_syscall3 a (sys_num a SYS_getdents64) fd dirp count) k)"

definition sys_chdir :: "'k kernel_call \<Rightarrow> arch \<Rightarrow> int \<Rightarrow> 'k \<Rightarrow> int \<times> 'k" where
  "sys_chdir kern a path k = to_int (kern (my_syscall1 a (sys_num a SYS_chdir) path) k)"

section \<open>The fields of a stat buffer\<close>

text \<open>The field macros read integers at fixed offsets of the 144 bytes; the 64-bit architectures read eight bytes
  for the size and the time.\<close>

definition le64_word :: "u8 list \<Rightarrow> u64" where
  "le64_word bs = ucast (le_word bs) OR push_bit 32 (ucast (le_word (drop 4 bs)))"

definition STAT_MODE :: "arch \<Rightarrow> u8 list \<Rightarrow> int" where
  "STAT_MODE a rep = (case a of X86_64 \<Rightarrow> uint (le_word (drop 24 rep)) | I386 \<Rightarrow> uint (le16_word (drop 16 rep)) | _ \<Rightarrow> uint (le_word (drop 16 rep)))"

definition STAT_UID :: "arch \<Rightarrow> u8 list \<Rightarrow> int" where
  "STAT_UID a rep = (case a of X86_64 \<Rightarrow> uint (le_word (drop 28 rep)) | I386 \<Rightarrow> uint (le16_word (drop 24 rep)) | _ \<Rightarrow> uint (le_word (drop 20 rep)))"

definition STAT_GID :: "arch \<Rightarrow> u8 list \<Rightarrow> int" where
  "STAT_GID a rep = (case a of X86_64 \<Rightarrow> uint (le_word (drop 32 rep)) | I386 \<Rightarrow> uint (le16_word (drop 28 rep)) | _ \<Rightarrow> uint (le_word (drop 24 rep)))"

definition STAT_SIZE :: "arch \<Rightarrow> u8 list \<Rightarrow> int" where
  "STAT_SIZE a rep = (case a of X86_64 \<Rightarrow> sint (le64_word (drop 48 rep)) | I386 \<Rightarrow> sint (le_word (drop 44 rep))
     | Aarch64 \<Rightarrow> sint (le64_word (drop 48 rep)) | Riscv \<Rightarrow> sint (le64_word (drop 48 rep)) | _ \<Rightarrow> sint (le_word (drop 48 rep)))"

definition STAT_MTIME :: "arch \<Rightarrow> u8 list \<Rightarrow> int" where
  "STAT_MTIME a rep = (case a of X86_64 \<Rightarrow> uint (le64_word (drop 88 rep)) | I386 \<Rightarrow> uint (le_word (drop 64 rep))
     | Aarch64 \<Rightarrow> sint (le64_word (drop 72 rep)) | Riscv \<Rightarrow> sint (le64_word (drop 72 rep)) | _ \<Rightarrow> sint (le_word (drop 72 rep)))"

definition S_ISDIR :: "u32 \<Rightarrow> bool" where
  "S_ISDIR m \<longleftrightarrow> m AND 0xF000 = 0x4000"

section \<open>kill.c\<close>

abbreviation (input) SYS_KILL :: int where "SYS_KILL \<equiv> 6"

definition sys_kill :: "'k kernel_call \<Rightarrow> arch \<Rightarrow> int \<Rightarrow> 'k \<Rightarrow> int \<times> 'k" where
  "sys_kill kern a task_id = kern (my_syscall1 a SYS_KILL task_id)"

text \<open>\<open>long\<close> has 32 bits on the i386 build; the sum is kept modulo \<open>2 ^ 32\<close>.\<close>

function atol_loop :: "cstring \<Rightarrow> u32 \<Rightarrow> u32" where
  "atol_loop s result =
     (if 0x30 \<le> peek s \<and> peek s \<le> 0x39 then atol_loop (tl s) (result * 10 + (ucast (peek s) - 0x30)) else result)"
  by pat_completeness auto
termination
  by (relation "measure (\<lambda>(s, _). length s)") (auto intro: length_tl_less simp del: length_tl)

declare atol_loop.simps [simp del]

definition kill_atol :: "cstring \<Rightarrow> int" where
  "kill_atol s =
     (let neg = (peek s = of_char CHR ''-''); s = (if neg then tl s else s); result = atol_loop s 0
      in sint (if neg then - result else result))"

definition cmd_kill :: "'k kernel_call \<Rightarrow> arch \<Rightarrow> cstring list \<Rightarrow> 'k \<times> out \<Rightarrow> int \<times> 'k \<times> out" where
  "cmd_kill kern a argv st =
     (let (k, lg) = st in
      if length argv < 2 then (1, k, io_print (line ''usage: kill <task_id>'') lg)
      else let task_id = kill_atol (argv ! 1) in
        if task_id \<le> 0 then (1, k, io_print (line ''kill: invalid task id'') lg)
        else let (ret, k) = sys_kill kern a task_id k in
          if ret < 0 then (1, k, io_print (line ''kill: no such task'') lg)
          else (0, k, lg))"

section \<open>What the traps carry\<close>

text \<open>The calling convention of an architecture: the register of the number and those of the arguments.\<close>

fun num_reg :: "arch \<Rightarrow> string" where
  "num_reg X86_64 = ''rax''" | "num_reg I386 = ''eax''" | "num_reg Aarch64 = ''x8''" | "num_reg Arm = ''r7''"
| "num_reg Mips = ''v0''" | "num_reg Riscv = ''a7''"

fun arg_regs :: "arch \<Rightarrow> string list" where
  "arg_regs X86_64 = [''rdi'', ''rsi'', ''rdx'', ''r10'']"
| "arg_regs I386 = [''ebx'', ''ecx'', ''edx'', ''esi'']"
| "arg_regs Aarch64 = [''x0'', ''x1'', ''x2'', ''x3'']"
| "arg_regs Arm = [''r0'', ''r1'', ''r2'', ''r3'']"
| "arg_regs Mips = [''$4'', ''$5'', ''$6'', ''$7'']"
| "arg_regs Riscv = [''a0'', ''a1'', ''a2'', ''a3'']"

definition carries :: "arch \<Rightarrow> trap \<Rightarrow> int \<Rightarrow> int list \<Rightarrow> bool" where
  "carries a t num args \<longleftrightarrow> map_of (trap_regs t) (num_reg a) = Some num \<and>
     map (map_of (trap_regs t)) (take (length args) (arg_regs a)) = map Some args \<and> length (trap_regs t) = Suc (length args)"

lemma syscall_carries:
  "carries a (my_syscall0 a num) num []" "carries a (my_syscall1 a num a1) num [a1]"
  "carries a (my_syscall2 a num a1 a2) num [a1, a2]" "carries a (my_syscall3 a num a1 a2 a3) num [a1, a2, a3]"
  "carries a (my_syscall4 a num a1 a2 a3 a4) num [a1, a2, a3, a4]"
  by (cases a; simp add: carries_def my_syscall0_def my_syscall1_def my_syscall2_def my_syscall3_def my_syscall4_def)+

lemma sys_number_distinct: "sys_number a m = Some k \<Longrightarrow> sys_number a n = Some k \<Longrightarrow> m = n"
  by (cases a; cases m; cases n; simp)

text \<open>The number \<open>kill\<close> uses is the one of \<open>close\<close> on i386 and ARM: killing task \<open>n\<close> closes descriptor \<open>n\<close>.\<close>

lemma kill_is_close:
  "a = I386 \<or> a = Arm \<Longrightarrow> sys_close kern a task_id k = to_int (sys_kill kern a task_id k)"
  by (auto simp: sys_close_def sys_kill_def sys_num_def)

text \<open>Reading a decimal number.\<close>

definition digits_value :: "cstring \<Rightarrow> nat" where
  "digits_value ds = foldl (\<lambda>n c. n * 10 + (unat c - 48)) 0 ds"

lemma atol_loop_digits:
  "\<forall>c \<in> set ds. 0x30 \<le> c \<and> c \<le> 0x39 \<Longrightarrow> atol_loop ds (of_nat n) = of_nat (foldl (\<lambda>n c. n * 10 + (unat c - 48)) n ds)"
proof (induction ds arbitrary: n)
  case Nil
  then show ?case by (subst atol_loop.simps) (simp add: peek_def)
next
  case (Cons c ds)
  then have c: "48 \<le> unat c" "0x30 \<le> c" "c \<le> 0x39" by (auto simp: word_le_nat_alt)
  have "(ucast c :: u32) - 0x30 = of_nat (unat c) - of_nat 48" by simp
  also have "\<dots> = of_nat (unat c - 48)" using c(1) by (rule of_nat_diff [symmetric])
  finally have e: "of_nat n * 10 + ((ucast c :: u32) - 0x30) = of_nat (n * 10 + (unat c - 48))" by simp
  have "atol_loop (c # ds) (of_nat n) = atol_loop ds (of_nat n * 10 + ((ucast c :: u32) - 0x30))"
    using c by (subst atol_loop.simps) (simp add: peek_def)
  also have "\<dots> = of_nat (foldl (\<lambda>n c. n * 10 + (unat c - 48)) (n * 10 + (unat c - 48)) ds)"
    unfolding e using Cons by (intro Cons.IH) simp
  finally show ?case by simp
qed

lemma kill_atol_digits:
  assumes "\<forall>c \<in> set ds. 0x30 \<le> c \<and> c \<le> 0x39" "digits_value ds < 2147483648"
  shows "kill_atol ds = int (digits_value ds)"
proof -
  have neg: "peek ds \<noteq> of_char CHR ''-''" using assms(1) by (cases ds) (auto simp: peek_def)
  have "atol_loop ds 0 = of_nat (digits_value ds)" using atol_loop_digits [OF assms(1), of 0] by (simp add: digits_value_def)
  moreover have "sint (of_nat (digits_value ds) :: u32) = int (digits_value ds)"
    using assms(2) by (simp add: signed_of_nat signed_take_bit_int_eq_self)
  ultimately show ?thesis using neg by (simp add: kill_atol_def)
qed

end
