(* ===== verification/Fat32.thy ===== *)
theory Fat32
  imports Cstring
begin

text \<open>
  \<open>include/media/media.h\<close>, \<open>include/fs/fat32.h\<close> and \<open>fs/fat32/core.c\<close>: mounting a FAT32 volume. A
  storage device reads a sector into the caller's buffer; a missing operation is the null
  function pointer. \<open>fat32_read_file\<close> is only declared in the tree.
\<close>

record media_device_t =
  media_name :: cstring
  read_sector :: "(u32 \<Rightarrow> u8 list \<Rightarrow> int \<times> u8 list) option"
  write_sector :: "(u32 \<Rightarrow> u8 list \<Rightarrow> int) option"

text \<open>The packed boot sector structure.\<close>

record fat32_bootsector_t =
  bs_jmp :: "u8 list"
  bs_oem :: "u8 list"
  bs_bytes_per_sector :: u16
  bs_sectors_per_cluster :: u8
  bs_reserved_sectors :: u16
  bs_fat_count :: u8
  bs_root_entry_count :: u16
  bs_total_sectors_16 :: u16
  bs_media_descriptor :: u8
  bs_sectors_per_fat_16 :: u16
  bs_sectors_per_track :: u16
  bs_head_count :: u16
  bs_hidden_sectors :: u32
  bs_total_sectors_32 :: u32
  bs_sectors_per_fat32 :: u32
  bs_ext_flags :: u16
  bs_fs_version :: u16
  bs_root_cluster :: u32

definition load_bootsector :: "u8 list \<Rightarrow> fat32_bootsector_t" where
  "load_bootsector b = \<lparr>bs_jmp = take 3 b, bs_oem = take 8 (drop 3 b), bs_bytes_per_sector = le16_word (drop 11 b),
     bs_sectors_per_cluster = at b 13, bs_reserved_sectors = le16_word (drop 14 b), bs_fat_count = at b 16,
     bs_root_entry_count = le16_word (drop 17 b), bs_total_sectors_16 = le16_word (drop 19 b), bs_media_descriptor = at b 21,
     bs_sectors_per_fat_16 = le16_word (drop 22 b), bs_sectors_per_track = le16_word (drop 24 b), bs_head_count = le16_word (drop 26 b),
     bs_hidden_sectors = le_word (drop 28 b), bs_total_sectors_32 = le_word (drop 32 b), bs_sectors_per_fat32 = le_word (drop 36 b),
     bs_ext_flags = le16_word (drop 40 b), bs_fs_version = le16_word (drop 42 b), bs_root_cluster = le_word (drop 44 b)\<rparr>"

record fat32_ctx_t =
  ctx_dev :: "media_device_t option"
  ctx_bytes_per_sector :: u16
  ctx_sectors_per_cluster :: u8
  fat_begin_lba :: u32
  cluster_begin_lba :: u32
  root_dir_first_cluster :: u32
  ctx_sectors_per_fat :: u32
  ctx_fat_count :: u8
  mounted :: bool

record fat32 =
  g_ctx :: fat32_ctx_t
  g_device :: "media_device_t option"
  g_sector_buf :: "u8 list"

definition fat32_boot :: fat32 where
  "fat32_boot = \<lparr>g_ctx = \<lparr>ctx_dev = None, ctx_bytes_per_sector = 0, ctx_sectors_per_cluster = 0, fat_begin_lba = 0, cluster_begin_lba = 0,
     root_dir_first_cluster = 0, ctx_sectors_per_fat = 0, ctx_fat_count = 0, mounted = False\<rparr>, g_device = None, g_sector_buf = replicate 512 0\<rparr>"

definition fat32_set_device :: "media_device_t option \<Rightarrow> fat32 \<Rightarrow> fat32" where
  "fat32_set_device dev s = s\<lparr>g_device := dev\<rparr>"

definition fat32_mount :: "fat32 \<Rightarrow> int \<times> fat32" where
  "fat32_mount s =
     (case g_device s of None \<Rightarrow> (- 1, s) | Some d \<Rightarrow>
      case read_sector d of None \<Rightarrow> (- 1, s) | Some rd \<Rightarrow>
        let (r, buf) = rd 0 (g_sector_buf s); s = s\<lparr>g_sector_buf := buf\<rparr> in
        if r \<noteq> 0 then (- 2, s)
        else let bs = load_bootsector buf in
          if bs_bytes_per_sector bs \<noteq> 512 then (- 3, s)
          else (0, s\<lparr>g_ctx := \<lparr>ctx_dev = g_device s, ctx_bytes_per_sector = bs_bytes_per_sector bs,
            ctx_sectors_per_cluster = bs_sectors_per_cluster bs, fat_begin_lba = ucast (bs_reserved_sectors bs),
            cluster_begin_lba = ucast (bs_reserved_sectors bs) + ucast (bs_fat_count bs) * bs_sectors_per_fat32 bs,
            root_dir_first_cluster = bs_root_cluster bs, ctx_sectors_per_fat = bs_sectors_per_fat32 bs,
            ctx_fat_count = bs_fat_count bs, mounted = True\<rparr>\<rparr>))"

definition fat32_get_ctx :: "fat32 \<Rightarrow> fat32_ctx_t option" where
  "fat32_get_ctx s = (if mounted (g_ctx s) then Some (g_ctx s) else None)"

section \<open>Mounting\<close>

text \<open>A mount that fails leaves an earlier mount in force.\<close>

lemma fat32_mount_fails: "fat32_mount s = (r, s') \<Longrightarrow> r \<noteq> 0 \<Longrightarrow> fat32_get_ctx s' = fat32_get_ctx s"
  by (auto simp: fat32_mount_def fat32_get_ctx_def Let_def split: option.splits prod.splits if_splits)

text \<open>The data area starts behind the reserved sectors and all copies of the table, when these numbers fit
  in 32 bits; the copies do not overlap the data.\<close>

lemma fat32_mount_layout:
  assumes "fat32_mount s = (0, s')" and "bs = load_bootsector (g_sector_buf s')"
    and "unat (bs_reserved_sectors bs) + unat (bs_fat_count bs) * unat (bs_sectors_per_fat32 bs) < 4294967296"
  shows "\<exists>c. fat32_get_ctx s' = Some c \<and> unat (fat_begin_lba c) = unat (bs_reserved_sectors bs) \<and>
    unat (cluster_begin_lba c) = unat (fat_begin_lba c) + unat (ctx_fat_count c) * unat (ctx_sectors_per_fat c) \<and>
    ctx_bytes_per_sector c = 512 \<and> root_dir_first_cluster c = bs_root_cluster bs"
proof -
  have g: "g_ctx s' = \<lparr>ctx_dev = g_device s', ctx_bytes_per_sector = bs_bytes_per_sector bs,
            ctx_sectors_per_cluster = bs_sectors_per_cluster bs, fat_begin_lba = ucast (bs_reserved_sectors bs),
            cluster_begin_lba = ucast (bs_reserved_sectors bs) + ucast (bs_fat_count bs) * bs_sectors_per_fat32 bs,
            root_dir_first_cluster = bs_root_cluster bs, ctx_sectors_per_fat = bs_sectors_per_fat32 bs,
            ctx_fat_count = bs_fat_count bs, mounted = True\<rparr>" and b: "bs_bytes_per_sector bs = 512"
    using assms(1,2) by (auto simp: fat32_mount_def Let_def split: option.splits prod.splits if_splits)
  have u: "unat (ucast (bs_reserved_sectors bs) :: u32) = unat (bs_reserved_sectors bs)"
    "unat (ucast (bs_fat_count bs) :: u32) = unat (bs_fat_count bs)"
    by (simp_all add: unsigned_ucast_eq take_bit_eq_mod less_trans [OF unat_u16_less] less_trans [OF unat_u8_less])
  have m: "unat (ucast (bs_fat_count bs) * bs_sectors_per_fat32 bs) = unat (bs_fat_count bs) * unat (bs_sectors_per_fat32 bs)"
    using assms(3) u(2) by (simp add: unat_word_ariths)
  have "unat (ucast (bs_reserved_sectors bs) + ucast (bs_fat_count bs) * bs_sectors_per_fat32 bs) =
      unat (bs_reserved_sectors bs) + unat (bs_fat_count bs) * unat (bs_sectors_per_fat32 bs)"
    using assms(3) u m by (subst unat_add_nowrap) simp_all
  then show ?thesis using g b u by (simp add: fat32_get_ctx_def)
qed

end
