(* ===== verification/Exec.thy ===== *)
theory Exec
  imports Elf_Loader Mm_Heap Cstring
begin

text \<open>
  Starting programs: \<open>userland/syscall.c\<close> (the exec system call), \<open>userland/userspace.c\<close> (the
  switch to ring 3) and \<open>core/greet.c\<close> (fork, exec and spawn of tasks). \<open>fat32_read_file\<close>, which
  the tree only declares, is the parameter \<open>read_file\<close>: it fills memory at the buffer and
  gives the number of bytes, or a negative result.
\<close>

section \<open>userland/syscall.c\<close>

text \<open>How a call ends: it returns to its caller; the processor goes on at an address for good; or the code at
  an address is called, and the caller gets a result once that code returns.\<close>

datatype outcome = Returned int | Jump u32 | Calls u32 int

abbreviation (input) ELF_LOAD_BUF_SIZE :: u32 where "ELF_LOAD_BUF_SIZE \<equiv> 256 * 1024"

datatype exec_log = Read_Failed cstring | Load_Failed cstring | Jumping u32

definition sys_exec ::
  "(cstring \<Rightarrow> u32 \<Rightarrow> u32 \<Rightarrow> mem \<Rightarrow> int \<times> mem) \<Rightarrow> u32 \<Rightarrow> elf_load_result_t \<Rightarrow> cstring \<Rightarrow> mem \<times> exec_log list \<Rightarrow>
   outcome \<times> mem \<times> exec_log list" where
  "sys_exec read_file g_elf_load_buf res path st =
     (let (m, lg) = st;
          (size, m) = read_file path g_elf_load_buf ELF_LOAD_BUF_SIZE m
      in if size \<le> 0 then (Returned (- 1), m, lg @ [Read_Failed path])
         else let (r, res, m) = elf_load g_elf_load_buf (word_of_int size) res m
              in if r \<noteq> 0 then (Returned (- 1), m, lg @ [Load_Failed path])
                 else (Calls (entry res) 0, m, lg @ [Jumping (entry res)]))"

section \<open>userland/userspace.c\<close>

text \<open>The processor state the inline assembly works on. \<open>stk\<close> is the kernel stack, the last pushed word first.\<close>

record cpu =
  cs :: u32
  ds :: u32
  es :: u32
  fs :: u32
  gs :: u32
  ss :: u32
  esp :: u32
  eip :: u32
  eflags :: u32
  stk :: "u32 list"

abbreviation (input) USER_CS :: u32 where "USER_CS \<equiv> 0x1B"
abbreviation (input) USER_DS :: u32 where "USER_DS \<equiv> 0x23"
abbreviation (input) USER_STACK_TOP :: u32 where "USER_STACK_TOP \<equiv> 0x00800000"

definition cli :: "cpu \<Rightarrow> cpu" where
  "cli c = c\<lparr>eflags := unset_bit 9 (eflags c)\<rparr>"

definition push :: "u32 \<Rightarrow> cpu \<Rightarrow> cpu" where
  "push v c = c\<lparr>stk := v # stk c\<rparr>"

definition pushf :: "cpu \<Rightarrow> cpu" where
  "pushf c = push (eflags c) c"

text \<open>\<open>iret\<close> to a lower privilege takes five words: \<open>EIP\<close>, \<open>CS\<close>, \<open>EFLAGS\<close>, \<open>ESP\<close>, \<open>SS\<close>.\<close>

definition iret :: "cpu \<Rightarrow> cpu option" where
  "iret c = (case stk c of
     ip # cseg # fl # sp # sseg # r \<Rightarrow> Some (c\<lparr>eip := ip, cs := cseg, eflags := fl, esp := sp, ss := sseg, stk := r\<rparr>)
   | _ \<Rightarrow> None)"

definition jump_to_userspace :: "u32 \<Rightarrow> cpu \<Rightarrow> cpu option" where
  "jump_to_userspace entry_point c =
     (let c = cli c;
          c = c\<lparr>ds := USER_DS\<rparr>;
          c = c\<lparr>es := USER_DS\<rparr>;
          c = c\<lparr>fs := USER_DS\<rparr>;
          c = c\<lparr>gs := USER_DS\<rparr>;
          c = push USER_DS c;
          c = push USER_STACK_TOP c;
          c = pushf c;
          c = push USER_CS c;
          c = push entry_point c
      in iret c)"

text \<open>The program starts at its entry in ring 3 with the user selectors and stack, and with interrupts
  switched off: the flags are saved after \<open>cli\<close>, so \<open>iret\<close> loads a zero interrupt flag.\<close>

lemma jump_to_userspace_state:
  "\<exists>c'. jump_to_userspace entry_point c = Some c' \<and> eip c' = entry_point \<and> cs c' = 0x1B \<and> ss c' = 0x23 \<and> ds c' = 0x23 \<and>
     es c' = 0x23 \<and> fs c' = 0x23 \<and> gs c' = 0x23 \<and> esp c' = 0x00800000 \<and> stk c' = stk c \<and> \<not> bit (eflags c') 9"
  by (simp add: jump_to_userspace_def Let_def iret_def push_def pushf_def cli_def bit_simps)

section \<open>core/greet.c\<close>

text \<open>The scheduler behind \<open>greet.c\<close> is not in the tree: the model has the fields the file uses, by the
  place of the task. \<open>sched_alloc_task\<close>, \<open>sched_set_entry\<close> and the value of \<open>TASK_READY\<close> are parameters.\<close>

record greet_task =
  gt_id :: int
  gt_stack_base :: u32
  gt_esp :: u32
  gt_priority :: u32
  gt_state :: int

record greet =
  current_task :: nat
  gr_tasks :: "nat \<Rightarrow> greet_task"
  gr_heap :: heap

record greet_sched =
  sched_alloc_task :: "greet \<Rightarrow> (nat \<times> greet) option"
  sched_set_entry :: "nat \<Rightarrow> u32 \<Rightarrow> greet \<Rightarrow> greet"
  READY :: int

abbreviation (input) GREET_STACK_SIZE :: u32 where "GREET_STACK_SIZE \<equiv> 8192"

definition set_gr_task :: "nat \<Rightarrow> (greet_task \<Rightarrow> greet_task) \<Rightarrow> greet \<Rightarrow> greet" where
  "set_gr_task i f s = s\<lparr>gr_tasks := (gr_tasks s)(i := f (gr_tasks s i))\<rparr>"

definition greet_fork :: "greet_sched \<Rightarrow> greet \<Rightarrow> (int \<times> greet) option" where
  "greet_fork sc s =
     (let prnt = current_task s in
      case sched_alloc_task sc s of
        None \<Rightarrow> Some (- 1, s)
      | Some (child, s) \<Rightarrow> do {
          (h, new_stack) \<leftarrow> kmalloc (gr_heap s) GREET_STACK_SIZE;
          let s = s\<lparr>gr_heap := h\<rparr>;
          if new_stack = 0 then Some (- 1, s)
          else do {
            let p = gr_tasks s prnt;
            let s = s\<lparr>gr_heap := h\<lparr>mem := copy_up (unat GREET_STACK_SIZE) (mem h) new_stack (gt_stack_base p)\<rparr>\<rparr>;
            let p = gr_tasks s prnt;
            let offset = gt_esp p - gt_stack_base p;
            let s = set_gr_task child (\<lambda>t. t\<lparr>gt_stack_base := new_stack, gt_esp := new_stack + offset,
              gt_priority := gt_priority p, gt_state := READY sc\<rparr>) s;
            Some (gt_id (gr_tasks s child), s)
          }
        })"

definition greet_exec ::
  "(cstring \<Rightarrow> u32 \<Rightarrow> u32 \<Rightarrow> mem \<Rightarrow> int \<times> u32 \<times> mem) \<Rightarrow> u32 \<Rightarrow> elf_load_result_t \<Rightarrow> cstring \<Rightarrow> greet \<Rightarrow> outcome \<times> greet" where
  "greet_exec read_file4 g_elf_load_buf res path s =
     (let (r, size, m) = read_file4 path g_elf_load_buf 65536 (mem (gr_heap s));
          s = s\<lparr>gr_heap := (gr_heap s)\<lparr>mem := m\<rparr>\<rparr>
      in if r \<noteq> 0 then (Returned (- 1), s)
         else let (r, res, m) = elf_load g_elf_load_buf size res (mem (gr_heap s));
                  s = s\<lparr>gr_heap := (gr_heap s)\<lparr>mem := m\<rparr>\<rparr>
              in if r \<noteq> 0 then (Returned (- 1), s) else (Jump (entry res), s))"

definition greet_spawn ::
  "(cstring \<Rightarrow> u32 \<Rightarrow> u32 \<Rightarrow> mem \<Rightarrow> int \<times> u32 \<times> mem) \<Rightarrow> greet_sched \<Rightarrow> u32 \<Rightarrow> elf_load_result_t \<Rightarrow> cstring \<Rightarrow>
   greet \<Rightarrow> (int \<times> greet) option" where
  "greet_spawn read_file4 sc g_elf_load_buf res path s =
     (let (r, size, m) = read_file4 path g_elf_load_buf 65536 (mem (gr_heap s));
          s = s\<lparr>gr_heap := (gr_heap s)\<lparr>mem := m\<rparr>\<rparr>
      in if r \<noteq> 0 then Some (- 1, s)
         else let (r, res, m) = elf_load g_elf_load_buf size res (mem (gr_heap s));
                  s = s\<lparr>gr_heap := (gr_heap s)\<lparr>mem := m\<rparr>\<rparr>
              in if r \<noteq> 0 then Some (- 1, s)
                 else case sched_alloc_task sc s of
                   None \<Rightarrow> Some (- 1, s)
                 | Some (child, s) \<Rightarrow> do {
                     (h, stack) \<leftarrow> kmalloc (gr_heap s) GREET_STACK_SIZE;
                     let s = s\<lparr>gr_heap := h\<rparr>;
                     if stack = 0 then Some (- 1, s)
                     else do {
                       let s = set_gr_task child (\<lambda>t. t\<lparr>gt_stack_base := stack, gt_esp := stack + GREET_STACK_SIZE\<rparr>) s;
                       let s = sched_set_entry sc child (entry res) s;
                       let s = set_gr_task child (\<lambda>t. t\<lparr>gt_state := READY sc\<rparr>) s;
                       Some (gt_id (gr_tasks s child), s)
                     }
                   })"

text \<open>After a fork the child is ready with the priority of its parent, and its stack is a copy: the same
  bytes, and the stack pointer at the same distance from the base. Frames saved inside the stack still
  point into the stack of the parent.\<close>

lemma greet_fork_copies:
  assumes a: "sched_alloc_task sc s = Some (child, s1)" and k: "kmalloc (gr_heap s1) 8192 = Some (h, new)" "new \<noteq> 0"
    and p: "p = gr_tasks s1 (current_task s)" "child \<noteq> current_task s" "current_task s1 = current_task s"
    and apart: "\<And>y. in_region new 8192 y \<Longrightarrow> \<not> in_region (gt_stack_base p) 8192 y"
  shows "\<exists>s'. greet_fork sc s = Some (gt_id (gr_tasks s1 child), s') \<and> gr_tasks s' (current_task s) = p \<and>
    gt_state (gr_tasks s' child) = READY sc \<and> gt_priority (gr_tasks s' child) = gt_priority p \<and>
    gt_esp (gr_tasks s' child) - gt_stack_base (gr_tasks s' child) = gt_esp p - gt_stack_base p \<and>
    (\<forall>i < 8192. mem (gr_heap s') (gt_stack_base (gr_tasks s' child) + of_nat i) = mem h (gt_stack_base p + of_nat i))"
proof -
  have "copy_up 8192 (mem h) new (gt_stack_base p) (new + of_nat i) = mem h (gt_stack_base p + of_nat i)" if "i < 8192" for i
  proof -
    have "in_region new 8192 (new + of_nat i)" using that by (simp add: in_region_def unat_of_nat_u32)
    then show ?thesis using copy_up_apply [of 8192 new "gt_stack_base p" "mem h" "new + of_nat i"] apart by simp
  qed
  then show ?thesis
    using a k p by (auto simp: greet_fork_def Let_def set_gr_task_def)
qed

end
