(* ===== verification/Context_Switch.thy ===== *)
theory Context_Switch
  imports Sched
begin

text \<open>
  \<open>arch/x86-64/context_switch.asm\<close>: the switch between two stacks, one definition per instruction it
  uses, on the registers it touches and byte-addressed memory. At the entry the stack
  pointer is at the return address, with \<open>old_esp_store\<close> and \<open>new_esp\<close> above it.
\<close>

record asm =
  r_eax :: u32
  r_ebp :: u32
  r_ebx :: u32
  r_esi :: u32
  r_edi :: u32
  r_esp :: u32
  r_eip :: u32
  a_mem :: mem

definition asm_push :: "u32 \<Rightarrow> asm \<Rightarrow> asm" where
  "asm_push v s = s\<lparr>r_esp := r_esp s - 4, a_mem := wr32 (a_mem s) (r_esp s - 4) v\<rparr>"

definition asm_pop :: "asm \<Rightarrow> u32 \<times> asm" where
  "asm_pop s = (rd32 (a_mem s) (r_esp s), s\<lparr>r_esp := r_esp s + 4\<rparr>)"

definition context_switch :: "asm \<Rightarrow> asm" where
  "context_switch s =
     (let s = asm_push (r_ebp s) s;
          s = asm_push (r_ebx s) s;
          s = asm_push (r_esi s) s;
          s = asm_push (r_edi s) s;
          s = s\<lparr>r_eax := rd32 (a_mem s) (r_esp s + 20)\<rparr>;
          s = s\<lparr>a_mem := wr32 (a_mem s) (r_eax s) (r_esp s)\<rparr>;
          s = s\<lparr>r_esp := rd32 (a_mem s) (r_esp s + 24)\<rparr>;
          (v, s) = asm_pop s; s = s\<lparr>r_edi := v\<rparr>;
          (v, s) = asm_pop s; s = s\<lparr>r_esi := v\<rparr>;
          (v, s) = asm_pop s; s = s\<lparr>r_ebx := v\<rparr>;
          (v, s) = asm_pop s; s = s\<lparr>r_ebp := v\<rparr>;
          (v, s) = asm_pop s
      in s\<lparr>r_eip := v\<rparr>)"

text \<open>\<open>task_trampoline\<close> of \<open>init_sched.c\<close>, where such a switch first arrives. What the body of a task does is the
  parameter \<open>run\<close>, \<open>None\<close> for a body that never returns.\<close>

definition task_trampoline :: "(u32 \<Rightarrow> sched \<Rightarrow> sched option) \<Rightarrow> u32 \<Rightarrow> sched \<Rightarrow> (sched_fault + u32 option \<times> sched) option" where
  "task_trampoline run esp s = (case task_at (g_current_task s) (g_task_list s) of
     None \<Rightarrow> Some (Inl Null_Pointer)
   | Some t \<Rightarrow> do { s \<leftarrow> run (task_entry t) s; Some (sys_task_exit esp s) })"

section \<open>Saving and resuming\<close>

text \<open>The five words a suspended task keeps on its stack: \<open>edi\<close>, \<open>esi\<close>, \<open>ebx\<close>, \<open>ebp\<close> and the return address.\<close>

definition saved_frame :: "mem \<Rightarrow> u32 \<Rightarrow> u32 list" where
  "saved_frame m f = map (\<lambda>k. rd32 m (f + of_nat k)) [0, 4, 8, 12, 16]"

definition apart :: "u32 \<Rightarrow> nat \<Rightarrow> u32 \<Rightarrow> nat \<Rightarrow> bool" where
  "apart a n b k \<longleftrightarrow> unat a + n \<le> unat b \<or> unat b + k \<le> unat a"

text \<open>A call the switch can be entered with: room for four words below the stack pointer and three above, and
  a place for the old stack pointer that is none of these.\<close>

definition callable :: "asm \<Rightarrow> bool" where
  "callable s \<longleftrightarrow> 16 \<le> unat (r_esp s) \<and> unat (r_esp s) + 12 \<le> 4294967296 \<and>
     unat (rd32 (a_mem s) (r_esp s + 4)) + 4 \<le> 4294967296 \<and>
     apart (rd32 (a_mem s) (r_esp s + 4)) 4 (r_esp s - 16) 28"

definition pushed :: "asm \<Rightarrow> mem" where
  "pushed s = wr32 (wr32 (wr32 (wr32 (wr32 (a_mem s) (r_esp s - 4) (r_ebp s)) (r_esp s - 8) (r_ebx s)) (r_esp s - 12) (r_esi s))
     (r_esp s - 16) (r_edi s)) (rd32 (a_mem s) (r_esp s + 4)) (r_esp s - 16)"


lemma esp_below:
  assumes "16 \<le> unat e" "unat (e :: u32) + 12 \<le> 4294967296"
  shows "unat (e - 4) = unat e - 4" "unat (e - 8) = unat e - 8" "unat (e - 12) = unat e - 12" "unat (e - 16) = unat e - 16"
    "unat (e + 4) = unat e + 4" "unat (e + 8) = unat e + 8"
  using assms by (simp_all add: unat_sub word_le_nat_alt unat_add_nowrap)

lemma push_keeps:
  assumes "16 \<le> unat e" "unat (e :: u32) + 12 \<le> 4294967296"
  shows "\<And>m v. rd32 (wr32 m (e - 4) v) e = rd32 m e" "\<And>m v. rd32 (wr32 m (e - 8) v) e = rd32 m e"
    "\<And>m v. rd32 (wr32 m (e - 12) v) e = rd32 m e" "\<And>m v. rd32 (wr32 m (e - 16) v) e = rd32 m e"
    "\<And>m v. rd32 (wr32 m (e - 4) v) (e + 4) = rd32 m (e + 4)" "\<And>m v. rd32 (wr32 m (e - 8) v) (e + 4) = rd32 m (e + 4)" "\<And>m v. rd32 (wr32 m (e - 12) v) (e + 4) = rd32 m (e + 4)" "\<And>m v. rd32 (wr32 m (e - 16) v) (e + 4) = rd32 m (e + 4)"
    "\<And>m v. rd32 (wr32 m (e - 4) v) (e + 8) = rd32 m (e + 8)" "\<And>m v. rd32 (wr32 m (e - 8) v) (e + 8) = rd32 m (e + 8)" "\<And>m v. rd32 (wr32 m (e - 12) v) (e + 8) = rd32 m (e + 8)" "\<And>m v. rd32 (wr32 m (e - 16) v) (e + 8) = rd32 m (e + 8)"
    "\<And>m v. rd32 (wr32 m (e - 8) v) (e - 4) = rd32 m (e - 4)" "\<And>m v. rd32 (wr32 m (e - 12) v) (e - 4) = rd32 m (e - 4)" "\<And>m v. rd32 (wr32 m (e - 16) v) (e - 4) = rd32 m (e - 4)"
    "\<And>m v. rd32 (wr32 m (e - 12) v) (e - 8) = rd32 m (e - 8)" "\<And>m v. rd32 (wr32 m (e - 16) v) (e - 8) = rd32 m (e - 8)"
    "\<And>m v. rd32 (wr32 m (e - 16) v) (e - 12) = rd32 m (e - 12)"
  by (rule rd32_wr32_apart; use assms esp_below [OF assms] in linarith)+

lemma context_switch_eq:
  assumes "callable s"
  defines "n \<equiv> rd32 (a_mem s) (r_esp s + 8)"
  shows "context_switch s = \<lparr>r_eax = rd32 (a_mem s) (r_esp s + 4), r_ebp = rd32 (pushed s) (n + 12), r_ebx = rd32 (pushed s) (n + 8),
    r_esi = rd32 (pushed s) (n + 4), r_edi = rd32 (pushed s) n, r_esp = n + 20, r_eip = rd32 (pushed s) (n + 16), a_mem = pushed s\<rparr>"
proof -
  let ?e = "r_esp s"
  have b: "16 \<le> unat ?e" "unat ?e + 12 \<le> 4294967296" using assms(1) by (simp_all add: callable_def)
  note u = esp_below [OF b]
  let ?m = "wr32 (wr32 (wr32 (wr32 (a_mem s) (?e - 4) (r_ebp s)) (?e - 8) (r_ebx s)) (?e - 12) (r_esi s)) (?e - 16) (r_edi s)"
  have a1: "rd32 ?m (?e + 4) = rd32 (a_mem s) (?e + 4)" and a2: "rd32 ?m (?e + 8) = rd32 (a_mem s) (?e + 8)"
    by (simp_all only: push_keeps [OF b])
  have a3: "rd32 (pushed s) (?e + 8) = n"
    using assms(1) b a2 unfolding pushed_def n_def by (subst rd32_wr32_apart) (auto simp: callable_def apart_def u)
  show ?thesis
    using a1 a3 by (cases s) (simp add: context_switch_def asm_push_def asm_pop_def pushed_def [symmetric] pushed_def Let_def algebra_simps)
qed

lemma pushed_frame:
  assumes "callable s"
  shows "saved_frame (pushed s) (r_esp s - 16) = [r_edi s, r_esi s, r_ebx s, r_ebp s, rd32 (a_mem s) (r_esp s)]"
    and "rd32 (pushed s) (rd32 (a_mem s) (r_esp s + 4)) = r_esp s - 16"
proof -
  have b: "16 \<le> unat (r_esp s)" "unat (r_esp s) + 12 \<le> 4294967296" using assms by (simp_all add: callable_def)
  note u = esp_below [OF b]
  have st: "unat (rd32 (a_mem s) (r_esp s + 4)) + 4 \<le> 4294967296"
    "unat (rd32 (a_mem s) (r_esp s + 4)) + 4 \<le> unat (r_esp s) - 16 \<or> unat (r_esp s) + 12 \<le> unat (rd32 (a_mem s) (r_esp s + 4))"
    using assms b by (auto simp: callable_def apart_def u)
  have k: "r_esp s - 16 + 4 = r_esp s - 12" "r_esp s - 16 + 8 = r_esp s - 8" "r_esp s - 16 + 12 = r_esp s - 4" "r_esp s - 16 + 16 = r_esp s"
    by simp_all
  have skip: "rd32 (pushed s) x = rd32 (wr32 (wr32 (wr32 (wr32 (a_mem s) (r_esp s - 4) (r_ebp s)) (r_esp s - 8) (r_ebx s)) (r_esp s - 12) (r_esi s))
     (r_esp s - 16) (r_edi s)) x" if "unat (r_esp s) - 16 \<le> unat x" "unat x \<le> unat (r_esp s)" for x
    unfolding pushed_def using st b that by (subst rd32_wr32_apart) auto
  show "saved_frame (pushed s) (r_esp s - 16) = [r_edi s, r_esi s, r_ebx s, r_ebp s, rd32 (a_mem s) (r_esp s)]"
    using b by (simp add: saved_frame_def k skip u push_keeps [OF b])
  show "rd32 (pushed s) (rd32 (a_mem s) (r_esp s + 4)) = r_esp s - 16" by (simp add: pushed_def)
qed

text \<open>A frame that the writes of a switch do not touch is what the switch loads.\<close>

lemma pushed_outside:
  assumes "callable t" "unat f + 20 \<le> 4294967296" "apart f 20 (r_esp t - 16) 16" "apart f 20 (rd32 (a_mem t) (r_esp t + 4)) 4"
  shows "saved_frame (pushed t) f = saved_frame (a_mem t) f"
proof -
  have b: "16 \<le> unat (r_esp t)" "unat (r_esp t) + 12 \<le> 4294967296" using assms(1) by (simp_all add: callable_def)
  note u = esp_below [OF b]
  have "rd32 (pushed t) x = rd32 (a_mem t) x" if x: "unat f \<le> unat x" "unat x + 4 \<le> unat f + 20" for x
  proof -
    have f: "unat f + 20 \<le> unat (r_esp t) - 16 \<or> unat (r_esp t) \<le> unat f"
      using assms(3) b(1) unfolding apart_def u by linarith
    have "rd32 (wr32 m (r_esp t - 4) v) x = rd32 m x" "rd32 (wr32 m (r_esp t - 8) v) x = rd32 m x"
      "rd32 (wr32 m (r_esp t - 12) v) x = rd32 m x" "rd32 (wr32 m (r_esp t - 16) v) x = rd32 m x" for m v
      by (rule rd32_wr32_apart; use x f b assms(2) u in linarith)+
    moreover have "rd32 (wr32 m (rd32 (a_mem t) (r_esp t + 4)) v) x = rd32 m x" for m v
      using x assms(1,2,4) by (intro rd32_wr32_apart) (auto simp: callable_def apart_def)
    ultimately show ?thesis by (simp add: pushed_def)
  qed
  moreover have "unat (f + 4) = unat f + 4" "unat (f + 8) = unat f + 8" "unat (f + 12) = unat f + 12" "unat (f + 16) = unat f + 16"
    using assms(2) by (simp_all add: unat_add_nowrap)
  ultimately show ?thesis by (simp add: saved_frame_def)
qed

lemma context_switch_loads:
  assumes "callable t" and "rd32 (a_mem t) (r_esp t + 8) = f" and "unat f + 20 \<le> 4294967296"
    and "apart f 20 (r_esp t - 16) 16" and "apart f 20 (rd32 (a_mem t) (r_esp t + 4)) 4"
    and "saved_frame (a_mem t) f = [di, si, bx, bp, ip]"
  shows "r_edi (context_switch t) = di \<and> r_esi (context_switch t) = si \<and> r_ebx (context_switch t) = bx \<and>
    r_ebp (context_switch t) = bp \<and> r_eip (context_switch t) = ip \<and> r_esp (context_switch t) = f + 20"
  using pushed_outside [OF assms(1,3,4,5)] assms(2,6) by (simp add: context_switch_eq [OF assms(1)] saved_frame_def)

text \<open>The first switch to a task that \<open>sys_create_task\<close> made: all four registers are zero, the trampoline runs and
  the whole stack is free again.\<close>

lemma first_switch_enters:
  assumes "callable t" and "rd32 (a_mem t) (r_esp t + 8) = sp" and "unat sp + 20 < 4294967296"
    and "apart sp 20 (r_esp t - 16) 16" and "apart sp 20 (rd32 (a_mem t) (r_esp t + 4)) 4"
    and "saved_frame (a_mem t) sp = saved_frame (first_frame trampoline sp m) sp"
  shows "r_eip (context_switch t) = trampoline \<and> r_esp (context_switch t) = sp + 20 \<and> r_ebp (context_switch t) = 0"
  using context_switch_loads [OF assms(1,2) _ assms(4,5), of 0 0 0 0 trampoline] assms(3,6) first_frame_reads [OF assms(3), of trampoline m]
  by (simp add: saved_frame_def)

text \<open>C35. A task that calls \<open>context_switch\<close> leaves the address of its frame where it was told to. When
  another task later switches to that address, with the frame as it was left and outside what that
  second switch writes, the first task goes on behind its call with its stack pointer
  and its four callee-saved registers as they were.
\<close>

theorem context_switch_resumes:
  assumes "callable s" and "callable t"
    and "rd32 (a_mem (context_switch s)) (rd32 (a_mem s) (r_esp s + 4)) = rd32 (a_mem t) (r_esp t + 8)"
    and "saved_frame (a_mem t) (rd32 (a_mem t) (r_esp t + 8)) = saved_frame (a_mem (context_switch s)) (rd32 (a_mem t) (r_esp t + 8))"
    and "apart (rd32 (a_mem t) (r_esp t + 8)) 20 (r_esp t - 16) 16"
    and "apart (rd32 (a_mem t) (r_esp t + 8)) 20 (rd32 (a_mem t) (r_esp t + 4)) 4"
  shows "r_eip (context_switch t) = rd32 (a_mem s) (r_esp s) \<and> r_esp (context_switch t) = r_esp s + 4 \<and>
    r_ebp (context_switch t) = r_ebp s \<and> r_ebx (context_switch t) = r_ebx s \<and>
    r_esi (context_switch t) = r_esi s \<and> r_edi (context_switch t) = r_edi s"
proof -
  have m: "a_mem (context_switch s) = pushed s" by (simp add: context_switch_eq [OF assms(1)])
  have f: "rd32 (a_mem t) (r_esp t + 8) = r_esp s - 16" using assms(3) pushed_frame(2) [OF assms(1)] m by simp
  have "16 \<le> unat (r_esp s)" "unat (r_esp s) + 12 \<le> 4294967296" using assms(1) by (simp_all add: callable_def)
  then have "unat (r_esp s - 16) + 20 \<le> 4294967296" by (simp add: esp_below)
  then show ?thesis
    using context_switch_loads [OF assms(2) f] assms(4,5,6) pushed_frame(1) [OF assms(1)] m f by simp
qed

text \<open>Two tasks, on stacks at \<open>0x1000\<close> and \<open>0x2000\<close>.\<close>

definition task_a :: asm where
  "task_a = \<lparr>r_eax = 0, r_ebp = 1, r_ebx = 2, r_esi = 3, r_edi = 4, r_esp = 0x1000, r_eip = 0,
     a_mem = wr32 (wr32 (wr32 (\<lambda>_. 0) 0x1000 0x7777) 0x1004 0x5000) 0x1008 0x3000\<rparr>"

definition task_b :: asm where
  "task_b = (context_switch task_a)\<lparr>r_esp := 0x2000, a_mem := wr32 (wr32 (a_mem (context_switch task_a)) 0x2004 0x5100) 0x2008 0xFF0\<rparr>"

theorem context_switch_resumes_witness:
  "r_eip (context_switch task_b) = 0x7777 \<and> r_esp (context_switch task_b) = 0x1004 \<and> r_ebp (context_switch task_b) = 1 \<and>
   r_ebx (context_switch task_b) = 2 \<and> r_esi (context_switch task_b) = 3 \<and> r_edi (context_switch task_b) = 4"
proof -
  let ?m = "a_mem (context_switch task_a)"
  have a: "r_esp task_a = 0x1000" "rd32 (a_mem task_a) 0x1000 = 0x7777" "rd32 (a_mem task_a) 0x1004 = 0x5000"
    by (simp_all add: task_a_def rd32_wr32_apart)
  have b: "r_esp task_b = 0x2000" "rd32 (a_mem task_b) 0x2004 = 0x5100" "rd32 (a_mem task_b) 0x2008 = 0xFF0"
    by (simp_all add: task_b_def rd32_wr32_apart)
  have c: "callable task_a" "callable task_b" using a b by (simp_all add: callable_def apart_def)
  have st: "rd32 ?m 0x5000 = 0xFF0" using pushed_frame(2) [OF c(1)] a by (simp add: context_switch_eq [OF c(1)])
  have fr: "saved_frame (a_mem task_b) 0xFF0 = saved_frame ?m 0xFF0"
    by (simp add: task_b_def saved_frame_def rd32_wr32_apart)
  have regs: "r_ebp task_a = 1" "r_ebx task_a = 2" "r_esi task_a = 3" "r_edi task_a = 4" by (simp_all add: task_a_def)
  show ?thesis using context_switch_resumes [OF c] a b st fr regs by (simp add: apart_def)
qed

end
