(* ===== verification/Boot_Sector.thy ===== *)
theory Boot_Sector
  imports Memory Cstring "HOL-Library.Monad_Syntax"
begin

text \<open>
  \<open>arch/x86-64/main.asm\<close>: the boot sector. It asks the BIOS for disk extensions, loads the second stage
  and jumps to it. The variables of the program are fields of a record, next to the 16-bit
  registers and memory; saved registers are bound by name, since the stack is private to the
  code. The BIOS disk service is the parameter \<open>int13\<close>: it sees the carry flag, the registers,
  the packet that \<open>si\<close> points to and memory, and may change all but the packet.
\<close>

section \<open>Registers and memory\<close>

record regs =
  g_eax :: u32
  g_bx :: u16
  g_cx :: u16
  g_dx :: u16
  g_si :: u16
  g_di :: u16
  g_ds :: u16
  g_es :: u16

definition lo8 :: "u16 \<Rightarrow> u8" where "lo8 w = ucast w"

definition hi8 :: "u16 \<Rightarrow> u8" where "hi8 w = ucast (drop_bit 8 w)"

definition mk16 :: "u8 \<Rightarrow> u8 \<Rightarrow> u16" where "mk16 h l = ucast l OR push_bit 8 (ucast h)"

definition get_ax :: "regs \<Rightarrow> u16" where "get_ax r = ucast (g_eax r)"

definition set_ax :: "u16 \<Rightarrow> regs \<Rightarrow> regs" where
  "set_ax v r = r\<lparr>g_eax := (g_eax r AND 0xFFFF0000) OR ucast v\<rparr>"

definition set_ah :: "u8 \<Rightarrow> regs \<Rightarrow> regs" where
  "set_ah v r = set_ax (mk16 v (lo8 (get_ax r))) r"

definition set_dl :: "u8 \<Rightarrow> regs \<Rightarrow> regs" where
  "set_dl v r = r\<lparr>g_dx := mk16 (hi8 (g_dx r)) v\<rparr>"

text \<open>The linear address of \<open>segment:offset\<close>.\<close>

definition lin :: "u16 \<Rightarrow> u16 \<Rightarrow> u32" where "lin seg off = ucast seg * 16 + ucast off"

record dap =
  dap_size :: u8
  dap_count :: u16
  dap_offset :: u16
  dap_segment :: u16
  dap_lba :: u64

record 'b boot =
  regs :: regs
  b_mem :: mem
  b_bios :: 'b
  have_extensions :: u8
  extensions_dap :: dap
  ebr_drive_number :: u8
  screen :: "u8 list"

type_synonym 'b int13 = "bool \<Rightarrow> regs \<Rightarrow> dap \<Rightarrow> mem \<Rightarrow> 'b \<Rightarrow> bool \<times> regs \<times> mem \<times> 'b"

definition int13_call :: "'b int13 \<Rightarrow> 'b boot \<Rightarrow> bool \<times> 'b boot" where
  "int13_call int13 s =
     (let (cf, r, m, b) = int13 True (regs s) (extensions_dap s) (b_mem s) (b_bios s)
      in (cf, s\<lparr>regs := r, b_mem := m, b_bios := b\<rparr>))"

section \<open>Messages and error handlers\<close>

definition ENDL :: cstring where "ENDL = [0x0D, 0x0A]"

definition msg_read_failed :: cstring where "msg_read_failed = lit ''Read failed!'' @ ENDL @ [0]"

definition msg_stage2_not_found :: cstring where "msg_stage2_not_found = lit ''STAGE2.BIN not found!'' @ ENDL @ [0]"

fun puts :: "cstring \<Rightarrow> 'b boot \<Rightarrow> 'b boot" where
  "puts [] s = s"
| "puts (c # cs) s = (if c = 0 then s else puts cs (s\<lparr>screen := screen s @ [c]\<rparr>))"

text \<open>The handlers wait for a key and jump to the BIOS; the value is the state in which they do.\<close>

datatype 'b reboot = Reboot "'b boot"

definition floppy_error :: "'b boot \<Rightarrow> 'b reboot" where
  "floppy_error s = Reboot (puts msg_read_failed s)"

definition kernel_not_found_error :: "'b boot \<Rightarrow> 'b reboot" where
  "kernel_not_found_error s = Reboot (puts msg_stage2_not_found s)"

section \<open>Disk routines\<close>

definition bdb_sectors_per_track :: u16 where "bdb_sectors_per_track = 18"

definition bdb_heads :: u16 where "bdb_heads = 2"

definition lba_to_chs :: "regs \<Rightarrow> regs" where
  "lba_to_chs r =
     (let ax = get_ax r;
          dx = ax mod bdb_sectors_per_track;
          ax = ax div bdb_sectors_per_track;
          dx = dx + 1;
          cx = dx;
          dx = ax mod bdb_heads;
          ax = ax div bdb_heads;
          dh = lo8 dx;
          ch = lo8 ax;
          ah = push_bit 6 (hi8 ax);
          cl = lo8 cx OR ah
      in r\<lparr>g_cx := mk16 ch cl, g_dx := mk16 dh (lo8 (g_dx r))\<rparr>)"

definition disk_reset :: "'b int13 \<Rightarrow> 'b boot \<Rightarrow> 'b reboot + 'b boot" where
  "disk_reset int13 s =
     (let saved = regs s;
          (cf, s) = int13_call int13 (s\<lparr>regs := set_ah 0 saved\<rparr>)
      in if cf then Inl (floppy_error s) else Inr (s\<lparr>regs := saved\<rparr>))"

text \<open>The loop at \<open>.retry\<close>; the argument is the value of \<open>di\<close>.\<close>

primrec read_retry :: "nat \<Rightarrow> 'b int13 \<Rightarrow> 'b boot \<Rightarrow> 'b reboot + 'b boot" where
  "read_retry 0 int13 s = Inl (floppy_error s)"
| "read_retry (Suc n) int13 s =
     (let saved = regs s;
          (cf, s) = int13_call int13 s
      in if \<not> cf then Inr (s\<lparr>regs := saved\<rparr>)
         else case disk_reset int13 (s\<lparr>regs := saved\<rparr>) of
           Inl e \<Rightarrow> Inl e
         | Inr s \<Rightarrow> read_retry n int13 (s\<lparr>regs := (regs s)\<lparr>g_di := g_di (regs s) - 1\<rparr>\<rparr>))"

definition disk_request :: "u16 \<Rightarrow> 'b boot \<Rightarrow> 'b boot" where
  "disk_request dap_label s =
     (let r = regs s in
      if have_extensions s = 1 then
        let d = extensions_dap s;
            d = d\<lparr>dap_lba := (dap_lba d AND 0xFFFFFFFF00000000) OR ucast (g_eax r)\<rparr>;
            d = d\<lparr>dap_segment := g_es r\<rparr>;
            d = d\<lparr>dap_offset := g_bx r\<rparr>;
            d = d\<lparr>dap_count := mk16 (hi8 (dap_count d)) (lo8 (g_cx r))\<rparr>
        in s\<lparr>extensions_dap := d, regs := (set_ah 0x42 r)\<lparr>g_si := dap_label, g_di := 3\<rparr>\<rparr>
      else
        let cx = g_cx r;
            r = lba_to_chs r;
            r = set_ax cx r;
            r = set_ah 2 r
        in s\<lparr>regs := r\<lparr>g_di := 3\<rparr>\<rparr>)"

definition disk_read :: "'b int13 \<Rightarrow> u16 \<Rightarrow> 'b boot \<Rightarrow> 'b reboot + 'b boot" where
  "disk_read int13 dap_label s =
     (let saved = regs s in
      case read_retry 3 int13 (disk_request dap_label s) of
        Inl e \<Rightarrow> Inl e
      | Inr s \<Rightarrow> Inr (s\<lparr>regs := (regs s)\<lparr>g_eax := g_eax saved, g_bx := g_bx saved, g_cx := g_cx saved, g_dx := g_dx saved,
          g_si := g_si saved, g_di := g_di saved\<rparr>\<rparr>))"

section \<open>The entry\<close>

definition STAGE2_LOAD_SEGMENT :: u16 where "STAGE2_LOAD_SEGMENT = 0"

definition STAGE2_LOAD_OFFSET :: u16 where "STAGE2_LOAD_OFFSET = 0x500"

definition PARTITION_ENTRY_SEGMENT :: u16 where "PARTITION_ENTRY_SEGMENT = 0x2000"

definition PARTITION_ENTRY_OFFSET :: u16 where "PARTITION_ENTRY_OFFSET = 0"

primrec rep_movsb :: "nat \<Rightarrow> 'b boot \<Rightarrow> 'b boot" where
  "rep_movsb 0 s = s"
| "rep_movsb (Suc n) s =
     (let r = regs s; m = b_mem s
      in rep_movsb n (s\<lparr>b_mem := m(lin (g_es r) (g_di r) := m (lin (g_ds r) (g_si r))),
           regs := r\<lparr>g_si := g_si r + 1, g_di := g_di r + 1, g_cx := g_cx r - 1\<rparr>\<rparr>))"

definition start :: "'b boot \<Rightarrow> 'b boot" where
  "start s =
     (let r = set_ax PARTITION_ENTRY_SEGMENT (regs s);
          s = rep_movsb 16 (s\<lparr>regs := r\<lparr>g_es := PARTITION_ENTRY_SEGMENT, g_di := PARTITION_ENTRY_OFFSET, g_cx := 16\<rparr>\<rparr>);
          r = set_ax 0 (regs s)
      in s\<lparr>regs := r\<lparr>g_ds := 0, g_es := 0\<rparr>\<rparr>)"

definition check_extensions :: "'b int13 \<Rightarrow> 'b boot \<Rightarrow> 'b boot" where
  "check_extensions int13 s =
     (let s = s\<lparr>ebr_drive_number := lo8 (g_dx (regs s))\<rparr>;
          (cf, s) = int13_call int13 (s\<lparr>regs := (set_ah 0x41 (regs s))\<lparr>g_bx := 0x55AA\<rparr>\<rparr>)
      in if cf then s\<lparr>have_extensions := 0\<rparr>
         else if g_bx (regs s) \<noteq> 0xAA55 then s\<lparr>have_extensions := 0\<rparr>
         else s\<lparr>have_extensions := 1\<rparr>)"

text \<open>The loop over the table of pieces of the second stage; \<open>None\<close> if it never meets a zero address.\<close>

partial_function (option) load_loop :: "'b int13 \<Rightarrow> u16 \<Rightarrow> 'b boot \<Rightarrow> ('b reboot + 'b boot) option" where
  "load_loop int13 dap_label s =
     (let r = regs s;
          r = r\<lparr>g_eax := rd32 (b_mem s) (lin (g_ds r) (g_si r))\<rparr>;
          r = r\<lparr>g_si := g_si r + 4\<rparr>;
          r = r\<lparr>g_cx := mk16 (hi8 (g_cx r)) (b_mem s (lin (g_ds r) (g_si r)))\<rparr>;
          r = r\<lparr>g_si := g_si r + 1\<rparr>
      in if g_eax r = 0 then Some (Inr (s\<lparr>regs := r\<rparr>))
         else case disk_read int13 dap_label (s\<lparr>regs := r\<rparr>) of
           Inl e \<Rightarrow> Some (Inl e)
         | Inr s \<Rightarrow>
             let r = regs s;
                 cx = push_bit 5 (mk16 0 (lo8 (g_cx r)));
                 di = g_es r + cx
             in load_loop int13 dap_label (s\<lparr>regs := r\<lparr>g_cx := cx, g_di := di, g_es := di\<rparr>\<rparr>))"

definition boot_sector :: "'b int13 \<Rightarrow> u16 \<Rightarrow> u16 \<Rightarrow> 'b boot \<Rightarrow> ('b reboot + 'b boot) option" where
  "boot_sector int13 dap_label stage2_location s =
     (let s = check_extensions int13 (start s);
          r = (set_ax STAGE2_LOAD_SEGMENT (regs s))\<lparr>g_si := stage2_location, g_es := STAGE2_LOAD_SEGMENT, g_bx := STAGE2_LOAD_OFFSET\<rparr>
      in do {
        res \<leftarrow> load_loop int13 dap_label (s\<lparr>regs := r\<rparr>);
        Some (case res of
          Inl e \<Rightarrow> Inl e
        | Inr s \<Rightarrow>
            let r = set_dl (ebr_drive_number s) (regs s);
                r = r\<lparr>g_si := PARTITION_ENTRY_OFFSET, g_di := PARTITION_ENTRY_SEGMENT\<rparr>;
                r = (set_ax STAGE2_LOAD_SEGMENT r)\<lparr>g_ds := STAGE2_LOAD_SEGMENT, g_es := STAGE2_LOAD_SEGMENT\<rparr>
            in Inr (s\<lparr>regs := r\<rparr>))
      })"

section \<open>Bytes and halves of registers\<close>

lemma mk16_parts [simp]: "lo8 (mk16 h l) = l" "hi8 (mk16 h l) = h"
  by (rule bit_word_eqI; auto simp: lo8_def hi8_def mk16_def bit_simps dest: bit_imp_le_length)+

lemma set_ax_get [simp]: "get_ax (set_ax v r) = v"
proof -
  have "(0xFFFF0000 :: u32) = push_bit 16 (mask 16)" by (simp add: mask_eq_exp_minus_1)
  then have "\<not> bit (0xFFFF0000 :: u32) n" if "n < 16" for n using that by (simp only: bit_simps) auto
  then show ?thesis by (auto intro!: bit_word_eqI simp: get_ax_def set_ax_def bit_simps)
qed

lemma set_ah_hi [simp]: "hi8 (get_ax (set_ah v r)) = v" "lo8 (get_ax (set_ah v r)) = lo8 (get_ax r)"
  by (simp_all add: set_ah_def)

lemma set_ax_keeps [simp]:
  "g_bx (set_ax v r) = g_bx r" "g_cx (set_ax v r) = g_cx r" "g_dx (set_ax v r) = g_dx r" "g_si (set_ax v r) = g_si r"
  "g_di (set_ax v r) = g_di r" "g_ds (set_ax v r) = g_ds r" "g_es (set_ax v r) = g_es r"
  by (simp_all add: set_ax_def)

lemma set_ah_keeps [simp]:
  "g_bx (set_ah h r) = g_bx r" "g_cx (set_ah h r) = g_cx r" "g_dx (set_ah h r) = g_dx r" "g_si (set_ah h r) = g_si r"
  "g_di (set_ah h r) = g_di r" "g_ds (set_ah h r) = g_ds r" "g_es (set_ah h r) = g_es r"
  by (simp_all add: set_ah_def)

section \<open>Addresses on the disk\<close>

text \<open>How the BIOS reads the registers of a request by cylinder, head and sector.\<close>

definition chs_cylinder :: "regs \<Rightarrow> nat" where
  "chs_cylinder r = unat (hi8 (g_cx r)) + 256 * unat (drop_bit 6 (lo8 (g_cx r)))"

definition chs_sector :: "regs \<Rightarrow> nat" where
  "chs_sector r = unat (lo8 (g_cx r) AND 63)"

definition chs_head :: "regs \<Rightarrow> nat" where
  "chs_head r = unat (hi8 (g_dx r))"

definition chs_lba :: "regs \<Rightarrow> nat" where
  "chs_lba r = (chs_cylinder r * 2 + chs_head r) * 18 + (chs_sector r - 1)"

lemma cl_fields:
  fixes s h :: u8
  assumes "unat s < 64"
  shows "(s OR push_bit 6 h) AND 63 = s" and "drop_bit 6 (s OR push_bit 6 h) = take_bit 2 h"
proof -
  have m: "(63 :: u8) = mask 6" by (simp add: mask_eq_exp_minus_1)
  have s: "take_bit 6 s = s" using assms by (simp add: word_unat_eq_iff unsigned_take_bit_eq take_bit_nat_eq_self_iff)
  have b: "\<not> bit s n" if "6 \<le> n" for n using that by (subst s [symmetric]) (simp add: bit_simps)
  show "(s OR push_bit 6 h) AND 63 = s"
    unfolding m by (subst (2) s [symmetric], rule bit_word_eqI) (auto simp: bit_simps)
  show "drop_bit 6 (s OR push_bit 6 h) = take_bit 2 h"
    using b by (auto intro!: bit_word_eqI simp: bit_simps)
qed

lemma unat_halves: "unat (lo8 w) = unat w mod 256" "unat (hi8 w) = unat w div 256"
proof -
  have "unat w div 256 < 256" using unat_u16_less [of w] by linarith
  then show "unat (lo8 w) = unat w mod 256" "unat (hi8 w) = unat w div 256"
    by (simp_all add: lo8_def hi8_def unsigned_ucast_eq take_bit_eq_mod unsigned_drop_bit_eq drop_bit_eq_div unat_div)
qed

lemma lba_to_chs_fields:
  fixes r :: regs
  defines "n \<equiv> unat (get_ax r)" and "r' \<equiv> lba_to_chs r"
  shows "chs_sector r' = n mod 18 + 1" "chs_head r' = n div 18 mod 2" "chs_cylinder r' = n div 36 mod 1024"
proof -
  let ?ax = "get_ax r"
  have n: "n < 65536" by (simp add: n_def)
  have sec: "unat (lo8 (?ax mod 18 + 1)) = n mod 18 + 1"
    by (simp add: unat_halves n_def unat_word_ariths unat_mod)
  have head: "unat (?ax div 18 mod 2) = n div 18 mod 2" by (simp add: n_def unat_div unat_mod)
  have cyl: "unat (?ax div 18 div 2) = n div 36" by (simp add: n_def unat_div div_mult2_eq [symmetric])
  have lt: "unat (lo8 (?ax mod 18 + 1)) < 64" unfolding sec by (simp add: less_trans [OF mod_less_divisor])
  note f = cl_fields [OF lt, of "hi8 (?ax div 18 div 2)"]
  show "chs_sector r' = n mod 18 + 1"
    by (simp add: chs_sector_def r'_def lba_to_chs_def Let_def bdb_sectors_per_track_def bdb_heads_def f sec)
  show "chs_head r' = n div 18 mod 2"
    by (simp add: chs_head_def r'_def lba_to_chs_def Let_def bdb_sectors_per_track_def bdb_heads_def unat_halves head)
  have "chs_cylinder r' = n div 36 mod 256 + 256 * (n div 36 div 256 mod 4)"
    by (simp add: chs_cylinder_def r'_def lba_to_chs_def Let_def bdb_sectors_per_track_def bdb_heads_def f
        unsigned_take_bit_eq take_bit_eq_mod unat_halves cyl unat_mod del: drop_bit_or)
  also have "\<dots> = n div 36 mod 1024" using mod_mult2_eq [of "n div 36" 256 4] by simp
  finally show "chs_cylinder r' = n div 36 mod 1024" .
qed

lemma chs_of_lba:
  assumes "chs_sector r = n mod 18 + 1" "chs_head r = n div 18 mod 2" "chs_cylinder r = n div 36 mod 1024"
  shows "chs_lba r = n mod 36864"
proof -
  have "n mod 36864 = 18 * (n div 18 mod 2048) + n mod 18" using mod_mult2_eq [of n 18 2048] by simp
  moreover have "n div 18 mod 2048 = 2 * (n div 18 div 2 mod 1024) + n div 18 mod 2" using mod_mult2_eq [of "n div 18" 2 1024] by simp
  moreover have "n div 18 div 2 = n div 36" by (simp add: div_mult2_eq [symmetric])
  ultimately show ?thesis using assms by (simp add: chs_lba_def)
qed

text \<open>C37. \<open>lba_to_chs\<close> stays within the geometry of the disk for every input: sectors count from 1 to 18, heads
  are 0 and 1, cylinders below 1024. What it computes is the address it was given, up to the
  36864 sectors that this geometry has; beyond them it wraps around. It keeps the drive number and
  the address.\<close>

theorem lba_to_chs_bounds:
  "1 \<le> chs_sector (lba_to_chs r) \<and> chs_sector (lba_to_chs r) \<le> 18 \<and> chs_head (lba_to_chs r) \<le> 1 \<and>
   chs_cylinder (lba_to_chs r) < 1024 \<and> chs_lba (lba_to_chs r) = unat (get_ax r) mod 36864 \<and>
   g_eax (lba_to_chs r) = g_eax r \<and> lo8 (g_dx (lba_to_chs r)) = lo8 (g_dx r)"
proof -
  note f = lba_to_chs_fields [of r]
  have "chs_lba (lba_to_chs r) = unat (get_ax r) mod 36864" using chs_of_lba [OF f] .
  moreover have "unat (get_ax r) mod 18 < 18" "unat (get_ax r) div 18 mod 2 < 2" "unat (get_ax r) div 36 mod 1024 < 1024" by simp_all
  moreover have "g_eax (lba_to_chs r) = g_eax r" "lo8 (g_dx (lba_to_chs r)) = lo8 (g_dx r)" by (simp_all add: lba_to_chs_def Let_def)
  ultimately show ?thesis unfolding f by linarith
qed

section \<open>Any BIOS: what a failing disk does\<close>

text \<open>The boot sector makes at most six calls for one read: three attempts and three resets. The calls of a
  BIOS that counts them are its state.\<close>

definition counting :: "'b int13 \<Rightarrow> ('b \<times> nat) int13" where
  "counting int13 cf r d m b = (let (cf, r, m, b') = int13 cf r d m (fst b) in (cf, r, m, b', Suc (snd b)))"

lemma screen_puts [simp]: "screen (puts cs s) = screen s @ takeWhile (\<lambda>c. c \<noteq> 0) cs"
  by (induction cs s rule: puts.induct) simp_all

lemma bios_puts [simp]: "b_bios (puts cs s) = b_bios s"
  by (induction cs s rule: puts.induct) simp_all

lemma int13_counts:
  assumes "int13_call (counting int13) s = (cf, s')"
  shows "screen s' = screen s \<and> snd (b_bios s') = Suc (snd (b_bios s))"
  using assms by (auto simp: int13_call_def counting_def Let_def split: prod.splits)

text \<open>How a routine may end: rebooting with the message on the screen, or with the registers it was called with,
  after at most \<open>k\<close> calls.\<close>

definition ends :: "nat \<Rightarrow> (regs \<Rightarrow> bool) \<Rightarrow> ('b \<times> nat) boot \<Rightarrow> ('b \<times> nat) reboot + ('b \<times> nat) boot \<Rightarrow> bool" where
  "ends k R s res \<longleftrightarrow> (case res of
     Inl (Reboot s') \<Rightarrow> screen s' = screen s @ lit ''Read failed!'' @ ENDL \<and> snd (b_bios s') \<le> snd (b_bios s) + k
   | Inr s' \<Rightarrow> screen s' = screen s \<and> R (regs s') \<and> snd (b_bios s') \<le> snd (b_bios s) + k)"

lemma read_failed_text: "takeWhile (\<lambda>c. c \<noteq> 0) msg_read_failed = lit ''Read failed!'' @ ENDL"
  by (simp add: msg_read_failed_def ENDL_def lit_def)

lemma disk_reset_ends: "ends 1 (\<lambda>r. r = regs s) s (disk_reset (counting int13) s)"
proof -
  obtain cf s1 where c: "int13_call (counting int13) (s\<lparr>regs := set_ah 0 (regs s)\<rparr>) = (cf, s1)" by fastforce
  show ?thesis using int13_counts [OF c] c by (simp add: disk_reset_def ends_def floppy_error_def read_failed_text)
qed

lemma read_retry_ends: "ends (2 * n) (\<lambda>r. \<exists>di. r = (regs s)\<lparr>g_di := di\<rparr>) s (read_retry n (counting int13) s)"
proof (induction n arbitrary: s)
  case 0
  show ?case by (simp add: ends_def floppy_error_def read_failed_text)
next
  case (Suc n)
  obtain cf s1 where c: "int13_call (counting int13) s = (cf, s1)" by fastforce
  note k = int13_counts [OF c]
  show ?case
  proof (cases cf)
    case False
    then show ?thesis using c k by (simp add: ends_def) (metis regs.unfold_congs(6) regs.surjective regs.update_convs(6))
  next
    case True
    let ?s = "s1\<lparr>regs := regs s\<rparr>"
    note d = disk_reset_ends [of ?s int13]
    show ?thesis
    proof (cases "disk_reset (counting int13) ?s")
      case (Inl e)
      then show ?thesis using c k True d by (cases e) (simp add: ends_def)
    next
      case (Inr s2)
      note ih = Suc.IH [of "s2\<lparr>regs := (regs s2)\<lparr>g_di := g_di (regs s2) - 1\<rparr>\<rparr>"]
      have r: "read_retry (Suc n) (counting int13) s =
          read_retry n (counting int13) (s2\<lparr>regs := (regs s2)\<lparr>g_di := g_di (regs s2) - 1\<rparr>\<rparr>)"
        using c True Inr by simp
      show ?thesis unfolding r using ih d k Inr by (auto simp: ends_def split: sum.splits reboot.splits)
    qed
  qed
qed


section \<open>A working disk\<close>

definition sectors :: "(nat \<Rightarrow> u8 list) \<Rightarrow> nat \<Rightarrow> nat \<Rightarrow> u8 list" where
  "sectors disk a n = concat (map disk [a..<a + n])"

lemma length_sectors: "(\<And>i. length (disk i) = 512) \<Longrightarrow> length (sectors disk a n) = 512 * n"
  by (simp add: sectors_def length_concat comp_def sum_list_triv)

text \<open>What the BIOS documents of the three services when the disk works: the test for extensions keeps memory, the
  drive number and the data segment; the two reads succeed and store the sectors of the request.\<close>

definition serves :: "(nat \<Rightarrow> u8 list) \<Rightarrow> 'b int13 \<Rightarrow> bool" where
  "serves disk int13 \<longleftrightarrow> (\<forall>cf r d m b. case int13 cf r d m b of (cf', r', m', b') \<Rightarrow>
     (hi8 (get_ax r) = 0x41 \<longrightarrow> m' = m \<and> lo8 (g_dx r') = lo8 (g_dx r) \<and> g_ds r' = g_ds r) \<and>
     (hi8 (get_ax r) = 0x42 \<longrightarrow> \<not> cf' \<and>
        m' = store_bytes (lin (dap_segment d) (dap_offset d)) (sectors disk (unat (dap_lba d)) (unat (dap_count d))) m) \<and>
     (hi8 (get_ax r) = 0x02 \<longrightarrow> \<not> cf' \<and>
        m' = store_bytes (lin (g_es r) (g_bx r)) (sectors disk (chs_lba r) (unat (lo8 (get_ax r)))) m))"

text \<open>The parts of the packet that the code never writes are zero.\<close>

definition dap_ok :: "dap \<Rightarrow> bool" where
  "dap_ok d \<longleftrightarrow> hi8 (dap_count d) = 0 \<and> dap_lba d AND 0xFFFFFFFF00000000 = 0"

lemma mk16_0: "mk16 0 l = ucast l" by (simp add: mk16_def)

lemma high_zero: "(ucast (x :: u32) :: u64) AND 0xFFFFFFFF00000000 = 0"
proof -
  have "(0xFFFFFFFF00000000 :: u64) = push_bit 32 (mask 32)" by (simp add: mask_eq_exp_minus_1)
  then have "\<not> bit (0xFFFFFFFF00000000 :: u64) n" if "n < 32" for n using that by (simp only: bit_simps) auto
  moreover have "n < 32" if "bit x n" for n using bit_imp_le_length [OF that] by simp
  ultimately show ?thesis by (auto intro!: bit_word_eqI simp: bit_simps)
qed

lemma serves_reads:
  assumes "serves disk int13" "int13 cf r d m b = (cf', r', m', b')"
  shows "hi8 (get_ax r) = 0x41 \<Longrightarrow> m' = m \<and> lo8 (g_dx r') = lo8 (g_dx r) \<and> g_ds r' = g_ds r"
    and "hi8 (get_ax r) = 0x42 \<Longrightarrow> \<not> cf' \<and>
      m' = store_bytes (lin (dap_segment d) (dap_offset d)) (sectors disk (unat (dap_lba d)) (unat (dap_count d))) m"
    and "hi8 (get_ax r) = 0x02 \<Longrightarrow> \<not> cf' \<and>
      m' = store_bytes (lin (g_es r) (g_bx r)) (sectors disk (chs_lba r) (unat (lo8 (get_ax r)))) m"
  using assms(1) [unfolded serves_def, THEN spec, of cf, THEN spec, of r, THEN spec, of d, THEN spec, of m, THEN spec, of b] assms(2)
  by simp_all

lemma unat_widen: "unat (ucast (x :: u32) :: u64) = unat x" "unat (ucast (y :: u8) :: u16) = unat y"
  by (simp_all add: unsigned_ucast_eq take_bit_eq_mod less_trans [OF unat_u32_less] less_trans [OF unat_u8_less])

definition read_done :: "(nat \<Rightarrow> u8 list) \<Rightarrow> 'b boot \<Rightarrow> 'b boot \<Rightarrow> bool" where
  "read_done disk s s' \<longleftrightarrow> regs s' = regs s \<and> ebr_drive_number s' = ebr_drive_number s \<and> have_extensions s' = have_extensions s \<and>
     dap_ok (extensions_dap s') \<and>
     b_mem s' = store_bytes (lin (g_es (regs s)) (g_bx (regs s))) (sectors disk (unat (g_eax (regs s))) (unat (lo8 (g_cx (regs s))))) (b_mem s)"

lemma disk_read_loads:
  assumes w: "serves disk int13" and d: "dap_ok (extensions_dap s)"
    and a: "have_extensions s \<noteq> 1 \<Longrightarrow> unat (g_eax (regs s)) < 36864"
  shows "\<exists>s'. disk_read int13 l s = Inr s' \<and> read_done disk s s'"
proof (cases "have_extensions s = 1")
  case True
  let ?q = "disk_request l s"
  obtain cf r m b where c: "int13 True (regs ?q) (extensions_dap ?q) (b_mem ?q) (b_bios ?q) = (cf, r, m, b)" by (metis prod.exhaust)
  have q: "hi8 (get_ax (regs ?q)) = 0x42" "b_mem ?q = b_mem s" "dap_segment (extensions_dap ?q) = g_es (regs s)"
    "dap_offset (extensions_dap ?q) = g_bx (regs s)" "dap_count (extensions_dap ?q) = ucast (lo8 (g_cx (regs s)))"
    "dap_lba (extensions_dap ?q) = ucast (g_eax (regs s))"
    using True d by (simp_all add: disk_request_def Let_def dap_ok_def mk16_0 get_ax_def) (simp add: set_ah_hi [unfolded get_ax_def])
  have "dap_ok (extensions_dap ?q)" using True d by (simp add: disk_request_def Let_def dap_ok_def high_zero)
  moreover note serves_reads(2) [OF w c q(1), unfolded q unat_widen]
  ultimately show ?thesis
    using c True by (simp add: disk_read_def numeral_3_eq_3 int13_call_def read_done_def Let_def) (simp add: disk_request_def Let_def)
next
  case False
  let ?q = "disk_request l s"
  obtain cf r m b where c: "int13 True (regs ?q) (extensions_dap ?q) (b_mem ?q) (b_bios ?q) = (cf, r, m, b)" by (metis prod.exhaust)
  have q: "hi8 (get_ax (regs ?q)) = 0x02" "b_mem ?q = b_mem s" "g_es (regs ?q) = g_es (regs s)" "g_bx (regs ?q) = g_bx (regs s)"
    "lo8 (get_ax (regs ?q)) = lo8 (g_cx (regs s))" "extensions_dap ?q = extensions_dap s"
    "g_cx (regs ?q) = g_cx (lba_to_chs (regs s))" "g_dx (regs ?q) = g_dx (lba_to_chs (regs s))"
    using False by (simp_all add: disk_request_def Let_def get_ax_def) (simp_all add: set_ah_hi [unfolded get_ax_def] set_ax_get [unfolded get_ax_def] lba_to_chs_def Let_def)
  have "chs_lba (regs ?q) = chs_lba (lba_to_chs (regs s))"
    using q(7,8) by (simp add: chs_lba_def chs_cylinder_def chs_head_def chs_sector_def)
  also have "\<dots> = unat (g_eax (regs s))"
    using chs_of_lba [OF lba_to_chs_fields, of "regs s"] a [OF False]
    by (simp add: get_ax_def unsigned_ucast_eq take_bit_eq_mod)
  finally have lba: "chs_lba (regs ?q) = unat (g_eax (regs s))" .
  note serves_reads(3) [OF w c q(1), unfolded q lba]
  then show ?thesis
    using c False d by (simp add: disk_read_def numeral_3_eq_3 int13_call_def read_done_def Let_def) (simp add: disk_request_def Let_def lba_to_chs_def)
qed

lemma rep_movsb_regs:
  "regs (rep_movsb n s) = (regs s)\<lparr>g_si := g_si (regs s) + of_nat n, g_di := g_di (regs s) + of_nat n, g_cx := g_cx (regs s) - of_nat n\<rparr> \<and>
   ebr_drive_number (rep_movsb n s) = ebr_drive_number s \<and> extensions_dap (rep_movsb n s) = extensions_dap s \<and>
   screen (rep_movsb n s) = screen s"
  by (induction n arbitrary: s) (simp_all add: Let_def algebra_simps)

lemma rep_movsb_outside:
  assumes "\<And>i. i < n \<Longrightarrow> x \<noteq> lin (g_es (regs s)) (g_di (regs s) + of_nat i)"
  shows "b_mem (rep_movsb n s) x = b_mem s x"
  using assms
proof (induction n arbitrary: s)
  case (Suc n)
  let ?s = "s\<lparr>b_mem := (b_mem s)(lin (g_es (regs s)) (g_di (regs s)) := b_mem s (lin (g_ds (regs s)) (g_si (regs s)))),
    regs := (regs s)\<lparr>g_si := g_si (regs s) + 1, g_di := g_di (regs s) + 1, g_cx := g_cx (regs s) - 1\<rparr>\<rparr>"
  have "b_mem (rep_movsb n ?s) x = b_mem ?s x"
  proof (rule Suc.IH)
    fix i assume "i < n"
    then have "x \<noteq> lin (g_es (regs s)) (g_di (regs s) + of_nat (Suc i))" using Suc.prems [of "Suc i"] by blast
    then show "x \<noteq> lin (g_es (regs ?s)) (g_di (regs ?s) + of_nat i)" by (simp add: algebra_simps)
  qed
  moreover have "x \<noteq> lin (g_es (regs s)) (g_di (regs s))" using Suc.prems [of 0] by simp
  ultimately show ?case by (simp add: Let_def)
qed simp

lemma unat_lin: "unat (lin seg off) = unat seg * 16 + unat off"
proof -
  have "unat seg * 16 + unat off < 4294967296" using unat_u16_less [of seg] unat_u16_less [of off] by linarith
  then show ?thesis
    by (simp add: lin_def unat_word_ariths unsigned_ucast_eq take_bit_eq_mod less_trans [OF unat_u16_less])
qed

lemma start_state:
  "g_ds (regs (start s)) = 0" "g_es (regs (start s)) = 0" "lo8 (g_dx (regs (start s))) = lo8 (g_dx (regs s))"
  "extensions_dap (start s) = extensions_dap s" "unat x < 0x20000 \<Longrightarrow> b_mem (start s) x = b_mem s x"
proof -
  show "g_ds (regs (start s)) = 0" "g_es (regs (start s)) = 0" "lo8 (g_dx (regs (start s))) = lo8 (g_dx (regs s))"
    "extensions_dap (start s) = extensions_dap s"
    by (simp_all add: start_def Let_def rep_movsb_regs)
  assume x: "unat x < 0x20000"
  have "x \<noteq> lin PARTITION_ENTRY_SEGMENT y" for y using x unat_lin [of PARTITION_ENTRY_SEGMENT y] by (auto simp: PARTITION_ENTRY_SEGMENT_def)
  then show "b_mem (start s) x = b_mem s x" by (simp add: start_def Let_def rep_movsb_outside)
qed

lemma check_extensions_state:
  fixes s :: "'b boot"
  assumes "serves disk int13"
  defines "t \<equiv> check_extensions int13 s"
  shows "b_mem t = b_mem s \<and> g_ds (regs t) = g_ds (regs s) \<and> extensions_dap t = extensions_dap s \<and>
    ebr_drive_number t = lo8 (g_dx (regs s)) \<and> lo8 (g_dx (regs t)) = lo8 (g_dx (regs s))"
proof -
  let ?r = "(set_ah 0x41 (regs s))\<lparr>g_bx := 0x55AA\<rparr>"
  obtain cf r m b where c: "int13 True ?r (extensions_dap s) (b_mem s) (b_bios s) = (cf, r, m, b)" by (metis prod.exhaust)
  have h: "hi8 (get_ax ?r) = 0x41" using set_ah_hi(1) [of "0x41" "regs s"] by (simp add: get_ax_def)
  show ?thesis using serves_reads(1) [OF assms(1) c h] c by (simp add: t_def check_extensions_def int13_call_def Let_def)
qed

text \<open>The table as the file has it: fifteen sectors from sector 1, then the end.\<close>

definition table_at :: "u16 \<Rightarrow> mem \<Rightarrow> bool" where
  "table_at loc m \<longleftrightarrow> rd32 m (lin 0 loc) = 1 \<and> m (lin 0 (loc + 4)) = 15 \<and> rd32 m (lin 0 (loc + 5)) = 0"

lemma lin_0_add: "unat (loc :: u16) + 16 < 65536 \<Longrightarrow> k < 16 \<Longrightarrow> unat (loc + of_nat k) = unat loc + k"
  by (simp add: unat_word_ariths unat_of_nat take_bit_eq_mod)

definition entry_regs :: "'b boot \<Rightarrow> regs" where
  "entry_regs s = (regs s)\<lparr>g_eax := rd32 (b_mem s) (lin (g_ds (regs s)) (g_si (regs s))),
     g_cx := mk16 (hi8 (g_cx (regs s))) (b_mem s (lin (g_ds (regs s)) (g_si (regs s) + 4))), g_si := g_si (regs s) + 5\<rparr>"

lemma load_loop_end: "g_eax (entry_regs s) = 0 \<Longrightarrow> load_loop int13 l s = Some (Inr (s\<lparr>regs := entry_regs s\<rparr>))"
  by (subst load_loop.simps) (simp add: Let_def entry_regs_def add.assoc)

lemma load_loop_step:
  assumes "g_eax (entry_regs s) \<noteq> 0" "disk_read int13 l (s\<lparr>regs := entry_regs s\<rparr>) = Inr s1"
    "cx = push_bit 5 (mk16 0 (lo8 (g_cx (regs s1))))"
  shows "load_loop int13 l s = load_loop int13 l (s1\<lparr>regs := (regs s1)\<lparr>g_cx := cx, g_di := g_es (regs s1) + cx, g_es := g_es (regs s1) + cx\<rparr>\<rparr>)"
  using assms by (subst load_loop.simps) (simp add: Let_def entry_regs_def add.assoc)

lemma load_loop_table:
  assumes w: "serves disk int13" and len: "\<And>i. length (disk i) = 512" and d: "dap_ok (extensions_dap s)"
    and r: "g_ds (regs s) = 0" "g_es (regs s) = 0" "g_bx (regs s) = 0x500" "g_si (regs s) = loc"
    and t: "table_at loc (b_mem s)" "0x2300 \<le> unat loc" "unat loc + 16 < 65536"
  shows "\<exists>s'. load_loop int13 l s = Some (Inr s') \<and> b_mem s' = store_bytes 0x500 (sectors disk 1 15) (b_mem s) \<and>
    ebr_drive_number s' = ebr_drive_number s"
proof -
  let ?s = "s\<lparr>regs := entry_regs s\<rparr>"
  have lin5: "lin 0 0x500 = 0x500" by (simp add: lin_def)
  have e1: "g_eax (entry_regs s) = 1" "lo8 (g_cx (entry_regs s)) = 15" "g_es (entry_regs s) = 0" "g_bx (entry_regs s) = 0x500"
    "g_ds (entry_regs s) = 0" "g_si (entry_regs s) = loc + 5"
    using t(1) r by (simp_all add: entry_regs_def table_at_def)
  obtain s1 where s1: "disk_read int13 l ?s = Inr s1" and dn: "read_done disk ?s s1"
    using disk_read_loads [OF w, of ?s l] d e1(1) by auto
  have m1: "b_mem s1 = store_bytes 0x500 (sectors disk 1 15) (b_mem s)" "regs s1 = entry_regs s" "ebr_drive_number s1 = ebr_drive_number s"
    using dn by (simp_all add: read_done_def e1 lin5)
  define s2 where "s2 = s1\<lparr>regs := (regs s1)\<lparr>g_cx := 0x1E0, g_di := g_es (regs s1) + 0x1E0, g_es := g_es (regs s1) + 0x1E0\<rparr>\<rparr>"
  have u: "unat (lin 0 (loc + 5)) = unat loc + 5" using lin_0_add [OF t(3), of 5] by (simp add: unat_lin)
  have "rd32 (b_mem s1) (lin 0 (loc + 5)) = rd32 (b_mem s) (lin 0 (loc + 5))"
  proof (rule rd32_cong)
    fix x assume "in_region (lin 0 (loc + 5)) 4 x"
    then have "unat loc + 5 \<le> unat x" using in_region_flat [of "lin 0 (loc + 5)" 4 x] u t(3) by simp
    then have "\<not> in_region 0x500 7680 x" using t(2) in_region_flat [of "0x500" 7680 x] by simp
    then show "b_mem s1 x = b_mem s x" by (simp add: m1 store_bytes_def length_sectors [OF len])
  qed
  then have "g_eax (entry_regs s2) = 0" using t(1) r by (simp add: s2_def entry_regs_def table_at_def m1(2))
  then have "load_loop int13 l s2 = Some (Inr (s2\<lparr>regs := entry_regs s2\<rparr>))" by (rule load_loop_end)
  moreover have "load_loop int13 l s = load_loop int13 l s2"
    unfolding s2_def by (rule load_loop_step [OF _ s1]) (simp_all add: e1 m1(2) mk16_0)
  ultimately show ?thesis using m1 by (simp add: s2_def)
qed

lemma boot_sector_loads:
  assumes w: "serves disk int13" and len: "\<And>i. length (disk i) = 512" and d: "dap_ok (extensions_dap s)"
    and t: "table_at loc (b_mem s)" "0x2300 \<le> unat loc" "unat loc + 16 < 65536"
  shows "\<exists>s'. boot_sector int13 l loc s = Some (Inr s') \<and> load_bytes 0x500 7680 (b_mem s') = sectors disk 1 15 \<and>
    lo8 (g_dx (regs s')) = lo8 (g_dx (regs s)) \<and> g_ds (regs s') = 0 \<and> g_es (regs s') = 0"
proof -
  define s1 where "s1 = check_extensions int13 (start s)"
  note c = check_extensions_state [OF w, of "start s", folded s1_def]
  define s2 where "s2 = s1\<lparr>regs := (set_ax STAGE2_LOAD_SEGMENT (regs s1))\<lparr>g_si := loc, g_es := STAGE2_LOAD_SEGMENT, g_bx := STAGE2_LOAD_OFFSET\<rparr>\<rparr>"
  have low: "b_mem s2 x = b_mem s x" if "unat x < 0x20000" for x using c start_state(5) [OF that] by (simp add: s2_def)
  have k: "unat (lin 0 loc) = unat loc" "unat (lin 0 (loc + 4)) = unat loc + 4" "unat (lin 0 (loc + 5)) = unat loc + 5"
    using lin_0_add [OF t(3), of 4] lin_0_add [OF t(3), of 5] by (simp_all add: unat_lin)
  have "table_at loc (b_mem s2)"
  proof -
    have "rd32 (b_mem s2) a = rd32 (b_mem s) a" if "unat a < 0x10000" for a
      using that by (intro rd32_cong low) (simp add: in_region_flat)
    then show ?thesis using t k low [of "lin 0 (loc + 4)"] by (simp add: table_at_def)
  qed
  then obtain s3 where s3: "load_loop int13 l s2 = Some (Inr s3)" "b_mem s3 = store_bytes 0x500 (sectors disk 1 15) (b_mem s2)"
    "ebr_drive_number s3 = ebr_drive_number s2"
    using load_loop_table [OF w len, of s2 loc l] d t c start_state(1,4) [of s]
    by (auto simp: s2_def STAGE2_LOAD_SEGMENT_def STAGE2_LOAD_OFFSET_def)
  have "load_bytes 0x500 7680 (b_mem s3) = sectors disk 1 15"
    using load_store_bytes [of "sectors disk 1 15" "0x500" "b_mem s2"] by (simp add: s3 length_sectors [OF len])
  moreover have "ebr_drive_number s3 = lo8 (g_dx (regs s))" using s3(3) c start_state(3) [of s] by (simp add: s2_def)
  moreover have "boot_sector int13 l loc s = Some (Inr (s3\<lparr>regs := (set_ax STAGE2_LOAD_SEGMENT ((set_dl (ebr_drive_number s3) (regs s3))
      \<lparr>g_si := PARTITION_ENTRY_OFFSET, g_di := PARTITION_ENTRY_SEGMENT\<rparr>))\<lparr>g_ds := STAGE2_LOAD_SEGMENT, g_es := STAGE2_LOAD_SEGMENT\<rparr>\<rparr>))"
    by (simp add: boot_sector_def Let_def s1_def [symmetric] s2_def [symmetric] s3(1))
  ultimately show ?thesis by (simp add: set_dl_def STAGE2_LOAD_SEGMENT_def)
qed

end
