(* ===== verification/Stage2.thy ===== *)
theory Stage2
  imports Boot_Sector Port_Io
begin

text \<open>
  \<open>arch/x86-64/stage2/stage2.asm\<close>, \<open>disk.asm\<close> and \<open>gdt.asm\<close>: the second stage. It opens the A20 gate
  through the keyboard controller, reads the kernel below 1 MB, switches to protected mode with a
  flat descriptor table, moves the kernel to its final address and calls it. The
  address of the packet and the return address of the call are labels of the image and are parameters.
\<close>

section \<open>Constants and data\<close>

definition KERNEL_STAGING_ADDR :: u32 where "KERNEL_STAGING_ADDR = 0x10000"

definition KERNEL_FINAL_ADDR :: u32 where "KERNEL_FINAL_ADDR = 0x100000"

definition KERNEL_LBA :: u16 where "KERNEL_LBA = 16"

definition KERNEL_SECTORS :: u16 where "KERNEL_SECTORS = 16"

definition gdt_start :: "u8 list" where
  "gdt_start =
     [0, 0, 0, 0, 0, 0, 0, 0,
      0xFF, 0xFF, 0x00, 0x00, 0x00, 0x9A, 0xCF, 0x00,
      0xFF, 0xFF, 0x00, 0x00, 0x00, 0x92, 0xCF, 0x00]"

definition gdt_limit :: u16 where "gdt_limit = of_nat (length gdt_start) - 1"

definition CODE_SEG :: u16 where "CODE_SEG = 8"

definition DATA_SEG :: u16 where "DATA_SEG = 16"

record 'b stage2 =
  st_regs :: regs
  st_mem :: mem
  st_bios :: 'b
  st_io :: io
  kernel_dap :: dap
  st_gdtr :: "u8 list"
  st_cr0 :: u32
  st_cs :: u16
  st_fs :: u16
  st_gs :: u16
  st_ss :: u16
  st_esp :: u32
  st_eip :: u32

text \<open>The packet as the image has it, and the hand-over from the boot sector: registers, memory and BIOS are those it
  left, the rest of the processor is \<open>cpu\<close>.\<close>

definition kernel_dap0 :: dap where
  "kernel_dap0 = \<lparr>dap_size = 0x10, dap_count = 0, dap_offset = 0, dap_segment = 0, dap_lba = 0\<rparr>"

definition enter_stage2 :: "'b stage2 \<Rightarrow> 'b boot \<Rightarrow> 'b stage2" where
  "enter_stage2 cpu s = cpu\<lparr>st_regs := regs s, st_mem := b_mem s, st_bios := b_bios s, kernel_dap := kernel_dap0\<rparr>"

section \<open>The A20 gate\<close>

partial_function (option) wait_kbd_input_clear :: "io \<Rightarrow> io option" where
  "wait_kbd_input_clear s = (let (al, s) = inb 0x64 s in if al AND 2 \<noteq> 0 then wait_kbd_input_clear s else Some s)"

partial_function (option) wait_kbd_output_full :: "io \<Rightarrow> io option" where
  "wait_kbd_output_full s = (let (al, s) = inb 0x64 s in if al AND 1 = 0 then wait_kbd_output_full s else Some s)"

definition enable_a20 :: "io \<Rightarrow> io option" where
  "enable_a20 s = do {
     s \<leftarrow> wait_kbd_input_clear s;
     let s = outb 0x64 0xAD s;
     s \<leftarrow> wait_kbd_input_clear s;
     let s = outb 0x64 0xD0 s;
     s \<leftarrow> wait_kbd_output_full s;
     let (al, s) = inb 0x60 s;
     s \<leftarrow> wait_kbd_input_clear s;
     let s = outb 0x64 0xD1 s;
     s \<leftarrow> wait_kbd_input_clear s;
     let s = outb 0x60 (al OR 2) s;
     s \<leftarrow> wait_kbd_input_clear s;
     let s = outb 0x64 0xAE s;
     wait_kbd_input_clear s
   }"

section \<open>Reading the kernel\<close>

text \<open>A read that fails leaves the processor halted with interrupts off.\<close>

datatype 'b halted = Halted "'b stage2"

definition stage2_disk_read :: "'b int13 \<Rightarrow> u16 \<Rightarrow> 'b stage2 \<Rightarrow> 'b halted + 'b stage2" where
  "stage2_disk_read int13 dap_label s =
     (let r = st_regs s;
          d = kernel_dap s;
          d = d\<lparr>dap_lba := (dap_lba d AND 0xFFFFFFFFFFFF0000) OR ucast (get_ax r)\<rparr>;
          d = d\<lparr>dap_count := g_cx r\<rparr>;
          d = d\<lparr>dap_offset := g_bx r\<rparr>;
          d = d\<lparr>dap_segment := g_es r\<rparr>;
          r = set_ah 0x42 (r\<lparr>g_si := dap_label\<rparr>);
          (cf, r, m, b) = int13 False r d (st_mem s) (st_bios s);
          s = s\<lparr>kernel_dap := d, st_regs := r, st_mem := m, st_bios := b\<rparr>
      in if cf then Inl (Halted s) else Inr s)"

section \<open>Protected mode\<close>

primrec rep_movsd :: "nat \<Rightarrow> u32 \<Rightarrow> u32 \<Rightarrow> mem \<Rightarrow> mem" where
  "rep_movsd 0 esi edi m = m"
| "rep_movsd (Suc n) esi edi m = rep_movsd n (esi + 4) (edi + 4) (wr32 m edi (rd32 m esi))"

text \<open>A push through a stack segment that was loaded in real mode uses the low half of the stack pointer.\<close>

definition push16 :: "u32 \<Rightarrow> 'b stage2 \<Rightarrow> 'b stage2" where
  "push16 v s =
     (let sp = ucast (st_esp s) - 4 :: u16
      in s\<lparr>st_esp := (st_esp s AND 0xFFFF0000) OR ucast sp, st_mem := wr32 (st_mem s) (lin (st_ss s) sp) v\<rparr>)"

definition protected_mode_entry :: "u32 \<Rightarrow> 'b stage2 \<Rightarrow> 'b stage2" where
  "protected_mode_entry ret_addr s =
     (let r = (set_ax DATA_SEG (st_regs s))\<lparr>g_ds := DATA_SEG, g_es := DATA_SEG\<rparr>;
          s = s\<lparr>st_regs := r, st_fs := DATA_SEG, st_gs := DATA_SEG\<rparr>;
          ecx = unat KERNEL_SECTORS * 512 div 4;
          s = s\<lparr>st_mem := rep_movsd ecx KERNEL_STAGING_ADDR KERNEL_FINAL_ADDR (st_mem s)\<rparr>;
          s = s\<lparr>st_esp := 0x90000\<rparr>;
          s = push16 ret_addr s
      in s\<lparr>st_eip := KERNEL_FINAL_ADDR\<rparr>)"

definition stage2_entry :: "'b int13 \<Rightarrow> u16 \<Rightarrow> u32 \<Rightarrow> 'b stage2 \<Rightarrow> ('b halted + 'b stage2) option" where
  "stage2_entry int13 dap_label ret_addr s =
     (let s = s\<lparr>st_regs := (set_ax 0 (st_regs s))\<lparr>g_ds := 0, g_es := 0\<rparr>, st_ss := 0, st_esp := 0x7C00, st_io := emit Cli (st_io s)\<rparr>
      in do {
        io \<leftarrow> enable_a20 (st_io s);
        let r = set_ax (ucast (drop_bit 4 KERNEL_STAGING_ADDR)) (st_regs s);
        let r = r\<lparr>g_es := get_ax r, g_bx := 0\<rparr>;
        let r = (set_ax KERNEL_LBA r)\<lparr>g_cx := KERNEL_SECTORS\<rparr>;
        Some (case stage2_disk_read int13 dap_label (s\<lparr>st_io := io, st_regs := r\<rparr>) of
          Inl e \<Rightarrow> Inl e
        | Inr s \<Rightarrow>
            let s = s\<lparr>st_gdtr := gdt_start\<rparr>;
                s = s\<lparr>st_cr0 := st_cr0 s OR 1\<rparr>;
                s = s\<lparr>st_cs := CODE_SEG\<rparr>
            in Inr (protected_mode_entry ret_addr s))
      })"

section \<open>Moving the kernel\<close>

lemma rd32_bytes:
  "ucast (rd32 m a) = m a" "ucast (drop_bit 8 (rd32 m a)) = m (a + 1)"
  "ucast (drop_bit 16 (rd32 m a)) = m (a + 2)" "ucast (drop_bit 24 (rd32 m a)) = m (a + 3)"
  by (rule bit_word_eqI; auto simp: rd32_def bit_simps dest: bit_imp_le_length)+

lemma copy_up_add: "copy_up (k + n) m d s = copy_up n (copy_up k m d s) (d + of_nat k) (s + of_nat k)"
  by (induction k arbitrary: m d s) (simp_all add: algebra_simps)

lemma wr32_rd32_copy:
  assumes "unat s + 4 \<le> unat d" "unat d + 4 \<le> 4294967296"
  shows "wr32 m d (rd32 m s) = copy_up 4 m d s"
proof
  fix x
  have "copy_up 4 m d s x = (if in_region d 4 x then m (s + (x - d)) else m x)"
    using assms by (intro copy_up_apply) (auto simp: in_region_flat)
  then show "wr32 m d (rd32 m s) x = copy_up 4 m d s x"
    by (auto simp: wr32_def rd32_bytes in_region_4)
qed

lemma rep_movsd_copy:
  assumes "unat s + 4 * n \<le> unat d" "unat d + 4 * n \<le> 4294967296"
  shows "rep_movsd n s d m = copy_up (4 * n) m d s"
  using assms
proof (induction n arbitrary: s d m)
  case (Suc n)
  have w: "wr32 m d (rd32 m s) = copy_up 4 m d s" using Suc.prems by (intro wr32_rd32_copy) simp_all
  show ?case
  proof (cases "n = 0")
    case False
    have "unat (s + 4) = unat s + 4" "unat (d + 4) = unat d + 4" using Suc.prems False by (simp_all add: unat_add_nowrap)
    then have "rep_movsd n (s + 4) (d + 4) (copy_up 4 m d s) = copy_up (4 * n) (copy_up 4 m d s) (d + 4) (s + 4)"
      using Suc.prems by (intro Suc.IH) simp_all
    then show ?thesis using copy_up_add [of 4 "4 * n" m d s] by (simp add: w)
  qed (simp add: w)
qed simp

lemma rep_movsd_bytes:
  assumes "unat s + 4 * n \<le> unat d" "unat d + 4 * n \<le> 4294967296"
  shows "load_bytes d (4 * n) (rep_movsd n s d m) = load_bytes s (4 * n) m"
proof -
  have "copy_up (4 * n) m d s (d + of_nat i) = m (s + of_nat i)" if "i < 4 * n" for i
  proof -
    have "unat (of_nat i :: u32) = i" using that assms by (intro unat_of_nat_u32) linarith
    then have "in_region d (4 * n) (d + of_nat i)" using that by (simp add: in_region_def)
    moreover have "copy_up (4 * n) m d s (d + of_nat i) =
        (if in_region d (4 * n) (d + of_nat i) then m (s + (d + of_nat i - d)) else m (d + of_nat i))"
      using assms by (intro copy_up_apply) (auto simp: in_region_flat)
    ultimately show ?thesis by simp
  qed
  then show ?thesis by (simp add: load_bytes_def rep_movsd_copy [OF assms])
qed

section \<open>The keyboard controller\<close>

text \<open>A live controller takes its input after finitely many polls, and after the command to read the output port it
  offers a byte.\<close>

definition kbd_poll :: "(io_event list \<Rightarrow> u16 \<Rightarrow> u8) \<Rightarrow> io_event list \<Rightarrow> io_event list" where
  "kbd_poll d log = log @ [In8 0x64 (d log 0x64)]"

definition kbd_live :: "(io_event list \<Rightarrow> u16 \<Rightarrow> u8) \<Rightarrow> bool" where
  "kbd_live d \<longleftrightarrow> (\<forall>log. \<exists>n. d ((kbd_poll d ^^ n) log) 0x64 AND 2 = 0) \<and>
     (\<forall>log. \<exists>n. d ((kbd_poll d ^^ n) (log @ [Out8 0x64 0xD0])) 0x64 AND 1 \<noteq> 0)"

fun not_poll :: "io_event \<Rightarrow> bool" where
  "not_poll (In8 p v) \<longleftrightarrow> p \<noteq> 0x64"
| "not_poll _ \<longleftrightarrow> True"

definition waited :: "io \<Rightarrow> io option \<Rightarrow> bool" where
  "waited s res \<longleftrightarrow> (\<exists>s' new. res = Some s' \<and> dev8 s' = dev8 s \<and> io_log s' = io_log s @ new \<and> filter not_poll new = [])"

lemma waited_poll:
  assumes "waited (emit (In8 0x64 v) s) res"
  shows "waited s res"
proof -
  obtain s' new where "res = Some s'" "dev8 s' = dev8 s" "io_log s' = io_log s @ In8 0x64 v # new" "filter not_poll new = []"
    using assms by (auto simp: waited_def)
  then show ?thesis unfolding waited_def by (intro exI [of _ s'] exI [of _ "In8 0x64 v # new"]) simp
qed

lemma kbd_poll_Suc:
  "(kbd_poll (dev8 s) ^^ Suc n) (io_log s) =
     (kbd_poll (dev8 (emit (In8 0x64 (dev8 s (io_log s) 0x64)) s)) ^^ n) (io_log (emit (In8 0x64 (dev8 s (io_log s) 0x64)) s))"
  by (simp add: kbd_poll_def funpow_Suc_right del: funpow.simps)

lemma wait_input_returns:
  assumes "dev8 s ((kbd_poll (dev8 s) ^^ n) (io_log s)) 0x64 AND 2 = 0"
  shows "waited s (wait_kbd_input_clear s)"
  using assms
proof (induction n arbitrary: s)
  case 0
  then show ?case by (subst wait_kbd_input_clear.simps) (simp add: inb_eq waited_def)
next
  case (Suc n)
  let ?s = "emit (In8 0x64 (dev8 s (io_log s) 0x64)) s"
  have "waited ?s (wait_kbd_input_clear ?s)" using Suc.prems unfolding kbd_poll_Suc by (intro Suc.IH) simp
  then show ?case using waited_poll by (subst wait_kbd_input_clear.simps) (auto simp: inb_eq waited_def)
qed

lemma wait_output_returns:
  assumes "dev8 s ((kbd_poll (dev8 s) ^^ n) (io_log s)) 0x64 AND 1 \<noteq> 0"
  shows "waited s (wait_kbd_output_full s)"
  using assms
proof (induction n arbitrary: s)
  case 0
  then show ?case by (subst wait_kbd_output_full.simps) (simp add: inb_eq waited_def)
next
  case (Suc n)
  let ?s = "emit (In8 0x64 (dev8 s (io_log s) 0x64)) s"
  have "waited ?s (wait_kbd_output_full ?s)" using Suc.prems unfolding kbd_poll_Suc by (intro Suc.IH) simp
  then show ?case using waited_poll by (subst wait_kbd_output_full.simps) (auto simp: inb_eq waited_def)
qed

lemma input_clear: "kbd_live (dev8 s) \<Longrightarrow> waited s (wait_kbd_input_clear s)"
  unfolding kbd_live_def using wait_input_returns by blast

lemma output_full: "kbd_live (dev8 s) \<Longrightarrow> io_log s = log @ [Out8 0x64 0xD0] \<Longrightarrow> waited s (wait_kbd_output_full s)"
  unfolding kbd_live_def using wait_output_returns by metis

text \<open>The dialogue with the controller: the output port is read, and written back with its A20 bit set.\<close>

lemma enable_a20_opens:
  assumes "kbd_live (dev8 s)"
  shows "\<exists>s' new v. enable_a20 s = Some s' \<and> dev8 s' = dev8 s \<and> io_log s' = io_log s @ new \<and>
    filter not_poll new = [Out8 0x64 0xAD, Out8 0x64 0xD0, In8 0x60 v, Out8 0x64 0xD1, Out8 0x60 (v OR 2), Out8 0x64 0xAE]"
proof -
  obtain s1 n1 where 1: "wait_kbd_input_clear s = Some s1" "dev8 s1 = dev8 s" "io_log s1 = io_log s @ n1" "filter not_poll n1 = []"
    using input_clear [OF assms] by (auto simp: waited_def)
  obtain s2 n2 where 2: "wait_kbd_input_clear (outb 0x64 0xAD s1) = Some s2" "dev8 s2 = dev8 s"
    "io_log s2 = io_log (outb 0x64 0xAD s1) @ n2" "filter not_poll n2 = []"
    using input_clear [of "outb 0x64 0xAD s1"] assms 1(2) by (auto simp: waited_def)
  obtain s3 n3 where 3: "wait_kbd_output_full (outb 0x64 0xD0 s2) = Some s3" "dev8 s3 = dev8 s"
    "io_log s3 = io_log (outb 0x64 0xD0 s2) @ n3" "filter not_poll n3 = []"
    using output_full [of "outb 0x64 0xD0 s2"] assms 2(2) by (auto simp: waited_def)
  define v where "v = dev8 s (io_log s3) 0x60"
  define t where "t = emit (In8 0x60 v) s3"
  have t: "inb 0x60 s3 = (v, t)" "dev8 t = dev8 s" "io_log t = io_log s3 @ [In8 0x60 v]" by (simp_all add: inb_eq v_def t_def 3(2))
  obtain s4 n4 where 4: "wait_kbd_input_clear t = Some s4" "dev8 s4 = dev8 s" "io_log s4 = io_log t @ n4" "filter not_poll n4 = []"
    using input_clear [of t] assms t(2) by (auto simp: waited_def)
  obtain s5 n5 where 5: "wait_kbd_input_clear (outb 0x64 0xD1 s4) = Some s5" "dev8 s5 = dev8 s"
    "io_log s5 = io_log (outb 0x64 0xD1 s4) @ n5" "filter not_poll n5 = []"
    using input_clear [of "outb 0x64 0xD1 s4"] assms 4(2) by (auto simp: waited_def)
  obtain s6 n6 where 6: "wait_kbd_input_clear (outb 0x60 (v OR 2) s5) = Some s6" "dev8 s6 = dev8 s"
    "io_log s6 = io_log (outb 0x60 (v OR 2) s5) @ n6" "filter not_poll n6 = []"
    using input_clear [of "outb 0x60 (v OR 2) s5"] assms 5(2) by (auto simp: waited_def)
  obtain s7 n7 where 7: "wait_kbd_input_clear (outb 0x64 0xAE s6) = Some s7" "dev8 s7 = dev8 s"
    "io_log s7 = io_log (outb 0x64 0xAE s6) @ n7" "filter not_poll n7 = []"
    using input_clear [of "outb 0x64 0xAE s6"] assms 6(2) by (auto simp: waited_def)
  have "enable_a20 s = Some s7" by (simp add: enable_a20_def 1(1) 2(1) 3(1) t(1) 4(1) 5(1) 6(1) 7(1))
  moreover have "io_log s7 = io_log s @ n1 @ [Out8 0x64 0xAD] @ n2 @ [Out8 0x64 0xD0] @ n3 @ [In8 0x60 v] @ n4 @ [Out8 0x64 0xD1] @ n5 @
      [Out8 0x60 (v OR 2)] @ n6 @ [Out8 0x64 0xAE] @ n7"
    by (simp add: 1(3) 2(3) 3(3) t(3) 4(3) 5(3) 6(3) 7(3))
  ultimately show ?thesis using 1(4) 2(4) 3(4) 4(4) 5(4) 6(4) 7(2,4)
    by (intro exI [of _ s7] exI conjI) (assumption | simp)+
qed

section \<open>The descriptor table\<close>

definition desc_limit :: "u8 list \<Rightarrow> nat" where
  "desc_limit d = unat (d ! 0) + 256 * unat (d ! 1) + 65536 * unat (d ! 6 AND 0x0F)"

definition desc_base :: "u8 list \<Rightarrow> nat" where
  "desc_base d = unat (d ! 2) + 256 * unat (d ! 3) + 65536 * unat (d ! 4) + 16777216 * unat (d ! 7)"

definition desc_last :: "u8 list \<Rightarrow> nat" where
  "desc_last d = (if bit (d ! 6) 7 then desc_limit d * 4096 + 4095 else desc_limit d)"

definition descriptor :: "u16 \<Rightarrow> u8 list \<Rightarrow> u8 list" where
  "descriptor sel gdt = take 8 (drop (unat sel) gdt)"

text \<open>Both segments are present, start at zero and reach the last byte of the address space; the first can be
  executed, the second written, and both selectors lie inside the limit of the table.\<close>

lemma gdt_flat:
  "desc_base (descriptor CODE_SEG gdt_start) = 0" "desc_last (descriptor CODE_SEG gdt_start) = 0xFFFFFFFF"
  "desc_base (descriptor DATA_SEG gdt_start) = 0" "desc_last (descriptor DATA_SEG gdt_start) = 0xFFFFFFFF"
  "bit (descriptor CODE_SEG gdt_start ! 5) 7" "bit (descriptor CODE_SEG gdt_start ! 5) 3"
  "bit (descriptor DATA_SEG gdt_start ! 5) 7" "bit (descriptor DATA_SEG gdt_start ! 5) 1" "\<not> bit (descriptor DATA_SEG gdt_start ! 5) 3"
  "unat CODE_SEG + 7 \<le> unat gdt_limit" "unat DATA_SEG + 7 \<le> unat gdt_limit"
  by (simp_all add: descriptor_def desc_base_def desc_limit_def desc_last_def gdt_start_def CODE_SEG_def DATA_SEG_def gdt_limit_def)

section \<open>From the first sector to the kernel\<close>

lemma stage2_disk_read_loads:
  assumes w: "serves disk int13" and d: "kernel_dap s = kernel_dap0"
  shows "\<exists>s'. stage2_disk_read int13 l s = Inr s' \<and> st_io s' = st_io s \<and> st_ss s' = st_ss s \<and> st_mem s' =
    store_bytes (lin (g_es (st_regs s)) (g_bx (st_regs s))) (sectors disk (unat (get_ax (st_regs s))) (unat (g_cx (st_regs s)))) (st_mem s)"
proof -
  let ?r = "set_ah 0x42 ((st_regs s)\<lparr>g_si := l\<rparr>)"
  let ?d = "\<lparr>dap_size = 0x10, dap_count = g_cx (st_regs s), dap_offset = g_bx (st_regs s), dap_segment = g_es (st_regs s), dap_lba = ucast (get_ax (st_regs s))\<rparr>"
  obtain cf r m b where c: "int13 False ?r ?d (st_mem s) (st_bios s) = (cf, r, m, b)" by (metis prod.exhaust)
  have "unat (ucast (get_ax (st_regs s)) :: u64) = unat (get_ax (st_regs s))"
    by (simp add: unsigned_ucast_eq take_bit_eq_mod less_trans [OF unat_u16_less])
  then show ?thesis
    using serves_reads(2) [OF w c set_ah_hi(1)] c d by (simp add: stage2_disk_read_def Let_def kernel_dap0_def)
qed

lemma protected_mode_moves:
  fixes s :: "'b stage2" and ret :: u32
  assumes "st_ss s = 0"
  defines "t \<equiv> protected_mode_entry ret s"
  shows "load_bytes 0x100000 8192 (st_mem t) = load_bytes 0x10000 8192 (st_mem s) \<and> st_eip t = 0x100000 \<and>
    g_ds (st_regs t) = DATA_SEG \<and> st_cs t = st_cs s \<and> st_cr0 t = st_cr0 s \<and> st_gdtr t = st_gdtr s \<and> st_io t = st_io s \<and>
    st_ss t = 0 \<and> st_esp t = 0x9FFFC"
proof -
  let ?m = "rep_movsd 2048 0x10000 0x100000 (st_mem s)"
  have "st_mem t = wr32 ?m 0xFFFC ret"
    using assms(1) by (simp add: t_def protected_mode_entry_def Let_def push16_def KERNEL_SECTORS_def KERNEL_STAGING_ADDR_def KERNEL_FINAL_ADDR_def lin_def)
  moreover have "load_bytes 0x100000 8192 (wr32 ?m 0xFFFC ret) = load_bytes 0x100000 8192 ?m"
    by (rule load_bytes_outside) (auto simp: in_region_flat intro!: wr32_outside)
  moreover have "load_bytes 0x100000 8192 ?m = load_bytes 0x10000 8192 (st_mem s)"
    using rep_movsd_bytes [of "0x10000" 2048 "0x100000" "st_mem s"] by simp
  ultimately show ?thesis
    using assms(1) by (simp add: t_def protected_mode_entry_def Let_def push16_def KERNEL_FINAL_ADDR_def)
qed

lemma stage2_entry_runs:
  fixes s :: "'b stage2"
  assumes w: "serves disk int13" "\<And>i. length (disk i) = 512" and live: "kbd_live (dev8 (st_io s))" and d: "kernel_dap s = kernel_dap0"
  shows "\<exists>t new v. stage2_entry int13 l ret s = Some (Inr t) \<and> load_bytes 0x100000 8192 (st_mem t) = sectors disk 16 16 \<and>
    st_eip t = 0x100000 \<and> st_cs t = CODE_SEG \<and> g_ds (st_regs t) = DATA_SEG \<and> bit (st_cr0 t) 0 \<and> st_gdtr t = gdt_start \<and>
    io_log (st_io t) = io_log (st_io s) @ Cli # new \<and>
    filter not_poll new = [Out8 0x64 0xAD, Out8 0x64 0xD0, In8 0x60 v, Out8 0x64 0xD1, Out8 0x60 (v OR 2), Out8 0x64 0xAE]"
proof -
  define s1 where "s1 = s\<lparr>st_regs := (set_ax 0 (st_regs s))\<lparr>g_ds := 0, g_es := 0\<rparr>, st_ss := 0, st_esp := 0x7C00, st_io := emit Cli (st_io s)\<rparr>"
  obtain io new v where a: "enable_a20 (st_io s1) = Some io" "io_log io = io_log (st_io s) @ Cli # new"
    "filter not_poll new = [Out8 0x64 0xAD, Out8 0x64 0xD0, In8 0x60 v, Out8 0x64 0xD1, Out8 0x60 (v OR 2), Out8 0x64 0xAE]"
    using enable_a20_opens [of "st_io s1"] live by (auto simp: s1_def)
  define r where "r = (set_ax KERNEL_LBA ((set_ax 0x1000 (st_regs s1))\<lparr>g_es := 0x1000, g_bx := 0\<rparr>))\<lparr>g_cx := KERNEL_SECTORS\<rparr>"
  define s2 where "s2 = s1\<lparr>st_io := io, st_regs := r\<rparr>"
  have ax: "get_ax r = 16" using set_ax_get [of 16] by (simp add: r_def KERNEL_LBA_def get_ax_def)
  obtain s3 where s3: "stage2_disk_read int13 l s2 = Inr s3" "st_io s3 = io" "st_ss s3 = 0"
    "st_mem s3 = store_bytes 0x10000 (sectors disk 16 16) (st_mem s)"
    using stage2_disk_read_loads [OF w(1), of s2 l] d ax by (auto simp: s2_def s1_def r_def KERNEL_SECTORS_def lin_def)
  define s4 where "s4 = s3\<lparr>st_gdtr := gdt_start, st_cr0 := st_cr0 s3 OR 1, st_cs := CODE_SEG\<rparr>"
  have "load_bytes 0x10000 8192 (st_mem s4) = sectors disk 16 16"
    using load_store_bytes [of "sectors disk 16 16" "0x10000" "st_mem s"] by (simp add: s4_def s3(4) length_sectors [OF w(2)])
  moreover have "stage2_entry int13 l ret s = Some (Inr (protected_mode_entry ret s4))"
    using a(1) s3(1) set_ax_get [of "0x1000"]
    by (simp add: stage2_entry_def Let_def s1_def [symmetric] KERNEL_STAGING_ADDR_def r_def [symmetric] s2_def [symmetric] s4_def)
  ultimately show ?thesis
    using protected_mode_moves [of s4 ret] a(2,3) s3(2,3) by (auto simp: s4_def bit_simps)
qed


text \<open>A BIOS that serves a disk, with extensions.\<close>

definition bios0 :: "(nat \<Rightarrow> u8 list) \<Rightarrow> unit int13" where
  "bios0 disk cf r d m b =
     (if hi8 (get_ax r) = 0x41 then (False, r\<lparr>g_bx := 0xAA55\<rparr>, m, b)
      else if hi8 (get_ax r) = 0x42 then
        (False, r, store_bytes (lin (dap_segment d) (dap_offset d)) (sectors disk (unat (dap_lba d)) (unat (dap_count d))) m, b)
      else if hi8 (get_ax r) = 0x02 then
        (False, r, store_bytes (lin (g_es r) (g_bx r)) (sectors disk (chs_lba r) (unat (lo8 (get_ax r)))) m, b)
      else (False, r, m, b))"

definition regs0 :: regs where
  "regs0 = \<lparr>g_eax = 0, g_bx = 0, g_cx = 0, g_dx = 0x80, g_si = 0, g_di = 0, g_ds = 0, g_es = 0\<rparr>"

definition boot0 :: "unit boot" where
  "boot0 = \<lparr>regs = regs0, b_mem = (\<lambda>_. 0)(0x7DB0 := 1, 0x7DB4 := 15), b_bios = (), have_extensions = 0, extensions_dap = kernel_dap0,
     ebr_drive_number = 0, screen = []\<rparr>"

definition cpu0 :: "unit stage2" where
  "cpu0 = \<lparr>st_regs = regs0, st_mem = (\<lambda>_. 0), st_bios = (), st_io = \<lparr>io_log = [], dev8 = (\<lambda>_ _. 1), dev16 = (\<lambda>_ _. 0)\<rparr>,
     kernel_dap = kernel_dap0, st_gdtr = [], st_cr0 = 0x10, st_cs = 0, st_fs = 0, st_gs = 0, st_ss = 0, st_esp = 0, st_eip = 0x500\<rparr>"

definition disk0 :: "nat \<Rightarrow> u8 list" where "disk0 i = replicate 512 (of_nat i)"


end
