(* ===== verification/Irq_Stub.thy ===== *)
theory Irq_Stub
  imports Memory
begin

text \<open>
  \<open>arch/x86-64/irq1.asm\<close>: the stub the processor enters on a keyboard interrupt, one definition per
  instruction. At the entry the stack holds the interrupted \<open>eip\<close>, \<open>cs\<close> and \<open>eflags\<close>. The handler it calls is a
  parameter, which runs from the state after the \<open>call\<close> up to and including its \<open>ret\<close>.
\<close>

record irq =
  i_eax :: u32
  i_ecx :: u32
  i_edx :: u32
  i_ebx :: u32
  i_esp :: u32
  i_ebp :: u32
  i_esi :: u32
  i_edi :: u32
  i_eip :: u32
  i_cs :: u16
  i_eflags :: u32
  i_mem :: mem

definition irq_push :: "u32 \<Rightarrow> irq \<Rightarrow> irq" where
  "irq_push v s = s\<lparr>i_esp := i_esp s - 4, i_mem := wr32 (i_mem s) (i_esp s - 4) v\<rparr>"

definition irq_pop :: "irq \<Rightarrow> u32 \<times> irq" where
  "irq_pop s = (rd32 (i_mem s) (i_esp s), s\<lparr>i_esp := i_esp s + 4\<rparr>)"

definition pusha :: "irq \<Rightarrow> irq" where
  "pusha s = fold irq_push [i_eax s, i_ecx s, i_edx s, i_ebx s, i_esp s, i_ebp s, i_esi s, i_edi s] s"

definition popa :: "irq \<Rightarrow> irq" where
  "popa s =
     (let (v, s) = irq_pop s; s = s\<lparr>i_edi := v\<rparr>;
          (v, s) = irq_pop s; s = s\<lparr>i_esi := v\<rparr>;
          (v, s) = irq_pop s; s = s\<lparr>i_ebp := v\<rparr>;
          (v, s) = irq_pop s;
          (v, s) = irq_pop s; s = s\<lparr>i_ebx := v\<rparr>;
          (v, s) = irq_pop s; s = s\<lparr>i_edx := v\<rparr>;
          (v, s) = irq_pop s; s = s\<lparr>i_ecx := v\<rparr>;
          (v, s) = irq_pop s
      in s\<lparr>i_eax := v\<rparr>)"

definition irq_iret :: "irq \<Rightarrow> irq" where
  "irq_iret s =
     (let (v, s) = irq_pop s; s = s\<lparr>i_eip := v\<rparr>;
          (v, s) = irq_pop s; s = s\<lparr>i_cs := ucast v\<rparr>;
          (v, s) = irq_pop s
      in s\<lparr>i_eflags := v\<rparr>)"

definition irq1_stub :: "(irq \<Rightarrow> irq) \<Rightarrow> u32 \<Rightarrow> irq \<Rightarrow> irq" where
  "irq1_stub handler after_call s =
     (let s = pusha s;
          s = handler (irq_push after_call s);
          s = popa s
      in irq_iret s)"

section \<open>The interrupted program goes on\<close>

text \<open>What the calling convention promises of a handler without arguments: it returns with its return address popped, and
  what its callers keep on the stack, the \<open>n\<close> bytes above the return address, is as it was.\<close>

definition returns_to_caller :: "nat \<Rightarrow> (irq \<Rightarrow> irq) \<Rightarrow> irq \<Rightarrow> bool" where
  "returns_to_caller n handler s \<longleftrightarrow> i_esp (handler s) = i_esp s + 4 \<and>
     (\<forall>x. in_region (i_esp s + 4) n x \<longrightarrow> i_mem (handler s) x = i_mem s x)"

text \<open>The state the interrupt left: its three words are on the stack.\<close>

definition interrupted :: "irq \<Rightarrow> irq \<Rightarrow> bool" where
  "interrupted p s \<longleftrightarrow> (\<exists>m. s = p\<lparr>i_esp := i_esp p - 12, i_eip := i_eip s, i_cs := i_cs s, i_eflags := i_eflags s, i_mem := m\<rparr>) \<and>
     rd32 (i_mem s) (i_esp s) = i_eip p \<and> ucast (rd32 (i_mem s) (i_esp s + 4)) = i_cs p \<and>
     rd32 (i_mem s) (i_esp s + 8) = i_eflags p"

lemma push_sel [simp]:
  "i_esp (irq_push v s) = i_esp s - 4" "i_mem (irq_push v s) = wr32 (i_mem s) (i_esp s - 4) v"
  by (simp_all add: irq_push_def)

lemma fold_push_esp: "i_esp (fold irq_push vs s) = i_esp s - of_nat (4 * length vs)"
  by (induction vs arbitrary: s) (simp_all add: algebra_simps)

lemma fold_push_above:
  assumes "4 * length vs \<le> unat (i_esp s)" "unat (i_esp s) \<le> unat a" "unat a + 4 \<le> 4294967296"
  shows "rd32 (i_mem (fold irq_push vs s)) a = rd32 (i_mem s) a"
  using assms(1,2)
proof (induction vs arbitrary: s)
  case (Cons v vs)
  have "unat (i_esp s - 4) = unat (i_esp s) - 4" using Cons.prems(1) by (simp add: unat_sub word_le_nat_alt)
  then show ?case using Cons assms(3) by (simp add: rd32_wr32_apart)
qed simp

lemma fold_push_nth:
  assumes "4 * length vs \<le> unat (i_esp s)" "i < length vs"
  shows "rd32 (i_mem (fold irq_push vs s)) (i_esp s - of_nat (4 * Suc i)) = vs ! i"
  using assms
proof (induction vs arbitrary: s i)
  case (Cons v vs)
  have u: "unat (i_esp s - 4) = unat (i_esp s) - 4" using Cons.prems(1) by (simp add: unat_sub word_le_nat_alt)
  show ?case
  proof (cases i)
    case 0
    have "rd32 (i_mem (fold irq_push vs (irq_push v s))) (i_esp s - 4) = rd32 (i_mem (irq_push v s)) (i_esp s - 4)"
      using Cons.prems(1) u less_imp_le [OF unat_u32_less [of "i_esp s"]] by (intro fold_push_above) simp_all
    then show ?thesis using 0 by simp
  next
    case (Suc j)
    then show ?thesis using Cons.IH [of "irq_push v s" j] Cons.prems u by (simp add: algebra_simps)
  qed
qed simp

lemma in_region_part:
  assumes "in_region (b + of_nat k) 4 x" "k + 4 \<le> n" "n \<le> 4294967295"
  shows "in_region b n x"
proof -
  have u: "unat (of_nat k :: u32) = k" using assms(2,3) by (intro unat_of_nat_u32) linarith
  have "x - b = (x - (b + of_nat k)) + of_nat k" by simp
  then have "unat (x - b) = unat ((x - (b + of_nat k)) + of_nat k)" by (rule arg_cong)
  also have "\<dots> = unat (x - (b + of_nat k)) + k" using assms u by (subst unat_add_nowrap) (simp_all add: in_region_def)
  finally show ?thesis using assms by (simp add: in_region_def)
qed

text \<open>The eleven words from the last register up that the stub finds after the handler.\<close>

definition stub_words :: "mem \<Rightarrow> u32 \<Rightarrow> u32 list" where
  "stub_words m b = map (\<lambda>k. rd32 m (b + of_nat k)) [0, 4, 8, 12, 16, 20, 24, 28, 32, 36, 40]"

lemma stub_words_kept:
  assumes "\<And>x. in_region b 44 x \<Longrightarrow> m x = m' x"
  shows "stub_words m b = stub_words m' b"
proof -
  have k: "rd32 m (b + of_nat k) = rd32 m' (b + of_nat k)" if "k + 4 \<le> 44" for k
    using that by (intro rd32_cong assms) (rule in_region_part, auto)
  have "\<forall>k \<in> set [0, 4, 8, 12, 16, 20, 24, 28, 32, 36, 40]. k + 4 \<le> (44 :: nat)" by simp
  then show ?thesis unfolding stub_words_def by (intro map_cong refl k) blast
qed

lemma iret_popa:
  assumes "stub_words (i_mem s) (i_esp s) = [edi, esi, ebp, esp, ebx, edx, ecx, eax, eip, cs, fl]"
  shows "irq_iret (popa s) = \<lparr>i_eax = eax, i_ecx = ecx, i_edx = edx, i_ebx = ebx, i_esp = i_esp s + 44, i_ebp = ebp,
    i_esi = esi, i_edi = edi, i_eip = eip, i_cs = ucast cs, i_eflags = fl, i_mem = i_mem s\<rparr>"
  using assms by (cases s) (simp add: stub_words_def irq_iret_def popa_def irq_pop_def Let_def add.assoc)

lemma pusha_words:
  assumes "36 \<le> unat (i_esp s)" "unat (i_esp s) + 12 \<le> 4294967296"
  shows "stub_words (i_mem (irq_push ret (pusha s))) (i_esp s - 32) =
    [i_edi s, i_esi s, i_ebp s, i_esp s, i_ebx s, i_edx s, i_ecx s, i_eax s,
     rd32 (i_mem s) (i_esp s), rd32 (i_mem s) (i_esp s + 4), rd32 (i_mem s) (i_esp s + 8)]"
proof -
  let ?e = "i_esp s" and ?vs = "[i_eax s, i_ecx s, i_edx s, i_ebx s, i_esp s, i_ebp s, i_esi s, i_edi s, ret]"
  define m where "m = i_mem (fold irq_push ?vs s)"
  have f: "i_mem (irq_push ret (pusha s)) = m" by (simp add: pusha_def m_def)
  have n: "rd32 m (?e - of_nat (4 * Suc i)) = ?vs ! i" if "i < 9" for i
    unfolding m_def using that assms(1) by (intro fold_push_nth) simp_all
  have a: "rd32 m (?e + of_nat k) = rd32 (i_mem s) (?e + of_nat k)" if "k \<le> 8" for k
  proof -
    have "unat (?e + of_nat k) = unat ?e + k" using that assms(2) by (subst unat_add_nowrap) (simp_all add: unat_of_nat_u32)
    then show ?thesis unfolding m_def using that assms by (intro fold_push_above) simp_all
  qed
  show ?thesis unfolding f stub_words_def
    using n [of 0] n [of 1] n [of 2] n [of 3] n [of 4] n [of 5] n [of 6] n [of 7] a [of 0] a [of 4] a [of 8]
    by (simp add: add.commute [of _ ?e])
qed

text \<open>C39. The keyboard interrupt is invisible to the program it interrupts: with a handler that returns to its caller and leaves
  the stub's part of the stack alone, \<open>irq1_stub\<close> comes back to the interrupted instruction with every register, the stack
  pointer, the code segment and the flags as they were, and only memory the handler changed is different.\<close>

theorem irq1_transparent:
  assumes "interrupted p s" and room: "36 \<le> unat (i_esp s)" "unat (i_esp s) + 12 \<le> 4294967296"
    and h: "returns_to_caller 44 handler (irq_push ret (pusha s))"
  shows "irq1_stub handler ret s = p\<lparr>i_mem := i_mem (handler (irq_push ret (pusha s)))\<rparr>"
proof -
  let ?t = "irq_push ret (pusha s)"
  have "i_esp ?t = i_esp s - 36" by (simp add: pusha_def)
  then have e: "i_esp ?t + 4 = i_esp s - 32" by (simp only:) simp
  have "stub_words (i_mem (handler ?t)) (i_esp s - 32) = stub_words (i_mem ?t) (i_esp s - 32)"
    using h unfolding returns_to_caller_def e by (intro stub_words_kept) blast
  moreover have "i_esp (handler ?t) = i_esp s - 32" using h unfolding returns_to_caller_def e by blast
  ultimately have w: "stub_words (i_mem (handler ?t)) (i_esp (handler ?t)) =
    [i_edi s, i_esi s, i_ebp s, i_esp s, i_ebx s, i_edx s, i_ecx s, i_eax s,
     rd32 (i_mem s) (i_esp s), rd32 (i_mem s) (i_esp s + 4), rd32 (i_mem s) (i_esp s + 8)]"
    by (simp only: pusha_words [OF room])
  show ?thesis using assms(1) iret_popa [OF w] \<open>i_esp (handler ?t) = i_esp s - 32\<close>
    by (cases p; cases s) (auto simp: irq1_stub_def interrupted_def Let_def)
qed

text \<open>A program at address 0x1000, interrupted, and a handler that clobbers the scratch registers and one byte of its data.\<close>

definition irq_sample_program :: irq where
  "irq_sample_program = \<lparr>i_eax = 1, i_ecx = 2, i_edx = 3, i_ebx = 4, i_esp = 0x8000, i_ebp = 5, i_esi = 6, i_edi = 7,
     i_eip = 0x1000, i_cs = 8, i_eflags = 0x202, i_mem = (\<lambda>_. 0)\<rparr>"

definition irq_sample_entry :: irq where
  "irq_sample_entry = (fold irq_push [0x202, 8, 0x1000] irq_sample_program)\<lparr>i_eip := 0x2000, i_eflags := 2\<rparr>"

definition irq_sample_handler :: "irq \<Rightarrow> irq" where
  "irq_sample_handler s = s\<lparr>i_esp := i_esp s + 4, i_eax := 0, i_ecx := 0, i_edx := 0, i_mem := (i_mem s)(0x100 := 0xFF)\<rparr>"

theorem irq1_transparent_witness:
  "i_eax (irq1_stub irq_sample_handler 0x2006 irq_sample_entry) = 1 \<and> i_eip (irq1_stub irq_sample_handler 0x2006 irq_sample_entry) = 0x1000 \<and>
   i_esp (irq1_stub irq_sample_handler 0x2006 irq_sample_entry) = 0x8000"
proof -
  have "interrupted irq_sample_program irq_sample_entry"
    by (simp add: interrupted_def irq_sample_entry_def irq_sample_program_def irq_push_def rd32_def wr32_def)
  moreover have "returns_to_caller 44 irq_sample_handler (irq_push 0x2006 (pusha irq_sample_entry))"
    by (auto simp: returns_to_caller_def irq_sample_handler_def in_region_def irq_sample_entry_def irq_sample_program_def pusha_def)
  ultimately have "irq1_stub irq_sample_handler 0x2006 irq_sample_entry =
      irq_sample_program\<lparr>i_mem := i_mem (irq_sample_handler (irq_push 0x2006 (pusha irq_sample_entry)))\<rparr>"
    by (intro irq1_transparent) (simp_all add: irq_sample_entry_def irq_sample_program_def)
  then show ?thesis by (simp add: irq_sample_program_def)
qed

end
