(* ===== verification/Object_Formats.thy ===== *)
theory Object_Formats
  imports Memory Cstring
begin

text \<open>
  The object file formats of \<open>include/linux/\<close>: the header word and the layout macros of \<open>a.out.h\<close>, the
  structures of byte arrays of \<open>coff.h\<close> with their byte-order macros, and the packed fields of
  \<open>elf.h\<close>. An \<open>unsigned long\<close> has 32 bits on the i386 build.
\<close>

section \<open>a.out.h\<close>

record exec =
  a_info :: u32
  a_text :: u32
  a_data :: u32
  a_bss :: u32
  a_syms :: u32
  a_entry :: u32
  a_trsize :: u32
  a_drsize :: u32

definition sizeof_exec :: u32 where "sizeof_exec = 32"

definition N_MAGIC :: "exec \<Rightarrow> u32" where "N_MAGIC x = a_info x AND 0xffff"

definition N_MACHTYPE :: "exec \<Rightarrow> u32" where "N_MACHTYPE x = drop_bit 16 (a_info x) AND 0xff"

definition N_FLAGS :: "exec \<Rightarrow> u32" where "N_FLAGS x = drop_bit 24 (a_info x) AND 0xff"

definition N_SET_INFO :: "u32 \<Rightarrow> u32 \<Rightarrow> u32 \<Rightarrow> exec \<Rightarrow> exec" where
  "N_SET_INFO magic type flags x =
     x\<lparr>a_info := (magic AND 0xffff) OR push_bit 16 (type AND 0xff) OR push_bit 24 (flags AND 0xff)\<rparr>"

definition N_SET_MAGIC :: "u32 \<Rightarrow> exec \<Rightarrow> exec" where
  "N_SET_MAGIC magic x = x\<lparr>a_info := (a_info x AND 0xffff0000) OR (magic AND 0xffff)\<rparr>"

definition N_SET_MACHTYPE :: "u32 \<Rightarrow> exec \<Rightarrow> exec" where
  "N_SET_MACHTYPE machtype x = x\<lparr>a_info := (a_info x AND 0xff00ffff) OR push_bit 16 (machtype AND 0xff)\<rparr>"

definition N_SET_FLAGS :: "u32 \<Rightarrow> exec \<Rightarrow> exec" where
  "N_SET_FLAGS flags x = x\<lparr>a_info := (a_info x AND 0x00ffffff) OR push_bit 24 (flags AND 0xff)\<rparr>"

definition OMAGIC :: u32 where "OMAGIC = 263"

definition NMAGIC :: u32 where "NMAGIC = 264"

definition ZMAGIC :: u32 where "ZMAGIC = 267"

definition QMAGIC :: u32 where "QMAGIC = 204"

definition CMAGIC :: u32 where "CMAGIC = 273"

definition N_BADMAG :: "exec \<Rightarrow> bool" where
  "N_BADMAG x \<longleftrightarrow> N_MAGIC x \<noteq> OMAGIC \<and> N_MAGIC x \<noteq> NMAGIC \<and> N_MAGIC x \<noteq> ZMAGIC \<and> N_MAGIC x \<noteq> QMAGIC"

definition N_HDROFF :: "exec \<Rightarrow> u32" where "N_HDROFF x = 1024 - sizeof_exec"

definition N_TXTOFF :: "exec \<Rightarrow> u32" where
  "N_TXTOFF x = (if N_MAGIC x = ZMAGIC then N_HDROFF x + sizeof_exec else if N_MAGIC x = QMAGIC then 0 else sizeof_exec)"

definition N_DATOFF :: "exec \<Rightarrow> u32" where "N_DATOFF x = N_TXTOFF x + a_text x"

definition N_TRELOFF :: "exec \<Rightarrow> u32" where "N_TRELOFF x = N_DATOFF x + a_data x"

definition N_DRELOFF :: "exec \<Rightarrow> u32" where "N_DRELOFF x = N_TRELOFF x + a_trsize x"

definition N_SYMOFF :: "exec \<Rightarrow> u32" where "N_SYMOFF x = N_DRELOFF x + a_drsize x"

definition N_STROFF :: "exec \<Rightarrow> u32" where "N_STROFF x = N_SYMOFF x + a_syms x"

definition N_TXTADDR :: "exec \<Rightarrow> u32" where "N_TXTADDR x = (if N_MAGIC x = QMAGIC then 4096 else 0)"

definition SEGMENT_SIZE :: u32 where "SEGMENT_SIZE = 1024"

definition N_SEGMENT_ROUND :: "u32 \<Rightarrow> u32" where
  "N_SEGMENT_ROUND x = (x + SEGMENT_SIZE - 1) AND NOT (SEGMENT_SIZE - 1)"

definition N_TXTENDADDR :: "exec \<Rightarrow> u32" where "N_TXTENDADDR x = N_TXTADDR x + a_text x"

definition N_DATADDR :: "exec \<Rightarrow> u32" where
  "N_DATADDR x = (if N_MAGIC x = OMAGIC then N_TXTENDADDR x else N_SEGMENT_ROUND (N_TXTENDADDR x))"

definition N_BSSADDR :: "exec \<Rightarrow> u32" where "N_BSSADDR x = N_DATADDR x + a_data x"

section \<open>elf.h\<close>

definition ELF32_ST_BIND :: "u8 \<Rightarrow> u8" where "ELF32_ST_BIND x = drop_bit 4 x"

definition ELF32_ST_TYPE :: "u8 \<Rightarrow> u32" where "ELF32_ST_TYPE x = ucast x AND 0xf"

definition ELF32_R_SYM :: "u32 \<Rightarrow> u32" where "ELF32_R_SYM x = signed_drop_bit 8 x"

definition ELF32_R_TYPE :: "u32 \<Rightarrow> u32" where "ELF32_R_TYPE x = x AND 0xff"

section \<open>coff.h\<close>

text \<open>The byte-order macros, on the bytes of a field.\<close>

definition COFF_SHORT_L :: "u8 list \<Rightarrow> int" where
  "COFF_SHORT_L ps = sint (push_bit 8 (ucast (ps ! 1)) OR ucast (ps ! 0) :: u16)"

definition COFF_LONG_L :: "u8 list \<Rightarrow> int" where
  "COFF_LONG_L ps = sint (push_bit 24 (ucast (ps ! 3)) OR push_bit 16 (ucast (ps ! 2)) OR push_bit 8 (ucast (ps ! 1)) OR ucast (ps ! 0) :: u32)"

definition COFF_SHORT_H :: "u8 list \<Rightarrow> int" where
  "COFF_SHORT_H ps = sint (push_bit 8 (ucast (ps ! 0)) OR ucast (ps ! 1) :: u16)"

definition COFF_LONG_H :: "u8 list \<Rightarrow> int" where
  "COFF_LONG_H ps = sint (push_bit 24 (ucast (ps ! 0)) OR push_bit 16 (ucast (ps ! 1)) OR push_bit 8 (ucast (ps ! 2)) OR ucast (ps ! 3) :: u32)"

abbreviation (input) COFF_LONG :: "u8 list \<Rightarrow> int" where "COFF_LONG \<equiv> COFF_LONG_L"

abbreviation (input) COFF_SHORT :: "u8 list \<Rightarrow> int" where "COFF_SHORT \<equiv> COFF_SHORT_L"

text \<open>A structure of character arrays is the list of its members with their sizes, without padding.\<close>

type_synonym layout = "(string \<times> nat) list"

definition sizeof :: "layout \<Rightarrow> nat" where "sizeof l = sum_list (map snd l)"

fun offsetof :: "string \<Rightarrow> layout \<Rightarrow> nat option" where
  "offsetof f [] = None"
| "offsetof f ((g, n) # l) = (if f = g then Some 0 else map_option ((+) n) (offsetof f l))"

definition member :: "string \<Rightarrow> layout \<Rightarrow> u8 list \<Rightarrow> u8 list option" where
  "member f l bs = (case (offsetof f l, map_of l f) of (Some k, Some n) \<Rightarrow> Some (take n (drop k bs)) | _ \<Rightarrow> None)"

definition COFF_filehdr :: layout where
  "COFF_filehdr = [(''f_magic'', 2), (''f_nscns'', 2), (''f_timdat'', 4), (''f_symptr'', 4), (''f_nsyms'', 4), (''f_opthdr'', 2), (''f_flags'', 2)]"

definition COFF_AOUTHDR :: layout where
  "COFF_AOUTHDR = [(''magic'', 2), (''vstamp'', 2), (''tsize'', 4), (''dsize'', 4), (''bsize'', 4), (''entry'', 4), (''text_start'', 4), (''data_start'', 4)]"

definition COFF_scnhdr :: layout where
  "COFF_scnhdr = [(''s_name'', 8), (''s_paddr'', 4), (''s_vaddr'', 4), (''s_size'', 4), (''s_scnptr'', 4), (''s_relptr'', 4),
     (''s_lnnoptr'', 4), (''s_nreloc'', 2), (''s_nlnno'', 2), (''s_flags'', 4)]"

definition COFF_slib :: layout where
  "COFF_slib = [(''sl_entsz'', 4), (''sl_pathndx'', 4)]"

definition COFF_lineno :: layout where
  "COFF_lineno = [(''l_addr'', 4), (''l_lnno'', 2)]"

definition E_SYMNMLEN :: nat where "E_SYMNMLEN = 8"

definition E_FILNMLEN :: nat where "E_FILNMLEN = 14"

definition E_DIMNUM :: nat where "E_DIMNUM = 4"

definition COFF_syment :: layout where
  "COFF_syment = [(''e'', max E_SYMNMLEN (4 + 4)), (''e_value'', 4), (''e_scnum'', 2), (''e_type'', 2), (''e_sclass'', 1), (''e_numaux'', 1)]"

text \<open>The members of the auxiliary entry are alternatives at offset zero.\<close>

definition COFF_auxent :: "(string \<times> layout) list" where
  "COFF_auxent =
     [(''x_sym'', [(''x_tagndx'', 4), (''x_misc'', max (2 + 2) 4), (''x_fcnary'', max (4 + 4) (E_DIMNUM * 2)), (''x_tvndx'', 2)]),
      (''x_file'', [(''x_fname'', max E_FILNMLEN (4 + 4))]),
      (''x_scn'', [(''x_scnlen'', 4), (''x_nreloc'', 2), (''x_nlinno'', 2)]),
      (''x_tv'', [(''x_tvfill'', 4), (''x_tvlen'', 2), (''x_tvran'', 2 * 2)])]"

definition COFF_reloc :: layout where
  "COFF_reloc = [(''r_vaddr'', 4), (''r_symndx'', 4), (''r_type'', 2)]"

definition COFF_LINESZ :: nat where "COFF_LINESZ = 6"

definition COFF_SYMESZ :: nat where "COFF_SYMESZ = 18"

definition COFF_AUXESZ :: nat where "COFF_AUXESZ = 18"

definition COFF_RELSZ :: nat where "COFF_RELSZ = 10"

definition COFF_I386MAGIC :: int where "COFF_I386MAGIC = 0x14c"

definition COFF_I386BADMAG :: "u8 list \<Rightarrow> bool" where
  "COFF_I386BADMAG x \<longleftrightarrow> (case member ''f_magic'' COFF_filehdr x of Some m \<Rightarrow> COFF_SHORT m \<noteq> COFF_I386MAGIC | None \<Rightarrow> True)"

section \<open>The header word\<close>

lemma low_masks: "(0xffff :: u32) = mask 16" "(0xff :: u32) = mask 8" "(0x00ffffff :: u32) = mask 24" "(0xf :: u32) = mask 4"
  by (simp_all add: mask_eq_exp_minus_1)

lemma high_masks: "(0xffff0000 :: u32) = NOT (mask 16)" "(0xff00ffff :: u32) = NOT (push_bit 16 (mask 8))"
  by (simp_all add: mask_eq_exp_minus_1)

definition pack_info :: "u32 \<Rightarrow> u32 \<Rightarrow> u32 \<Rightarrow> u32" where
  "pack_info m t f = (m AND mask 16) OR push_bit 16 (t AND mask 8) OR push_bit 24 (f AND mask 8)"

lemma bit_pack_info: "bit (pack_info m t f) n \<longleftrightarrow> n < 32 \<and> (if n < 16 then bit m n else if n < 24 then bit t (n - 16) else bit f (n - 24))"
proof -
  consider "n < 16" | "16 \<le> n" "n < 24" | "24 \<le> n" "n < 32" | "32 \<le> n" by linarith
  then show ?thesis by cases (auto simp: pack_info_def bit_simps)
qed

lemma unpack_info:
  "pack_info m t f AND mask 16 = take_bit 16 m" "drop_bit 16 (pack_info m t f) AND mask 8 = take_bit 8 t"
  "drop_bit 24 (pack_info m t f) AND mask 8 = take_bit 8 f"
  by (rule bit_word_eqI; auto simp: bit_and_iff bit_mask_iff bit_take_bit_iff bit_drop_bit_eq bit_pack_info)+

lemma repack_info:
  "(i AND NOT (mask 16)) OR (m AND mask 16) = pack_info m (drop_bit 16 i AND mask 8) (drop_bit 24 i AND mask 8)"
  "(i AND NOT (push_bit 16 (mask 8))) OR push_bit 16 (t AND mask 8) = pack_info (i AND mask 16) t (drop_bit 24 i AND mask 8)"
  "(i AND mask 24) OR push_bit 24 (f AND mask 8) = pack_info (i AND mask 16) (drop_bit 16 i AND mask 8) f"
  by (rule bit_word_eqI; unfold bit_pack_info; auto simp: bit_simps)+

text \<open>The header word of an \<open>a.out\<close> file: what \<open>N_SET_INFO\<close> packs, the three readers unpack, each cut to the
  width of its field; and each of the other three writers changes its own field only.\<close>

lemma a_out_info_roundtrip:
  "N_MAGIC (N_SET_INFO m t f x) = take_bit 16 m \<and> N_MACHTYPE (N_SET_INFO m t f x) = take_bit 8 t \<and> N_FLAGS (N_SET_INFO m t f x) = take_bit 8 f \<and>
   N_SET_MAGIC m x = N_SET_INFO m (N_MACHTYPE x) (N_FLAGS x) x \<and> N_SET_MACHTYPE t x = N_SET_INFO (N_MAGIC x) t (N_FLAGS x) x \<and>
   N_SET_FLAGS f x = N_SET_INFO (N_MAGIC x) (N_MACHTYPE x) f x"
  unfolding N_MAGIC_def N_MACHTYPE_def N_FLAGS_def N_SET_INFO_def N_SET_MAGIC_def N_SET_MACHTYPE_def N_SET_FLAGS_def
    low_masks high_masks repack_info pack_info_def [symmetric] exec.select_convs exec.update_convs
  by (simp add: unpack_info)

section \<open>Rounding and file layout\<close>

lemma unat_clear_low: "unat ((y :: u32) AND NOT (mask k)) = unat y div 2 ^ k * 2 ^ k"
proof -
  have "y AND NOT (mask k) = push_bit k (drop_bit k y)" by (rule bit_word_eqI) (auto simp: bit_simps)
  moreover have "unat (drop_bit k y) = unat y div 2 ^ k" by (subst unat_drop_bit_eq) (simp add: drop_bit_eq_div)
  moreover have "unat y div 2 ^ k * 2 ^ k < 4294967296" using unat_u32_less [of y] by (rule le_less_trans [rotated]) (simp add: div_times_less_eq_dividend)
  ultimately show ?thesis by (simp only: unsigned_push_bit_eq) (simp add: push_bit_eq_mult take_bit_eq_mod)
qed

lemma round_up:
  fixes x :: u32
  assumes "unat x + (2 ^ k - 1) < 4294967296" and r: "r = (x + of_nat (2 ^ k - 1)) AND NOT (mask k)"
  shows "unat r mod 2 ^ k = 0 \<and> unat x \<le> unat r \<and> unat r < unat x + 2 ^ k"
proof -
  have k: "unat (of_nat (2 ^ k - 1) :: u32) = 2 ^ k - 1" using assms(1) by (intro unat_of_nat_u32) linarith
  have "unat (x + of_nat (2 ^ k - 1)) = unat x + (2 ^ k - 1)"
    using assms(1) k by (subst unat_add_nowrap) simp_all
  then have e: "unat r = (unat x + (2 ^ k - 1)) div 2 ^ k * 2 ^ k" unfolding r unat_clear_low by simp
  define p :: nat where "p = 2 ^ k"
  have p: "0 < p" by (simp add: p_def)
  define q m where "q = (unat x + (p - 1)) div p * p" and "m = (unat x + (p - 1)) mod p"
  have "q + m = unat x + (p - 1)" unfolding q_def m_def by (rule div_mult_mod_eq)
  moreover have "m < p" using p by (simp add: m_def)
  moreover have "q mod p = 0" by (simp add: q_def)
  moreover have "unat r = q" unfolding e q_def p_def ..
  ultimately have "unat r mod p = 0" "unat x \<le> unat r" "unat r < unat x + p" using p by (simp, linarith, linarith)
  then show ?thesis unfolding p_def by blast
qed

text \<open>In memory the data of an \<open>a.out\<close> program starts on a segment boundary at most 1023 bytes after the end of
  its text, except for an impure program, whose data follows at once. In the file the parts follow each
  other, so the string table starts behind the sum of all sizes. Both hold as long as the numbers fit in 32 bits.\<close>

lemma a_out_layout_bounds:
  assumes "unat (N_TXTADDR x) + unat (a_text x) + 1023 < 4294967296"
    and "unat (N_TXTOFF x) + unat (a_text x) + unat (a_data x) + unat (a_trsize x) + unat (a_drsize x) + unat (a_syms x) < 4294967296"
  shows "unat (N_TXTENDADDR x) = unat (N_TXTADDR x) + unat (a_text x) \<and>
    unat (N_TXTENDADDR x) \<le> unat (N_DATADDR x) \<and> unat (N_DATADDR x) \<le> unat (N_TXTENDADDR x) + 1023 \<and>
    (N_MAGIC x = OMAGIC \<and> N_DATADDR x = N_TXTENDADDR x \<or> unat (N_DATADDR x) mod 1024 = 0) \<and>
    unat (N_STROFF x) = unat (N_TXTOFF x) + unat (a_text x) + unat (a_data x) + unat (a_trsize x) + unat (a_drsize x) + unat (a_syms x) \<and>
    N_TXTOFF x \<in> {0, 32, 1024}"
proof -
  have e: "unat (N_TXTENDADDR x) = unat (N_TXTADDR x) + unat (a_text x)"
    unfolding N_TXTENDADDR_def using assms(1) by (intro unat_add_nowrap) linarith
  have "N_SEGMENT_ROUND (N_TXTENDADDR x) = (N_TXTENDADDR x + of_nat (2 ^ 10 - 1)) AND NOT (mask 10)"
    by (simp add: N_SEGMENT_ROUND_def SEGMENT_SIZE_def mask_eq_exp_minus_1 add_diff_eq [symmetric])
  moreover have "unat (N_TXTENDADDR x) + (2 ^ 10 - 1) < 4294967296" using assms(1) e by simp
  ultimately have r: "unat (N_SEGMENT_ROUND (N_TXTENDADDR x)) mod 2 ^ 10 = 0 \<and> unat (N_TXTENDADDR x) \<le> unat (N_SEGMENT_ROUND (N_TXTENDADDR x)) \<and>
      unat (N_SEGMENT_ROUND (N_TXTENDADDR x)) < unat (N_TXTENDADDR x) + 2 ^ 10"
    by (intro round_up)
  have d: "unat (N_TXTENDADDR x) \<le> unat (N_DATADDR x) \<and> unat (N_DATADDR x) \<le> unat (N_TXTENDADDR x) + 1023 \<and>
      (N_MAGIC x = OMAGIC \<and> N_DATADDR x = N_TXTENDADDR x \<or> unat (N_DATADDR x) mod 1024 = 0)"
    using r by (cases "N_MAGIC x = OMAGIC") (simp_all add: N_DATADDR_def)
  have "unat (N_DATOFF x) = unat (N_TXTOFF x) + unat (a_text x)"
    unfolding N_DATOFF_def using assms(2) by (intro unat_add_nowrap) linarith
  moreover from this have "unat (N_TRELOFF x) = unat (N_DATOFF x) + unat (a_data x)"
    unfolding N_TRELOFF_def using assms(2) by (intro unat_add_nowrap) linarith
  moreover from calculation have "unat (N_DRELOFF x) = unat (N_TRELOFF x) + unat (a_trsize x)"
    unfolding N_DRELOFF_def using assms(2) by (intro unat_add_nowrap) linarith
  moreover from calculation have "unat (N_SYMOFF x) = unat (N_DRELOFF x) + unat (a_drsize x)"
    unfolding N_SYMOFF_def using assms(2) by (intro unat_add_nowrap) linarith
  moreover from calculation have "unat (N_STROFF x) = unat (N_SYMOFF x) + unat (a_syms x)"
    unfolding N_STROFF_def using assms(2) by (intro unat_add_nowrap) linarith
  moreover have "N_TXTOFF x \<in> {0, 32, 1024}" by (simp add: N_TXTOFF_def N_HDROFF_def sizeof_exec_def)
  ultimately show ?thesis using d e by linarith
qed

section \<open>Structures of byte arrays\<close>

lemma COFF_long_orders: "length ps = 4 \<Longrightarrow> COFF_LONG_H ps = COFF_LONG_L (rev ps)"
  by (simp add: COFF_LONG_H_def COFF_LONG_L_def rev_nth)

lemma COFF_short_orders: "length ps = 2 \<Longrightarrow> COFF_SHORT_H ps = COFF_SHORT_L (rev ps)"
  by (simp add: COFF_SHORT_H_def COFF_SHORT_L_def rev_nth)

lemma COFF_long_bytes: "COFF_LONG_L (le_bytes v) = sint v"
proof -
  have "push_bit 24 (ucast (le_bytes v ! 3)) OR push_bit 16 (ucast (le_bytes v ! 2)) OR push_bit 8 (ucast (le_bytes v ! 1)) OR
      ucast (le_bytes v ! 0) = v" (is "?l = v")
  proof (rule bit_word_eqI)
    fix n assume n: "n < LENGTH(32)"
    consider "n < 8" | "8 \<le> n \<and> n < 16" | "16 \<le> n \<and> n < 24" | "24 \<le> n" by linarith
    then show "bit ?l n = bit v n" using n by cases (auto simp: le_bytes_def bit_simps)
  qed
  then show ?thesis by (simp only: COFF_LONG_L_def)
qed

lemma COFF_short_bytes: "COFF_SHORT_L (le16 v) = sint v"
  using bytes_u16 [of v] by (simp add: COFF_SHORT_L_def le16_def or.commute [of "push_bit 8 _"])

text \<open>The sizes the header writes as numbers are the sizes of its structures.\<close>

lemma COFF_sizes:
  "sizeof COFF_lineno = COFF_LINESZ" "sizeof COFF_syment = COFF_SYMESZ" "Max (set (map (sizeof \<circ> snd) COFF_auxent)) = COFF_AUXESZ"
  "sizeof COFF_reloc = COFF_RELSZ" "sizeof COFF_filehdr = 20" "sizeof COFF_AOUTHDR = 28" "sizeof COFF_scnhdr = 40"
  by (simp_all add: sizeof_def COFF_lineno_def COFF_LINESZ_def COFF_syment_def COFF_SYMESZ_def COFF_auxent_def COFF_AUXESZ_def COFF_reloc_def COFF_RELSZ_def
      COFF_filehdr_def COFF_AOUTHDR_def COFF_scnhdr_def E_SYMNMLEN_def E_FILNMLEN_def E_DIMNUM_def)

lemma member_Cons:
  assumes "f \<noteq> g"
  shows "member f ((g, n) # l) bs = member f l (drop n bs)"
  using assms by (auto simp: member_def add.commute split: option.splits)

text \<open>The members of a structure are the bytes of the structure, in order and without gaps.\<close>

lemma members_cover:
  assumes "distinct (map fst l)" "length bs = sizeof l"
  shows "concat (map (\<lambda>(f, n). the (member f l bs)) l) = bs"
  using assms
proof (induction l arbitrary: bs)
  case (Cons x l)
  obtain g n where x: "x = (g, n)" by fastforce
  define F where "F = (\<lambda>(f, k :: nat). the (member f (x # l) bs))"
  have "map F l = map (\<lambda>(f, k). the (member f l (drop n bs))) l"
    using Cons.prems(1) x by (auto simp: F_def member_Cons image_iff)
  moreover have "concat (map (\<lambda>(f, k). the (member f l (drop n bs))) l) = drop n bs"
    using Cons.prems x by (intro Cons.IH) (simp_all add: sizeof_def)
  moreover have "F x = take n bs" by (simp add: F_def x member_def)
  ultimately have "F x @ concat (map F l) = take n bs @ drop n bs" by (simp only:)
  then show ?case unfolding F_def [symmetric] by simp
qed (simp add: sizeof_def)

end
