(* ===== verification/Linux_Kernel.thy ===== *)
theory Linux_Kernel
  imports Object_Formats Port_Io
begin

text \<open>
  The inline functions and macros of \<open>include/linux/\<close> that compute: page arithmetic (\<open>page.h\<close>), checks of user
  areas and cleared pages (\<open>mm.h\<close>, \<open>sched.h\<close>), bottom halves (\<open>interrupt.h\<close>), delays (\<open>delay.h\<close>),
  descriptor sets (\<open>types.h\<close>), device numbers (\<open>fs.h\<close>), character classes (\<open>ctypes.h\<close>) and the mouse
  interrupt switches (\<open>busmouse.h\<close>). What is only declared there (\<open>__verify_write\<close>, \<open>__get_free_page\<close>,
  the table \<open>_ctype\<close>) is a parameter.
\<close>

section \<open>page.h\<close>

definition PAGE_SHIFT :: nat where "PAGE_SHIFT = 12"

definition PAGE_SIZE :: u32 where "PAGE_SIZE = push_bit PAGE_SHIFT 1"

definition PAGE_MASK :: u32 where "PAGE_MASK = NOT (PAGE_SIZE - 1)"

definition PAGE_ALIGN :: "u32 \<Rightarrow> u32" where "PAGE_ALIGN addr = (addr + PAGE_SIZE - 1) AND PAGE_MASK"

definition PTR_MASK :: u32 where "PTR_MASK = NOT (4 - 1)"

definition SIZEOF_PTR_LOG2 :: nat where "SIZEOF_PTR_LOG2 = 2"

definition PTRS_PER_PAGE :: u32 where "PTRS_PER_PAGE = PAGE_SIZE div 4"

definition PAGE_DIR_OFFSET :: "u32 \<Rightarrow> u32 \<Rightarrow> u32" where
  "PAGE_DIR_OFFSET base address = base + (drop_bit ((PAGE_SHIFT - SIZEOF_PTR_LOG2) * 2) address AND PTR_MASK AND NOT PAGE_MASK)"

definition PAGE_PTR :: "u32 \<Rightarrow> u32" where
  "PAGE_PTR address = drop_bit (PAGE_SHIFT - SIZEOF_PTR_LOG2) address AND PTR_MASK AND NOT PAGE_MASK"

definition MAP_NR :: "u32 \<Rightarrow> u32" where "MAP_NR addr = drop_bit PAGE_SHIFT addr"

section \<open>mm.h\<close>

definition TASK_SIZE :: u32 where "TASK_SIZE = 0xC0000000"

definition EFAULT :: int where "EFAULT = 14"

definition VERIFY_READ :: int where "VERIFY_READ = 0"

definition VERIFY_WRITE :: int where "VERIFY_WRITE = 1"

definition verify_area :: "(u32 \<Rightarrow> u32 \<Rightarrow> int) \<Rightarrow> bool \<Rightarrow> int \<Rightarrow> u32 \<Rightarrow> u32 \<Rightarrow> int" where
  "verify_area verify_write wp_works_ok type addr sz =
     (if TASK_SIZE \<le> addr then - EFAULT
      else if TASK_SIZE - addr < sz then - EFAULT
      else if wp_works_ok \<or> type = VERIFY_READ \<or> sz = 0 then 0
      else verify_write addr sz)"

primrec rep_stosl :: "nat \<Rightarrow> u32 \<Rightarrow> u32 \<Rightarrow> mem \<Rightarrow> mem" where
  "rep_stosl 0 v edi m = m"
| "rep_stosl (Suc n) v edi m = rep_stosl n v (edi + 4) (wr32 m edi v)"

definition get_free_page :: "(int \<Rightarrow> 'k \<Rightarrow> u32 \<times> 'k) \<Rightarrow> int \<Rightarrow> 'k \<times> mem \<Rightarrow> u32 \<times> 'k \<times> mem" where
  "get_free_page raw_page prio s =
     (let (page, k) = raw_page prio (fst s)
      in (page, k, if page \<noteq> 0 then rep_stosl 1024 0 page (snd s) else snd s))"

section \<open>interrupt.h\<close>

text \<open>The number of a bottom half is an index of \<open>bh_base\<close>, below 32.\<close>

record bh =
  bh_active :: u32
  bh_mask :: u32

definition mark_bh :: "nat \<Rightarrow> bh \<Rightarrow> bh" where "mark_bh nr s = s\<lparr>bh_active := bh_active s OR push_bit nr 1\<rparr>"

definition disable_bh :: "nat \<Rightarrow> bh \<Rightarrow> bh" where "disable_bh nr s = s\<lparr>bh_mask := bh_mask s AND NOT (push_bit nr 1)\<rparr>"

definition enable_bh :: "nat \<Rightarrow> bh \<Rightarrow> bh" where "enable_bh nr s = s\<lparr>bh_mask := bh_mask s OR push_bit nr 1\<rparr>"

section \<open>delay.h\<close>

text \<open>The number of times the loop \<open>decl; jns\<close> runs.\<close>

function delay_loops :: "u32 \<Rightarrow> nat" where
  "delay_loops loops = (let loops = loops - 1 in if 0 \<le> sint loops then Suc (delay_loops loops) else 1)"
  by pat_completeness auto
termination
proof (relation "measure unat")
  fix x y :: u32 assume y: "y = x - 1" "0 \<le> sint y"
  then have "x \<noteq> 0" by auto
  then show "(y, x) \<in> measure unat" using y unat_gt_0 [of x] by (simp add: unat_minus_one_u32)
qed simp

declare delay_loops.simps [simp del]

definition udelay_arg :: "u32 \<Rightarrow> u32 \<Rightarrow> u32" where
  "udelay_arg loops_per_sec usecs =
     (let usecs = usecs * 0x10c6 in ucast (drop_bit 32 (ucast usecs * ucast loops_per_sec :: u64)))"

definition udelay :: "u32 \<Rightarrow> u32 \<Rightarrow> nat" where
  "udelay loops_per_sec usecs = delay_loops (udelay_arg loops_per_sec usecs)"

section \<open>types.h\<close>

text \<open>The bit instructions with a register operand address the bit string that starts at the memory operand, so
  they also reach words in front of it and behind it.\<close>

definition bit_word :: "u32 \<Rightarrow> u32 \<Rightarrow> u32" where "bit_word p fd = p + of_int (sint fd div 32 * 4)"

definition bit_index :: "u32 \<Rightarrow> nat" where "bit_index fd = nat (sint fd mod 32)"

definition FD_SETSIZE :: int where "FD_SETSIZE = 8 * (8 * 4)"

definition FD_SET :: "u32 \<Rightarrow> u32 \<Rightarrow> mem \<Rightarrow> mem" where
  "FD_SET fd p m = wr32 m (bit_word p fd) (set_bit (bit_index fd) (rd32 m (bit_word p fd)))"

definition FD_CLR :: "u32 \<Rightarrow> u32 \<Rightarrow> mem \<Rightarrow> mem" where
  "FD_CLR fd p m = wr32 m (bit_word p fd) (unset_bit (bit_index fd) (rd32 m (bit_word p fd)))"

definition FD_ISSET :: "u32 \<Rightarrow> u32 \<Rightarrow> mem \<Rightarrow> bool" where
  "FD_ISSET fd p m \<longleftrightarrow> bit (rd32 m (bit_word p fd)) (bit_index fd)"

definition FD_ZERO :: "u32 \<Rightarrow> mem \<Rightarrow> mem" where "FD_ZERO p m = rep_stosl 8 0 p m"

section \<open>fs.h\<close>

definition MAJOR :: "u32 \<Rightarrow> u32" where "MAJOR a = ucast (drop_bit 8 (ucast a :: u16))"

definition MINOR :: "u32 \<Rightarrow> u32" where "MINOR a = ucast ((ucast a :: u16) AND 0xFF)"

definition MKDEV :: "u32 \<Rightarrow> u32 \<Rightarrow> u32" where "MKDEV a b = push_bit 8 (a AND 0xff) OR (b AND 0xff)"

section \<open>ctypes.h\<close>

text \<open>\<open>ctype i\<close> is element \<open>i\<close> of the table; the macros skip its first element. \<open>_ctmp\<close>, the signed
  character the case macros store their argument in, is read by nothing else and is a local value here.\<close>

definition isupper :: "(int \<Rightarrow> u8) \<Rightarrow> int \<Rightarrow> u8" where "isupper ctype c = ctype (1 + c) AND 0x01"

definition islower :: "(int \<Rightarrow> u8) \<Rightarrow> int \<Rightarrow> u8" where "islower ctype c = ctype (1 + c) AND 0x02"

definition tolower :: "(int \<Rightarrow> u8) \<Rightarrow> int \<Rightarrow> int" where
  "tolower ctype c =
     (let ctmp = sint (of_int c :: u8) in if isupper ctype ctmp \<noteq> 0 then ctmp - (65 - 97) else ctmp)"

definition toupper :: "(int \<Rightarrow> u8) \<Rightarrow> int \<Rightarrow> int" where
  "toupper ctype c =
     (let ctmp = sint (of_int c :: u8) in if islower ctype ctmp \<noteq> 0 then ctmp - (97 - 65) else ctmp)"

section \<open>busmouse.h\<close>

text \<open>The macros pass the value first; \<open>outb\<close> of \<open>kernel/include/io.h\<close> takes the port first, and narrows
  what it takes for the value to a byte.\<close>

definition MSE_INT_OFF :: "io \<Rightarrow> io" where "MSE_INT_OFF s = outb 0x10 (ucast (0x23e :: u16)) s"

definition MSE_INT_ON :: "io \<Rightarrow> io" where "MSE_INT_ON s = outb 0x00 (ucast (0x23e :: u16)) s"

definition MS_MSE_INT_OFF :: "io \<Rightarrow> io" where
  "MS_MSE_INT_OFF s = outb 0x10 (ucast (0x23d :: u16)) (outb 0x07 (ucast (0x23c :: u16)) s)"

definition MS_MSE_INT_ON :: "io \<Rightarrow> io" where
  "MS_MSE_INT_ON s = outb 0x11 (ucast (0x23d :: u16)) (outb 0x07 (ucast (0x23c :: u16)) s)"

section \<open>Lemmas\<close>

lemma PAGE_ALIGN_bounds:
  assumes "unat addr + 4095 < 4294967296"
  shows "unat (PAGE_ALIGN addr) mod 4096 = 0 \<and> unat addr \<le> unat (PAGE_ALIGN addr) \<and>
    unat (PAGE_ALIGN addr) < unat addr + 4096"
proof -
  have "PAGE_ALIGN addr = (addr + of_nat (2 ^ 12 - 1)) AND NOT (mask 12)"
    by (simp add: PAGE_ALIGN_def PAGE_MASK_def PAGE_SIZE_def PAGE_SHIFT_def mask_eq_exp_minus_1 add.commute)
  from round_up [OF _ this] assms show ?thesis by simp
qed

lemma rep_stosl_0: "rep_stosl n 0 d m = fill_up (4 * n) m d 0"
proof (induction n arbitrary: d m)
  case (Suc n)
  have "4 * Suc n = Suc (Suc (Suc (Suc (4 * n))))" by simp
  then have "fill_up (4 * Suc n) m d 0 = fill_up (4 * n) (wr32 m d 0) (d + 4) 0"
    by (simp only: fill_up.simps) (simp add: wr32_def add.assoc)
  then show ?case by (simp add: Suc)
qed simp

lemma get_free_page_clear:
  assumes "raw_page prio k = (page, k')" "page \<noteq> 0"
  shows "get_free_page raw_page prio (k, m) =
    (page, k', \<lambda>x. if in_region page (unat PAGE_SIZE) x then 0 else m x)"
  using assms by (auto simp: get_free_page_def rep_stosl_0 fill_up_apply PAGE_SIZE_def PAGE_SHIFT_def)

lemma bh_bits:
  "n < 32 \<Longrightarrow> nr < 32 \<Longrightarrow> bit (bh_active (mark_bh nr s)) n \<longleftrightarrow> n = nr \<or> bit (bh_active s) n"
  "n < 32 \<Longrightarrow> nr < 32 \<Longrightarrow> bit (bh_mask (enable_bh nr s)) n \<longleftrightarrow> n = nr \<or> bit (bh_mask s) n"
  "n < 32 \<Longrightarrow> nr < 32 \<Longrightarrow> bit (bh_mask (disable_bh nr s)) n \<longleftrightarrow> n \<noteq> nr \<and> bit (bh_mask s) n"
  by (auto simp: mark_bh_def enable_bh_def disable_bh_def bit_simps)

lemma dev_roundtrip: "MAJOR (MKDEV a b) = a AND 0xff" "MINOR (MKDEV a b) = b AND 0xff"
proof -
  have m: "(0xff :: u32) = mask 8" "(0xFF :: u16) = mask 8" by (simp_all add: mask_eq_exp_minus_1)
  show "MAJOR (MKDEV a b) = a AND 0xff" "MINOR (MKDEV a b) = b AND 0xff"
    unfolding MAJOR_def MINOR_def MKDEV_def m by (rule bit_word_eqI; auto simp: bit_simps)+
qed

lemma sint_nonneg:
  assumes "unat (x :: u32) < 2147483648"
  shows "0 \<le> sint x"
proof -
  have "int (unat x) < 2147483648" using assms by linarith
  then have "uint x < 2147483648" by (simp only: uint_nat)
  then have "uint x div 2 ^ 31 = 0" by (intro div_pos_pos_trivial) simp_all
  then have "\<not> bit (uint x) 31" by (simp add: bit_iff_odd)
  then have "0 \<le> signed_take_bit 31 (uint x)" by (simp add: signed_take_bit_nonnegative_iff)
  then show ?thesis by (simp add: sint_uint)
qed

lemma delay_loops_0: "delay_loops 0 = 1"
  by (subst delay_loops.simps) (simp add: Let_def)

lemma delay_loops_step: "0 \<le> sint (x - 1) \<Longrightarrow> delay_loops x = Suc (delay_loops (x - 1))"
  by (subst delay_loops.simps) (simp only: Let_def if_True)

lemma delay_loops_count: "unat x = n \<Longrightarrow> n < 2147483648 \<Longrightarrow> delay_loops x = Suc n"
proof (induction n arbitrary: x)
  case 0
  then have "x = 0" by (simp only: unat_eq_0)
  then show ?case by (simp only: delay_loops_0 One_nat_def)
next
  case (Suc n)
  then have "x \<noteq> 0" by auto
  then have u: "unat (x - 1) = n" using Suc.prems(1) unat_minus_one_u32 [of x] by simp
  then have "0 \<le> sint (x - 1)" using Suc.prems(2) by (intro sint_nonneg) linarith
  then show ?case using delay_loops_step [of x] Suc.IH [OF u] Suc.prems(2) by simp
qed

lemma udelay_arg_exact:
  assumes "unat usecs \<le> 1000"
  shows "unat (udelay_arg lps usecs) = unat usecs * 4294 * unat lps div 4294967296"
proof -
  let ?a = "unat usecs * 4294" and ?l = "unat lps"
  have a: "unat (usecs * 0x10c6) = ?a" using assms by (simp add: unat_word_ariths)
  have l: "?l < 4294967296" by (rule unat_u32_less)
  have "?a * ?l \<le> 4294000 * (4294967296 :: nat)" using assms less_imp_le [OF l] by (intro mult_mono) simp_all
  then have b: "?a * ?l < 18446744073709551616" by simp
  have u: "unat (ucast w :: u64) = unat w" for w :: u32
  proof -
    have "unat w < 18446744073709551616" using unat_u32_less [of w] by linarith
    then show ?thesis by (subst unsigned_ucast_eq) (simp add: take_bit_eq_mod)
  qed
  have "unat (ucast (usecs * 0x10c6) * ucast lps :: u64) = ?a * ?l mod 18446744073709551616"
    unfolding unat_word_ariths(2) [where 'a = 64] u a by simp
  then have "unat (ucast (usecs * 0x10c6) * ucast lps :: u64) = ?a * ?l" using b by (simp only: mod_less)
  then have "unat (drop_bit 32 (ucast (usecs * 0x10c6) * ucast lps :: u64)) = ?a * ?l div 4294967296"
    by (subst unat_drop_bit_eq) (simp add: drop_bit_eq_div)
  moreover have "?a * ?l div 4294967296 < 4294967296" using b by (simp add: div_less_iff_less_mult)
  ultimately show ?thesis by (simp add: udelay_arg_def Let_def unsigned_ucast_eq take_bit_eq_mod)
qed

text \<open>A delay below a millisecond never loops longer than the calibration asks for.\<close>

lemma udelay_bound:
  assumes "unat usecs \<le> 1000" "unat lps < 2147483648"
  shows "udelay lps usecs \<le> Suc (unat usecs * unat lps div 1000000)"
proof -
  let ?p = "unat usecs * unat lps"
  have "?p * 4294 div 4294967296 \<le> ?p * 4294 div 4294000000" by (intro div_le_mono2) auto
  also have "\<dots> = ?p div 1000000" using div_mult_mult2 [of 4294 ?p 1000000] by simp
  finally have le: "unat (udelay_arg lps usecs) \<le> ?p div 1000000"
    by (simp add: udelay_arg_exact [OF assms(1)] mult.commute mult.left_commute)
  have "?p \<le> 1000 * 2147483648" using assms(1) less_imp_le [OF assms(2)] by (rule mult_mono) simp_all
  then have "?p div 1000000 < 2147483648" by (simp add: div_less_iff_less_mult)
  then show ?thesis using le delay_loops_count [OF refl, of "udelay_arg lps usecs"] by (simp add: udelay_def)
qed

lemma verify_area_cases:
  "verify_area vw wp ty addr sz =
     (if unat addr < 3221225472 \<and> unat addr + unat sz \<le> 3221225472
      then if wp \<or> ty = VERIFY_READ \<or> sz = 0 then 0 else vw addr sz else - EFAULT)"
proof (cases "TASK_SIZE \<le> addr")
  case True
  then show ?thesis by (simp add: verify_area_def TASK_SIZE_def word_le_nat_alt)
next
  case False
  then have a: "unat addr < 3221225472" by (simp add: TASK_SIZE_def word_le_nat_alt)
  then have "unat (TASK_SIZE - addr) = 3221225472 - unat addr" by (simp add: TASK_SIZE_def unat_sub word_le_nat_alt)
  then have "TASK_SIZE - addr < sz \<longleftrightarrow> \<not> unat addr + unat sz \<le> 3221225472" using a by (auto simp: word_less_nat_alt)
  then show ?thesis using a False by (simp add: verify_area_def)
qed

lemma user_area_iff:
  assumes "unat addr < 3221225472"
  shows "(\<forall>x. in_region addr n x \<longrightarrow> x < TASK_SIZE) \<longleftrightarrow> unat addr + n \<le> 3221225472"
proof
  assume all: "\<forall>x. in_region addr n x \<longrightarrow> x < TASK_SIZE"
  have "unat (TASK_SIZE - addr) = 3221225472 - unat addr" using assms by (simp add: TASK_SIZE_def unat_sub word_le_nat_alt)
  then show "unat addr + n \<le> 3221225472" using all [rule_format, of TASK_SIZE] assms
    by (cases "3221225472 - unat addr < n") (simp_all add: in_region_def)
next
  assume n: "unat addr + n \<le> 3221225472"
  then show "\<forall>x. in_region addr n x \<longrightarrow> x < TASK_SIZE"
    by (simp add: in_region_flat TASK_SIZE_def word_less_nat_alt)
qed

text \<open>\<open>verify_area\<close> lets an area through exactly when it starts below \<open>TASK_SIZE\<close>, every byte of it is
  below \<open>TASK_SIZE\<close> (an area that would wrap around the address space is refused), and, for a write on a
  processor that ignores write protection in kernel mode, \<open>__verify_write\<close> accepts it.\<close>

lemma verify_area_exact:
  "verify_area vw wp ty addr sz = 0 \<longleftrightarrow>
     addr < TASK_SIZE \<and> (\<forall>x. in_region addr (unat sz) x \<longrightarrow> x < TASK_SIZE) \<and>
     (wp \<or> ty = VERIFY_READ \<or> sz = 0 \<or> vw addr sz = 0)"
proof (cases "unat addr < 3221225472")
  case True
  then have "addr < TASK_SIZE" by (simp add: TASK_SIZE_def word_less_nat_alt)
  then show ?thesis by (auto simp: verify_area_cases user_area_iff [OF True] True EFAULT_def)
next
  case False
  then have "\<not> addr < TASK_SIZE" by (simp add: TASK_SIZE_def word_less_nat_alt)
  then show ?thesis using False by (simp add: verify_area_cases EFAULT_def)
qed

definition fd_offset :: "u32 \<Rightarrow> nat" where "fd_offset fd = nat ((sint fd div 32 * 4) mod 4294967296)"

lemma bit_word_offset: "unat (bit_word p fd - p) = fd_offset fd"
proof -
  have "bit_word p fd - p = of_int (sint fd div 32 * 4)" by (simp only: bit_word_def add_diff_cancel_left')
  then have "uint (bit_word p fd - p) = sint fd div 32 * 4 mod 4294967296" by (simp only: uint_word_of_int) simp
  then show ?thesis by (simp only: unat_eq_nat_uint fd_offset_def)
qed

lemma fd_range: "- 67108864 \<le> sint (fd :: u32) div 32" "sint fd div 32 < 67108864"
proof -
  have "- 2147483648 \<le> sint fd" "sint fd < 2147483648" using sint_ge [of fd] sint_lt [of fd] by simp_all
  then show "- 67108864 \<le> sint fd div 32" "sint fd div 32 < 67108864" by linarith+
qed

lemma fd_offset_cases:
  "fd_offset fd = (if 0 \<le> sint fd then nat (sint fd div 32 * 4) else nat (4294967296 + sint fd div 32 * 4))"
proof (cases "0 \<le> sint fd")
  case True
  then have "0 \<le> sint fd div 32 * 4" "sint fd div 32 * 4 < 4294967296" using fd_range [of fd] by simp_all
  then show ?thesis using True by (simp add: fd_offset_def)
next
  case False
  then have "sint fd div 32 < 0" by (simp add: neg_imp_zdiv_neg_iff)
  then have "0 \<le> 4294967296 + sint fd div 32 * 4" "4294967296 + sint fd div 32 * 4 < 4294967296"
    using fd_range [of fd] by linarith+
  then have "(4294967296 + sint fd div 32 * 4) mod 4294967296 = 4294967296 + sint fd div 32 * 4" by (rule mod_pos_pos_trivial)
  then show ?thesis using False by (simp add: fd_offset_def)
qed

lemma fd_offset_small: "fd_offset fd < 32 \<longleftrightarrow> 0 \<le> sint fd \<and> sint fd < FD_SETSIZE"
proof (cases "0 \<le> sint fd")
  case True
  then show ?thesis by (simp add: fd_offset_cases FD_SETSIZE_def nat_less_iff) linarith
next
  case False
  then show ?thesis using fd_range [of fd] by (simp add: fd_offset_cases nat_less_iff)
qed

lemma fd_offset_aligned: "fd_offset fd \<le> 4294967292" "4 dvd fd_offset fd"
proof -
  have "(4 :: int) dvd sint fd div 32 * 4 mod 4294967296" by (simp add: dvd_mod)
  then have d: "(4 :: int) dvd int (fd_offset fd)" by (simp add: fd_offset_def)
  then show "4 dvd fd_offset fd" by (simp only: int_dvd_int_iff [symmetric]) simp
  then obtain j where j: "fd_offset fd = 4 * j" by (rule dvdE)
  have "int (fd_offset fd) < 4294967296" by (simp add: fd_offset_def)
  then have "4 * j < 4294967296" by (simp add: j)
  then have "j \<le> 1073741823" by simp
  then show "fd_offset fd \<le> 4294967292" by (simp add: j)
qed

lemma fd_word_at:
  assumes "in_region (bit_word p fd) 4 x"
  shows "fd_offset fd = unat (x - p) div 4 * 4"
proof -
  let ?d = "unat (x - bit_word p fd)"
  have d: "?d < 4" using assms by (simp add: in_region_def)
  have "x - p = (bit_word p fd - p) + (x - bit_word p fd)" by simp
  then have "unat (x - p) = unat ((bit_word p fd - p) + (x - bit_word p fd))" by (rule arg_cong)
  also have "\<dots> = fd_offset fd + ?d"
    using d fd_offset_aligned(1) [of fd] bit_word_offset [of p fd] by (subst unat_add_nowrap) linarith+
  finally have e: "unat (x - p) = fd_offset fd + ?d" .
  obtain j where j: "fd_offset fd = 4 * j" using fd_offset_aligned(2) by (rule dvdE)
  have "(4 * j + ?d) div 4 = j" using d by simp
  then show ?thesis by (simp only: e j mult.commute)
qed

lemma fd_word_region:
  assumes "in_region (bit_word p fd) 4 x"
  shows "in_region p 32 x \<longleftrightarrow> 0 \<le> sint fd \<and> sint fd < FD_SETSIZE"
proof -
  have "n < 32 \<longleftrightarrow> n div 4 * 4 < 32" for n :: nat by presburger
  then show ?thesis unfolding in_region_def fd_offset_small [symmetric] fd_word_at [OF assms] .
qed

lemma fd_words_apart:
  assumes "fd_offset fd \<noteq> fd_offset fd'"
  shows "rd32 (wr32 m (bit_word p fd) v) (bit_word p fd') = rd32 m (bit_word p fd')"
proof (rule rd32_cong)
  fix x assume "in_region (bit_word p fd') 4 x"
  then have "\<not> in_region (bit_word p fd) 4 x" using assms fd_word_at by metis
  then show "wr32 m (bit_word p fd) v x = m x" by (rule wr32_outside)
qed

lemma FD_SET_changes: "\<exists>m x. in_region (bit_word p fd) 4 x \<and> FD_SET fd p m x \<noteq> m x"
proof (rule ccontr)
  let ?w = "bit_word p fd" and ?m = "\<lambda>_. 0 :: u8"
  assume "\<not> ?thesis"
  then have "rd32 (FD_SET fd p ?m) ?w = rd32 ?m ?w" by (intro rd32_cong) blast
  moreover have "rd32 ?m ?w = 0" by (simp add: rd32_def)
  ultimately have z: "set_bit (bit_index fd) (0 :: u32) = 0" by (simp only: FD_SET_def rd32_wr32)
  have "bit_index fd < 32" by (simp add: bit_index_def nat_less_iff)
  then have "bit (set_bit (bit_index fd) (0 :: u32)) (bit_index fd)" by (simp add: bit_simps)
  then show False unfolding z by simp
qed

text \<open>C40. \<open>__FD_SET\<close> touches nothing outside the 32 bytes of the descriptor set exactly when the descriptor is at
  least 0 and below \<open>__FD_SETSIZE\<close>: the bit instruction checks nothing, so a negative descriptor or one from 256
  on changes memory in front of the set or behind it.\<close>

theorem fd_set_bounds:
  "(\<forall>m x. \<not> in_region p 32 x \<longrightarrow> FD_SET fd p m x = m x) \<longleftrightarrow> 0 \<le> sint fd \<and> sint fd < FD_SETSIZE"
proof
  assume "\<forall>m x. \<not> in_region p 32 x \<longrightarrow> FD_SET fd p m x = m x"
  with FD_SET_changes [of p fd] show "0 \<le> sint fd \<and> sint fd < FD_SETSIZE" using fd_word_region by blast
next
  assume "0 \<le> sint fd \<and> sint fd < FD_SETSIZE"
  then show "\<forall>m x. \<not> in_region p 32 x \<longrightarrow> FD_SET fd p m x = m x"
    using fd_word_region [of p fd] by (auto simp only: FD_SET_def intro!: wr32_outside)
qed

theorem fd_set_bounds_witness:
  "FD_SET 255 0x1000 (\<lambda>_. 7) 0x1020 = 7 \<and>
   (\<exists>m x. \<not> in_region 0x1000 32 x \<and> FD_SET 256 0x1000 m x \<noteq> m x) \<and>
   (\<exists>m x. \<not> in_region 0x1000 32 x \<and> FD_SET (- 1) 0x1000 m x \<noteq> m x)"
proof -
  have "\<not> in_region 0x1000 32 0x1020" by (simp add: in_region_def)
  then show ?thesis
    using fd_set_bounds [of "0x1000" 255] fd_set_bounds [of "0x1000" 256] fd_set_bounds [of "0x1000" "- 1"]
    by (auto simp: FD_SETSIZE_def)
qed

text \<open>Two descriptors never share a bit, wherever the words lie.\<close>

lemma fd_word_index:
  "fd_offset fd = fd_offset fd' \<Longrightarrow> bit_index fd = bit_index fd' \<Longrightarrow> fd = fd'"
proof -
  assume o: "fd_offset fd = fd_offset fd'" and i: "bit_index fd = bit_index fd'"
  have "sint fd mod 32 = sint fd' mod 32" using i by (simp add: bit_index_def eq_nat_nat_iff)
  moreover have "sint fd div 32 = sint fd' div 32"
  proof -
    have "0 \<le> sint f \<longleftrightarrow> fd_offset f < 2147483648" for f :: u32
      using fd_range [of f] by (auto simp: fd_offset_cases nat_less_iff)
    then have "(0 \<le> sint fd) = (0 \<le> sint fd')" by (simp add: o)
    then show ?thesis using o fd_range [of fd] fd_range [of fd']
      by (cases "0 \<le> sint fd") (simp_all add: fd_offset_cases eq_nat_nat_iff)
  qed
  ultimately have "sint fd = sint fd'" by (metis div_mult_mod_eq)
  then show "fd = fd'" by (rule signed_word_eqI)
qed

lemma bit_word_cong: "fd_offset fd = fd_offset fd' \<Longrightarrow> bit_word p fd = bit_word p fd'"
  using bit_word_offset [of p fd] bit_word_offset [of p fd'] by (metis diff_add_cancel word_unat_eq_iff)

lemma bit_index_less: "bit_index fd < 32"
  by (simp add: bit_index_def nat_less_iff)

lemma fd_cases:
  obtains "fd' = fd" | "fd' \<noteq> fd" "bit_word p fd' = bit_word p fd" "bit_index fd' \<noteq> bit_index fd"
    | "fd' \<noteq> fd" "fd_offset fd \<noteq> fd_offset fd'"
  using fd_word_index [of fd' fd] bit_word_cong [of fd' fd p] by fastforce

lemma FD_ISSET_FD_SET: "FD_ISSET fd' p (FD_SET fd p m) \<longleftrightarrow> fd' = fd \<or> FD_ISSET fd' p m"
  using bit_index_less [of fd] by (cases rule: fd_cases [where fd = fd and fd' = fd' and p = p])
    (simp_all add: FD_ISSET_def FD_SET_def bit_set_bit_iff bit_or_iff fd_words_apart)

lemma FD_ISSET_FD_CLR: "FD_ISSET fd' p (FD_CLR fd p m) \<longleftrightarrow> fd' \<noteq> fd \<and> FD_ISSET fd' p m"
  by (cases rule: fd_cases [where fd = fd and fd' = fd' and p = p]) (simp_all add: FD_ISSET_def FD_CLR_def bit_unset_bit_iff fd_words_apart)

lemma FD_ISSET_FD_ZERO:
  assumes "0 \<le> sint fd" "sint fd < FD_SETSIZE"
  shows "\<not> FD_ISSET fd p (FD_ZERO p m)"
proof -
  have "rd32 (FD_ZERO p m) (bit_word p fd) = rd32 (\<lambda>_. 0) (bit_word p fd)"
    using assms by (intro rd32_cong) (simp add: FD_ZERO_def rep_stosl_0 fill_up_apply fd_word_region)
  then show ?thesis by (simp add: FD_ISSET_def rd32_def)
qed

subsection \<open>Characters and the mouse\<close>

text \<open>With a table that marks exactly the ASCII letters, the case macros undo each other on them.\<close>

lemma case_roundtrip:
  assumes "\<And>c. isupper ctype c \<noteq> 0 \<longleftrightarrow> 65 \<le> c \<and> c \<le> 90" "\<And>c. islower ctype c \<noteq> 0 \<longleftrightarrow> 97 \<le> c \<and> c \<le> 122"
  shows "65 \<le> c \<Longrightarrow> c \<le> 90 \<Longrightarrow> toupper ctype (tolower ctype c) = c"
    and "97 \<le> c \<Longrightarrow> c \<le> 122 \<Longrightarrow> tolower ctype (toupper ctype c) = c"
proof -
  have s: "sint (of_int c :: u8) = c" if "0 \<le> c" "c < 128" for c
    using that by (simp add: sint_sbintrunc' signed_take_bit_int_eq_self)
  have l: "tolower ctype c = c + 32" if "65 \<le> c" "c \<le> 90" for c using that s [of c] assms(1) by (simp add: tolower_def Let_def)
  have u: "toupper ctype c = c - 32" if "97 \<le> c" "c \<le> 122" for c using that s [of c] assms(2) by (simp add: toupper_def Let_def)
  show "toupper ctype (tolower ctype c) = c" if "65 \<le> c" "c \<le> 90" using that l [of c] u [of "c + 32"] by simp
  show "tolower ctype (toupper ctype c) = c" if "97 \<le> c" "c \<le> 122" using that u [of c] l [of "c - 32"] by simp
qed

text \<open>The switches write to ports 0x00, 0x07, 0x10 and 0x11 and never to a mouse port.\<close>

lemma mouse_ports:
  "io_log (MSE_INT_OFF s) = io_log s @ [Out8 0x10 0x3e]"
  "io_log (MSE_INT_ON s) = io_log s @ [Out8 0x00 0x3e]"
  "io_log (MS_MSE_INT_OFF s) = io_log s @ [Out8 0x07 0x3c, Out8 0x10 0x3d]"
  "io_log (MS_MSE_INT_ON s) = io_log s @ [Out8 0x07 0x3c, Out8 0x11 0x3d]"
  by (simp_all add: MSE_INT_OFF_def MSE_INT_ON_def MS_MSE_INT_OFF_def MS_MSE_INT_ON_def outb_def)

end
