(* ===== verification/Tables.thy ===== *)
theory Tables
  imports Prelude
begin

text \<open>
  The constant tables \<open>core/logo.c\<close> (palette and pixels of the boot logo) and \<open>include/graphics/font.h\<close>
  (the 8x8 font). No code of the tree reads them; what a reader of them relies on is that they have their declared sizes,
  that the palette fits the six bits of the VGA converter and that every character has a glyph of its own.
\<close>

section \<open>logo.c\<close>

definition ZYTHOS_LOGO_WIDTH :: nat where "ZYTHOS_LOGO_WIDTH = 30"

definition ZYTHOS_LOGO_HEIGHT :: nat where "ZYTHOS_LOGO_HEIGHT = 30"

definition zythos_logo_palette :: "u8 list list" where
  "zythos_logo_palette = [
    [63, 63, 63], [63, 63, 63], [63, 63, 63], [63, 63, 63], [63, 63, 63], [63, 63, 63], [63, 63, 63], [63, 63, 63],
    [63, 63, 63], [63, 63, 63], [63, 63, 63], [63, 63, 63], [63, 63, 63], [62, 63, 63], [62, 63, 63], [62, 63, 63],
    [62, 63, 63], [62, 63, 62], [61, 63, 62], [61, 63, 62], [62, 62, 62], [62, 62, 62], [60, 63, 62], [59, 62, 60],
    [58, 62, 60], [58, 62, 60], [57, 62, 60], [56, 62, 59], [57, 62, 59], [51, 62, 57], [61, 61, 61], [60, 61, 61],
    [60, 61, 61], [58, 61, 60], [57, 62, 59], [56, 62, 59], [56, 61, 59], [55, 61, 59], [54, 62, 58], [54, 61, 58],
    [53, 61, 57], [52, 61, 57], [48, 61, 55], [50, 60, 55], [48, 60, 54], [55, 58, 57], [53, 59, 56], [56, 56, 56],
    [49, 56, 53], [56, 55, 55], [50, 55, 53], [48, 55, 51], [48, 55, 51], [54, 54, 54], [54, 53, 53], [52, 53, 53],
    [48, 52, 50], [51, 51, 51], [48, 49, 49], [48, 48, 48], [47, 60, 54], [46, 60, 53], [45, 59, 53], [46, 59, 53],
    [46, 59, 52], [44, 60, 52], [45, 59, 52], [43, 58, 51], [42, 58, 50], [40, 59, 50], [41, 58, 50], [37, 58, 48],
    [38, 58, 48], [38, 57, 48], [37, 57, 47], [36, 57, 47], [36, 57, 47], [36, 56, 46], [47, 56, 52], [46, 54, 50],
    [44, 53, 49], [41, 55, 48], [36, 54, 45], [46, 50, 48], [37, 50, 44], [37, 49, 43], [34, 56, 46], [33, 56, 45],
    [32, 55, 44], [31, 55, 44], [30, 55, 43], [34, 49, 42], [32, 49, 41], [31, 50, 41], [29, 55, 42], [28, 55, 42],
    [22, 53, 37], [26, 51, 39], [21, 52, 36], [20, 53, 37], [19, 52, 37], [18, 52, 36], [19, 52, 35], [18, 52, 35],
    [18, 51, 35], [16, 51, 34], [15, 51, 33], [13, 50, 31], [10, 50, 31], [9, 50, 31], [9, 49, 29], [8, 49, 28],
    [8, 49, 29], [0, 53, 27], [0, 52, 26], [0, 50, 26], [0, 49, 25], [0, 49, 25], [2, 49, 25], [0, 49, 25],
    [5, 48, 27], [4, 48, 27], [4, 48, 26], [0, 48, 25], [0, 48, 24], [46, 48, 47], [45, 45, 45], [36, 44, 40],
    [27, 47, 37], [26, 45, 36], [27, 38, 32], [24, 44, 35], [21, 43, 33], [19, 41, 30], [15, 40, 28], [15, 39, 27],
    [14, 40, 27], [13, 39, 26], [11, 38, 25], [8, 38, 24], [9, 38, 24], [8, 40, 24], [7, 39, 24], [8, 38, 24],
    [2, 48, 26], [2, 47, 24], [1, 47, 25], [1, 47, 23], [1, 46, 24], [2, 44, 24], [5, 43, 25], [4, 42, 24],
    [3, 42, 24], [2, 44, 24], [2, 43, 23], [5, 42, 24], [7, 40, 24], [6, 40, 23], [5, 42, 24], [1, 40, 21],
    [4, 38, 22], [0, 48, 25], [0, 48, 24], [0, 48, 25], [0, 48, 24], [0, 48, 25], [0, 48, 24], [0, 47, 24],
    [0, 47, 24], [0, 47, 24], [0, 47, 24], [1, 47, 25], [0, 47, 24], [0, 47, 24], [0, 47, 23], [0, 46, 23],
    [0, 46, 22], [0, 46, 22], [0, 45, 23], [0, 46, 21], [0, 46, 20], [0, 45, 23], [0, 45, 20], [0, 45, 20],
    [0, 45, 19], [0, 45, 18], [0, 44, 22], [0, 44, 21], [0, 43, 22], [0, 42, 22], [0, 42, 21], [0, 41, 21],
    [0, 40, 21], [18, 37, 28], [10, 37, 24], [10, 37, 24], [10, 37, 24], [9, 37, 24], [9, 37, 24], [9, 37, 24],
    [9, 37, 23], [9, 36, 23], [8, 37, 23], [8, 37, 23], [8, 37, 23], [8, 36, 23], [7, 36, 22], [8, 36, 22],
    [7, 35, 22], [6, 37, 22], [6, 36, 22], [6, 36, 22], [6, 36, 21], [5, 36, 21], [6, 35, 21], [5, 35, 21],
    [5, 35, 21], [5, 35, 20], [5, 35, 20], [4, 35, 20], [4, 35, 20], [5, 35, 20], [4, 35, 20], [0, 37, 19],
    [0, 34, 18], [30, 31, 31], [28, 27, 27], [26, 25, 26], [27, 24, 25], [20, 25, 23], [16, 31, 24], [6, 31, 19],
    [14, 27, 21], [9, 24, 17], [5, 34, 20], [4, 31, 18], [0, 33, 17], [0, 28, 15], [0, 26, 13], [0, 26, 13],
    [0, 24, 13], [0, 23, 8], [23, 22, 22], [9, 21, 15], [8, 19, 14], [3, 21, 12], [15, 14, 15], [15, 12, 13],
    [7, 12, 10], [1, 20, 11], [0, 15, 8], [0, 15, 8], [0, 15, 7], [0, 14, 7], [0, 14, 7], [1, 13, 7]]"

definition zythos_logo_pixels :: "u8 list" where
  "zythos_logo_pixels = [
    0, 0, 0, 0, 0, 0, 0, 0, 0, 0, 0, 0, 0, 0, 0, 0, 0, 0, 0, 0, 0, 0, 0, 0, 0, 0, 0, 0, 0, 0,
    0, 0, 0, 0, 0, 0, 0, 0, 0, 0, 0, 0, 0, 0, 0, 0, 0, 0, 0, 0, 0, 0, 0, 0, 0, 0, 0, 0, 0, 0,
    0, 0, 0, 0, 0, 0, 0, 0, 0, 0, 0, 0, 1, 3, 6, 6, 3, 1, 0, 0, 0, 0, 0, 0, 0, 0, 0, 0, 0, 0,
    0, 0, 0, 0, 0, 0, 0, 0, 0, 0, 3, 13, 0, 0, 0, 0, 0, 0, 13, 3, 0, 0, 0, 0, 0, 0, 0, 0, 0, 0,
    0, 0, 0, 0, 0, 0, 0, 0, 0, 8, 0, 0, 3, 28, 43, 43, 26, 3, 0, 0, 8, 0, 0, 0, 0, 0, 0, 0, 0, 0,
    0, 0, 0, 0, 0, 0, 0, 0, 3, 0, 34, 90, 112, 168, 163, 174, 177, 112, 90, 28, 0, 0, 0, 0, 0, 0, 0, 0, 0, 0,
    0, 0, 0, 0, 0, 0, 0, 2, 0, 73, 145, 176, 99, 97, 97, 70, 72, 103, 177, 145, 77, 14, 4, 0, 0, 0, 0, 0, 0, 0,
    0, 0, 0, 0, 0, 1, 3, 1, 94, 182, 102, 38, 48, 134, 138, 131, 79, 21, 27, 103, 100, 0, 0, 2, 0, 0, 0, 0, 0, 0,
    0, 0, 0, 0, 0, 8, 2, 74, 185, 88, 0, 84, 210, 211, 205, 215, 219, 136, 85, 46, 0, 76, 86, 0, 3, 0, 0, 0, 0, 0,
    0, 0, 0, 0, 0, 2, 0, 25, 70, 32, 131, 222, 201, 143, 157, 156, 139, 207, 220, 202, 128, 105, 174, 40, 1, 7, 0, 0, 0, 0,
    0, 0, 0, 0, 2, 0, 94, 75, 45, 136, 215, 197, 151, 172, 166, 166, 172, 158, 199, 203, 211, 78, 121, 96, 0, 8, 0, 0, 0, 0,
    0, 0, 5, 11, 10, 23, 167, 104, 135, 216, 195, 152, 161, 170, 170, 169, 166, 124, 151, 194, 219, 50, 95, 146, 24, 10, 15, 5, 0, 0,
    0, 0, 0, 0, 0, 42, 162, 65, 133, 206, 141, 119, 116, 119, 119, 161, 169, 173, 123, 142, 216, 80, 29, 183, 42, 0, 0, 0, 0, 0,
    0, 0, 47, 55, 49, 92, 188, 51, 128, 234, 160, 189, 192, 191, 191, 186, 119, 115, 178, 155, 231, 130, 52, 124, 82, 54, 53, 30, 0, 0,
    5, 0, 59, 225, 247, 243, 154, 229, 233, 255, 235, 223, 251, 252, 224, 250, 239, 236, 250, 240, 255, 230, 226, 238, 244, 242, 242, 126, 0, 10,
    10, 0, 126, 247, 228, 130, 175, 63, 246, 245, 150, 114, 237, 238, 113, 253, 240, 236, 254, 245, 255, 230, 227, 241, 232, 228, 246, 225, 0, 12,
    5, 0, 54, 58, 55, 125, 187, 69, 83, 217, 200, 148, 186, 188, 165, 190, 123, 114, 159, 199, 231, 233, 58, 65, 56, 59, 57, 21, 0, 0,
    0, 0, 0, 0, 0, 0, 109, 108, 48, 209, 195, 143, 171, 117, 164, 116, 164, 181, 141, 205, 209, 93, 71, 36, 0, 0, 0, 0, 0, 0,
    0, 0, 5, 10, 16, 9, 67, 70, 32, 138, 222, 207, 140, 155, 149, 153, 158, 139, 208, 204, 80, 67, 184, 73, 10, 20, 12, 0, 0, 0,
    0, 0, 0, 0, 0, 2, 0, 19, 96, 74, 85, 137, 218, 214, 201, 198, 196, 221, 136, 45, 38, 147, 105, 6, 3, 1, 0, 0, 0, 0,
    0, 0, 0, 0, 0, 3, 7, 39, 120, 122, 61, 31, 80, 132, 204, 213, 212, 128, 21, 62, 147, 111, 34, 0, 3, 0, 0, 0, 0, 0,
    0, 0, 0, 0, 0, 0, 3, 0, 35, 107, 180, 101, 44, 28, 78, 129, 92, 60, 100, 180, 107, 37, 0, 3, 0, 0, 0, 0, 0, 0,
    0, 0, 0, 0, 0, 0, 0, 6, 0, 18, 87, 121, 179, 144, 111, 60, 40, 182, 121, 87, 17, 0, 6, 0, 0, 0, 0, 0, 0, 0,
    0, 0, 0, 0, 0, 0, 0, 0, 3, 0, 0, 22, 64, 89, 98, 63, 20, 66, 22, 0, 0, 3, 0, 0, 0, 0, 0, 0, 0, 0,
    0, 0, 0, 0, 0, 0, 0, 0, 0, 1, 8, 0, 0, 0, 0, 0, 0, 0, 0, 8, 1, 0, 0, 0, 0, 0, 0, 0, 0, 0,
    0, 0, 0, 0, 0, 0, 0, 0, 0, 0, 0, 2, 8, 8, 8, 2, 0, 8, 2, 0, 0, 0, 0, 0, 0, 0, 0, 0, 0, 0,
    0, 0, 0, 0, 0, 0, 0, 0, 0, 0, 0, 0, 0, 0, 0, 0, 0, 0, 0, 0, 0, 0, 0, 0, 0, 0, 0, 0, 0, 0,
    0, 0, 0, 0, 0, 0, 0, 0, 0, 0, 0, 0, 0, 0, 0, 0, 0, 0, 0, 0, 0, 0, 0, 0, 0, 0, 0, 0, 0, 0,
    0, 0, 0, 0, 0, 0, 0, 0, 0, 0, 0, 0, 0, 0, 0, 0, 0, 0, 0, 0, 0, 0, 0, 0, 0, 0, 0, 0, 0, 0,
    0, 0, 0, 0, 0, 0, 0, 0, 0, 0, 0, 0, 0, 0, 0, 0, 0, 0, 0, 0, 0, 0, 0, 0, 0, 0, 0, 0, 0, 0]"

section \<open>font.h\<close>

text \<open>An initialiser that is shorter than its array is filled up with zeros.\<close>

definition glyph :: "u8 list \<Rightarrow> u8 list" where "glyph rows = rows @ replicate (8 - length rows) 0"

definition font8x8_basic :: "u8 list list" where
  "font8x8_basic = map glyph ([
    [0x0], [0x0], [0x0], [0x0], [0x0], [0x0], [0x0], [0x0], [0x0], [0x0], [0x0], [0x0], [0x0], [0x0], [0x0], [0x0],
    [0x0], [0x0], [0x0], [0x0], [0x0], [0x0], [0x0], [0x0], [0x0], [0x0], [0x0], [0x0], [0x0], [0x0], [0x0], [0x0]] @ [
    [0x00, 0x00, 0x00, 0x00, 0x00, 0x00, 0x00, 0x00], [0x18, 0x18, 0x18, 0x18, 0x18, 0x00, 0x18, 0x00],
    [0x66, 0x66, 0x22, 0x00, 0x00, 0x00, 0x00, 0x00], [0x6C, 0x6C, 0xFE, 0x6C, 0xFE, 0x6C, 0x6C, 0x00],
    [0x18, 0x3E, 0x60, 0x3C, 0x06, 0x7C, 0x18, 0x00], [0x00, 0xC6, 0xCC, 0x18, 0x30, 0x66, 0xC6, 0x00],
    [0x38, 0x6C, 0x38, 0x76, 0xDC, 0xCC, 0x76, 0x00], [0x18, 0x18, 0x30, 0x00, 0x00, 0x00, 0x00, 0x00],
    [0x0C, 0x18, 0x30, 0x30, 0x30, 0x18, 0x0C, 0x00], [0x30, 0x18, 0x0C, 0x0C, 0x0C, 0x18, 0x30, 0x00],
    [0x00, 0x66, 0x3C, 0xFF, 0x3C, 0x66, 0x00, 0x00], [0x00, 0x18, 0x18, 0x7E, 0x18, 0x18, 0x00, 0x00],
    [0x00, 0x00, 0x00, 0x00, 0x00, 0x18, 0x18, 0x30], [0x00, 0x00, 0x00, 0x7E, 0x00, 0x00, 0x00, 0x00],
    [0x00, 0x00, 0x00, 0x00, 0x00, 0x18, 0x18, 0x00], [0x00, 0x06, 0x0C, 0x18, 0x30, 0x60, 0xC0, 0x00],
    [0x3C, 0x66, 0x6E, 0x76, 0x66, 0x66, 0x3C, 0x00], [0x18, 0x18, 0x38, 0x18, 0x18, 0x18, 0x7E, 0x00],
    [0x3C, 0x66, 0x06, 0x0C, 0x30, 0x60, 0x7E, 0x00], [0x3C, 0x66, 0x06, 0x1C, 0x06, 0x66, 0x3C, 0x00],
    [0x06, 0x0E, 0x1E, 0x36, 0x66, 0x7F, 0x06, 0x00], [0x7E, 0x60, 0x7C, 0x06, 0x06, 0x66, 0x3C, 0x00],
    [0x3C, 0x66, 0x60, 0x7C, 0x66, 0x66, 0x3C, 0x00], [0x7E, 0x06, 0x0C, 0x18, 0x30, 0x30, 0x30, 0x00],
    [0x3C, 0x66, 0x66, 0x3C, 0x66, 0x66, 0x3C, 0x00], [0x3C, 0x66, 0x66, 0x3E, 0x06, 0x66, 0x3C, 0x00],
    [0x00, 0x18, 0x18, 0x00, 0x00, 0x18, 0x18, 0x00], [0x00, 0x18, 0x18, 0x00, 0x00, 0x18, 0x18, 0x30],
    [0x0C, 0x18, 0x30, 0x60, 0x30, 0x18, 0x0C, 0x00], [0x00, 0x00, 0x7E, 0x00, 0x7E, 0x00, 0x00, 0x00],
    [0x30, 0x18, 0x0C, 0x06, 0x0C, 0x18, 0x30, 0x00], [0x3C, 0x66, 0x06, 0x0C, 0x18, 0x00, 0x18, 0x00],
    [0x3C, 0x66, 0x6E, 0x6A, 0x68, 0x60, 0x3C, 0x00], [0x18, 0x3C, 0x66, 0x66, 0x7E, 0x66, 0x66, 0x00],
    [0x7C, 0x66, 0x66, 0x7C, 0x66, 0x66, 0x7C, 0x00], [0x3C, 0x66, 0x60, 0x60, 0x60, 0x66, 0x3C, 0x00],
    [0x78, 0x6C, 0x66, 0x66, 0x66, 0x6C, 0x78, 0x00], [0x7E, 0x60, 0x60, 0x7C, 0x60, 0x60, 0x7E, 0x00],
    [0x7E, 0x60, 0x60, 0x7C, 0x60, 0x60, 0x60, 0x00], [0x3C, 0x66, 0x60, 0x6E, 0x66, 0x66, 0x3C, 0x00],
    [0x66, 0x66, 0x66, 0x7E, 0x66, 0x66, 0x66, 0x00], [0x3C, 0x18, 0x18, 0x18, 0x18, 0x18, 0x3C, 0x00],
    [0x06, 0x06, 0x06, 0x06, 0x06, 0x66, 0x3C, 0x00], [0x66, 0x6C, 0x78, 0x70, 0x78, 0x6C, 0x66, 0x00],
    [0x60, 0x60, 0x60, 0x60, 0x60, 0x60, 0x7E, 0x00], [0x63, 0x77, 0x7F, 0x6B, 0x63, 0x63, 0x63, 0x00],
    [0x66, 0x76, 0x7E, 0x7E, 0x6E, 0x66, 0x66, 0x00], [0x3C, 0x66, 0x66, 0x66, 0x66, 0x66, 0x3C, 0x00],
    [0x7C, 0x66, 0x66, 0x7C, 0x60, 0x60, 0x60, 0x00], [0x3C, 0x66, 0x66, 0x66, 0x6A, 0x3C, 0x0E, 0x00],
    [0x7C, 0x66, 0x66, 0x7C, 0x78, 0x6C, 0x66, 0x00], [0x3C, 0x66, 0x60, 0x3C, 0x06, 0x66, 0x3C, 0x00],
    [0x7E, 0x18, 0x18, 0x18, 0x18, 0x18, 0x18, 0x00], [0x66, 0x66, 0x66, 0x66, 0x66, 0x66, 0x3C, 0x00],
    [0x66, 0x66, 0x66, 0x66, 0x66, 0x3C, 0x18, 0x00], [0x63, 0x63, 0x63, 0x6B, 0x7F, 0x77, 0x63, 0x00],
    [0x66, 0x66, 0x3C, 0x18, 0x3C, 0x66, 0x66, 0x00], [0x66, 0x66, 0x66, 0x3C, 0x18, 0x18, 0x18, 0x00],
    [0x7E, 0x06, 0x0C, 0x18, 0x30, 0x60, 0x7E, 0x00], [0x1E, 0x18, 0x18, 0x18, 0x18, 0x18, 0x1E, 0x00],
    [0x00, 0xC0, 0x60, 0x30, 0x18, 0x0C, 0x06, 0x00], [0x78, 0x18, 0x18, 0x18, 0x18, 0x18, 0x78, 0x00],
    [0x08, 0x1C, 0x36, 0x63, 0x00, 0x00, 0x00, 0x00], [0x00, 0x00, 0x00, 0x00, 0x00, 0x00, 0x00, 0xFF],
    [0x18, 0x0C, 0x06, 0x00, 0x00, 0x00, 0x00, 0x00], [0x00, 0x00, 0x3C, 0x06, 0x3E, 0x66, 0x3E, 0x00],
    [0x60, 0x60, 0x7C, 0x66, 0x66, 0x66, 0x7C, 0x00], [0x00, 0x00, 0x3C, 0x66, 0x60, 0x66, 0x3C, 0x00],
    [0x06, 0x06, 0x3E, 0x66, 0x66, 0x66, 0x3E, 0x00], [0x00, 0x00, 0x3C, 0x66, 0x7E, 0x60, 0x3C, 0x00],
    [0x0C, 0x18, 0x18, 0x3E, 0x18, 0x18, 0x18, 0x00], [0x00, 0x00, 0x3E, 0x66, 0x66, 0x3E, 0x06, 0x3C],
    [0x60, 0x60, 0x7C, 0x66, 0x66, 0x66, 0x66, 0x00], [0x18, 0x00, 0x38, 0x18, 0x18, 0x18, 0x3C, 0x00],
    [0x06, 0x00, 0x06, 0x06, 0x06, 0x06, 0x3C, 0x00], [0x60, 0x60, 0x66, 0x6C, 0x78, 0x6C, 0x66, 0x00],
    [0x38, 0x18, 0x18, 0x18, 0x18, 0x18, 0x3C, 0x00], [0x00, 0x00, 0x76, 0x7F, 0x6B, 0x6B, 0x63, 0x00],
    [0x00, 0x00, 0x7C, 0x66, 0x66, 0x66, 0x66, 0x00], [0x00, 0x00, 0x3C, 0x66, 0x66, 0x66, 0x3C, 0x00],
    [0x00, 0x00, 0x7C, 0x66, 0x66, 0x7C, 0x60, 0x60], [0x00, 0x00, 0x3E, 0x66, 0x66, 0x3E, 0x06, 0x06],
    [0x00, 0x00, 0x5C, 0x62, 0x60, 0x60, 0x60, 0x00], [0x00, 0x00, 0x3C, 0x60, 0x3C, 0x06, 0x3C, 0x00],
    [0x10, 0x10, 0x3E, 0x10, 0x10, 0x10, 0x0C, 0x00], [0x00, 0x00, 0x66, 0x66, 0x66, 0x66, 0x3E, 0x00],
    [0x00, 0x00, 0x66, 0x66, 0x66, 0x3C, 0x18, 0x00], [0x00, 0x00, 0x63, 0x6B, 0x7F, 0x3E, 0x36, 0x00],
    [0x00, 0x00, 0x66, 0x3C, 0x18, 0x3C, 0x66, 0x00], [0x00, 0x00, 0x66, 0x66, 0x66, 0x3E, 0x06, 0x3C],
    [0x00, 0x00, 0x7E, 0x0C, 0x18, 0x30, 0x7E, 0x00], [0x0E, 0x18, 0x18, 0x70, 0x18, 0x18, 0x0E, 0x00],
    [0x18, 0x18, 0x18, 0x00, 0x18, 0x18, 0x18, 0x00], [0x70, 0x18, 0x18, 0x0E, 0x18, 0x18, 0x70, 0x00],
    [0x76, 0xDC, 0x00, 0x00, 0x00, 0x00, 0x00, 0x00], [0x00, 0x00, 0x00, 0x00, 0x00, 0x00, 0x00, 0x00]])"

section \<open>Sizes and ranges\<close>

lemma logo_size: "length zythos_logo_pixels = ZYTHOS_LOGO_WIDTH * ZYTHOS_LOGO_HEIGHT"
  by code_simp

lemma palette_size: "length zythos_logo_palette = 256"
  by code_simp

lemma palette_six_bits: "\<forall>c \<in> set zythos_logo_palette. length c = 3 \<and> (\<forall>v \<in> set c. v < 64)"
  by code_simp

text \<open>Every pixel is the index of a colour.\<close>

lemma logo_colours: "p \<in> set zythos_logo_pixels \<Longrightarrow> unat p < length zythos_logo_palette"
  using unsigned_less [of p] by (simp add: palette_size)

lemma font_size: "length font8x8_basic = 128" "\<forall>g \<in> set font8x8_basic. length g = 8"
  by code_simp+

text \<open>The graphic characters, from the exclamation mark to the tilde, look different from each other and from the blank.\<close>

lemma glyphs_distinct: "distinct (take 95 (drop 32 font8x8_basic))"
  by code_simp

end
