(* ===== verification/Spec2Isabelle.thy ===== *)
theory Spec2Isabelle
  imports Mm_Malloc Kernel_Input Panic Boot Init Pkg Ne2000 E1000 Hfs Zsh Syscalls Fat32 Exec Context_Switch
    Stage2 Irq_Stub Linux_Kernel Tables
begin

text \<open>
  Zythos: a verification library for the kernel and its user programs.

  \<^bold>\<open>The program.\<close> Zythos is a small operating system in C for 32-bit x86. The boot sector
  (\<open>arch/x86-64/main.asm\<close>) loads a second stage, which loads the kernel. \<open>kernel/main.c\<close> brings up the
  heap (\<open>mm/\<close>), the serial line and the virtual file system, and loads \<open>init.elf\<close> with the ELF
  loader (\<open>drivers/loader.c\<close>). The keyboard interrupt decodes scan codes (\<open>input/\<close>) into a ring
  buffer that the read system call empties. \<open>init/\<close> has a cooperative scheduler and a supervisor.
  \<open>userland/\<close> has the shell, the command table and the package manager; \<open>net/\<close> has a frame
  layer, one TCP connection and two card drivers.

  \<^bold>\<open>Conventions.\<close> Pointers and \<open>uint32_t\<close> are 32-bit words that wrap. Memory is a function from
  addresses to bytes (theory \<open>Memory\<close>). C strings are byte lists that read as NUL past their end
  (\<open>Cstring\<close>). Global variables of a file are a record; an operation takes and returns it. Errors
  are the results the code returns; a read or write the C code must not do is a value of an option or sum
  type. Port accesses are logged, and a device is any function from the log to the value a port shows
  (\<open>Port_Io\<close>). Code that is not in the tree is a parameter.

  \<^bold>\<open>Theories and sources.\<close>
  \<^item> \<open>Prelude\<close>, \<open>Memory\<close>, \<open>Cstring\<close>, \<open>Port_Io\<close>, \<open>Sys_Io\<close>: integer types, reachability and the locale
    \<open>invariant\<close>, memory, strings, ports and the serial line (\<open>kernel/include/io.h\<close>, \<open>serial.h\<close>,
    \<open>kernel/write_override.c\<close>), printing (\<open>init/include/sys_io.h\<close>).
  \<^item> \<open>Mm_Blocks\<close>, \<open>Mm_Spec\<close>, \<open>Mm_Heap\<close>, \<open>Mm_Malloc\<close>: \<open>mm/blocks.c\<close>, \<open>heap.c\<close>, \<open>malloc.c\<close>. The locales
    \<open>allocator\<close> and \<open>block_heap\<close> are the contract; both allocators are interpreted (\<open>heap_c\<close>,
    \<open>malloc_c\<close>). Shown: the heap stays a coalesced block list, payloads are disjoint and keep
    their bytes, both allocators agree, \<open>krealloc\<close> keeps contents, and where it does not.
  \<^item> \<open>Kbd_Buffer\<close>, \<open>Keycodes\<close>, \<open>Keymap\<close>, \<open>Keyboard\<close>, \<open>Kernel_Input\<close>: \<open>kernel/kbd_buffer.c\<close>,
    \<open>input/\<close>, \<open>kernel/keyboard_irq.c\<close>, \<open>kernel/syscall.c\<close>. Shown: the ring is a queue of 127 characters
    (locale \<open>bounded_queue\<close>), layouts and dead keys, modifier bits over any history of keys,
    and what reaches a reader.
  \<^item> \<open>Boot_Sector\<close>, \<open>Stage2\<close>, \<open>Irq_Stub\<close>: \<open>arch/x86-64/main.asm\<close>, \<open>stage2/\<close> and \<open>irq1.asm\<close>, on registers and
    memory. The BIOS is a function from a call to its carry flag, registers and memory. Shown: the disk
    address stays in the geometry, a read ends on every BIOS, the chain from the first sector to the call of the
    kernel arrives, and an interrupt leaves the interrupted program as it was.
  \<^item> \<open>Pic\<close>, \<open>Panic\<close>, \<open>Boot\<close>: \<open>kernel/pic.c\<close>, \<open>core/panic.c\<close>, \<open>restart.c\<close>, \<open>shutdown.c\<close>, \<open>kernel/main.c\<close>.
    Shown: the controllers after remapping, the text of a panic, how \<open>main\<close> ends.
  \<^item> \<open>Vfs\<close>, \<open>Elf_Loader\<close>, \<open>Hfs\<close>, \<open>Fat32\<close>: \<open>kernel/vfs.c\<close>, \<open>drivers/loader.c\<close>, \<open>drivers/hfs/\<close>,
    \<open>fs/fat32/core.c\<close>. Shown: write and read round trip, \<open>vfs_mkdir\<close> (locale \<open>directory\<close>), the loader
    against the list of segments of an image, well-formed object trees, the layout of a mounted volume.
  \<^item> \<open>Sched\<close>, \<open>Context_Switch\<close>, \<open>Init\<close>: \<open>init/\<close> and \<open>arch/x86-64/context_switch.asm\<close>. Shown: the
    scheduler invariant, the choice of \<open>sys_yield\<close>, new tasks, starvation, that a task that switched
    away is resumed with its registers, the console task and the supervisor.
  \<^item> \<open>Register\<close>, \<open>Pkg\<close>, \<open>Zsh_Args\<close>, \<open>Zsh\<close>: \<open>userland/register.c\<close>, \<open>pkg.c\<close>, \<open>zsh.c\<close>. Shown: the
    command table is a bounded map (locale \<open>bounded_map\<close>), the package file round trip, the argument
    parser against a reference reader, the environment, and that the shell returns.
  \<^item> \<open>Network\<close>, \<open>Tcp\<close>, \<open>Ne2000\<close>, \<open>E1000\<close>: \<open>net/\<close>. The locale \<open>transmitter\<close> is what TCP relies on; the
    NE2000 driver is its interpretation. Shown: data sent is data received, the frames of a
    session on the wire, when a received length leaves the buffer, the register programming of
    the E1000.
  \<^item> \<open>Syscalls\<close>, \<open>Exec\<close>: \<open>kernel/include/syscalls.h\<close>, \<open>kernel/kill.c\<close>, \<open>userland/syscall.c\<close>,
    \<open>userspace.c\<close>, \<open>core/greet.c\<close>. Shown: which registers a trap carries on each architecture, number
    parsing, the processor state a user program starts in, the copied stack of a fork.
  \<^item> \<open>Object_Formats\<close>, \<open>Linux_Kernel\<close>, \<open>Tables\<close>: the macros and inline functions of \<open>include/linux/\<close> that
    compute, \<open>core/logo.c\<close> and \<open>include/graphics/font.h\<close>. Shown: the fields and the layout of an \<open>a.out\<close>
    file, byte orders and structure sizes of COFF, which areas \<open>verify_area\<close> lets through, how long
    a delay loops, which descriptors stay inside a descriptor set, sizes and ranges of the tables.

  \<^bold>\<open>Loops.\<close> No definition uses fuel. Loops bounded by their data are total functions with a termination
  measure. Loops over linked lists in memory, busy waits, the copy loop of the package manager and the
  shell's main loop, the boot sector's table walk and the waits for the keyboard controller are partial functions into option, and the theorems about them state
  that they return: on well-formed lists, on a live serial line or controller, on input that ends. The
  console task never ends; its definition runs any given number of its rounds. The countdown loops
  of the card drivers are bounded by the constants of the code.

  \<^bold>\<open>Not modelled.\<close> Linker scripts and build files. Of the headers under \<open>include/linux/\<close>, the lists of constants,
  structure declarations and prototypes: nothing in the tree calls them and no file defines the functions.
  \<open>ps2.h\<close>, \<open>vga.h\<close> and \<open>idt.h\<close>, whose functions have no body in the tree. The unreachable copy of
  the mode switch in \<open>gdt.asm\<close>. Timing, interrupts between the statements of an
  operation, and the effects of undefined behaviour beyond the faults named above are outside the model.
\<close>

end
